(* ===== verification/Prelude.thy ===== *)
theory Prelude
  imports Complex_Main "HOL-Library.Multiset"
begin

text \<open>
  Shared vocabulary of the development: the exceptions the Python code raises, the result
  type of fallible operations, keyed tables (lists of rows with a key column, the shape of
  every ORM model), and the generic lemmas the component theories rest on.

  Conventions. A Python call that may raise returns \<open>exn + 'a\<close>, with \<open>Inl\<close> the exception.
  A Python \<open>float\<close> is a real number: the arithmetic is exact and rounding is not modelled.
  A \<open>datetime\<close> is a number of microseconds (its resolution) as an \<open>int\<close>.
\<close>

section \<open>Exceptions and results\<close>

datatype exn =
    KeyError string
  | ValueError string
  | TypeError string
  | OverflowError string
  | SSRFValidationError string
  | IntegrityError string
  | MultipleResultsFound
  | StaleDataError
  | DataError string
  | HTTPException int string string
  | ResponseError string
  | InvalidToken
  | OtherError string

type_synonym 'a result = "exn + 'a"

text \<open>Microseconds since the epoch.\<close>

type_synonym datetime = int

definition seconds_us :: int where
  "seconds_us = 1000000"

definition days_us :: "int \<Rightarrow> int" where
  "days_us d = d * (24 * 60 * 60 * 1000000)"

text \<open>
  Sequencing of fallible computations; \<open>rbind r f\<close> runs \<open>f\<close> on the value and passes an
  exception on, as Python does.
\<close>

definition rbind :: "'a result \<Rightarrow> ('a \<Rightarrow> 'b result) \<Rightarrow> 'b result" where
  "rbind r f = (case r of Inl e \<Rightarrow> Inl e | Inr x \<Rightarrow> f x)"

lemma rbind_simps [simp]:
  "rbind (Inl e) f = Inl e"
  "rbind (Inr x) f = f x"
  by (simp_all add: rbind_def)

lemma rbind_Inr_iff: "rbind r f = Inr y \<longleftrightarrow> (\<exists>x. r = Inr x \<and> f x = Inr y)"
  by (cases r) auto

lemma rbind_Inl_iff: "rbind r f = Inl e \<longleftrightarrow> r = Inl e \<or> (\<exists>x. r = Inr x \<and> f x = Inl e)"
  by (cases r) auto

text \<open>\<open>scalar_one_or_none()\<close> on the rows of a result.\<close>

definition scalar_one_or_none :: "'a list \<Rightarrow> 'a option result" where
  "scalar_one_or_none rows =
     (case rows of [] \<Rightarrow> Inr None | [x] \<Rightarrow> Inr (Some x) | _ \<Rightarrow> Inl MultipleResultsFound)"

lemma scalar_one_or_none_simps [simp]:
  "scalar_one_or_none [] = Inr None" "scalar_one_or_none [x] = Inr (Some x)"
  "scalar_one_or_none (x # y # zs) = Inl MultipleResultsFound"
  by (simp_all add: scalar_one_or_none_def)

lemma scalar_one_or_none_Nil [simp]: "scalar_one_or_none rows = Inr None \<longleftrightarrow> rows = []"
  by (simp add: scalar_one_or_none_def split: list.splits)

lemma scalar_one_or_none_Some [simp]: "scalar_one_or_none rows = Inr (Some x) \<longleftrightarrow> rows = [x]"
  by (auto simp: scalar_one_or_none_def split: list.splits)

section \<open>Rounding\<close>

text \<open>\<open>int(x)\<close> on a float: truncation towards zero.\<close>

definition trunc :: "real \<Rightarrow> int" where
  "trunc x = (if x \<ge> 0 then \<lfloor>x\<rfloor> else \<lceil>x\<rceil>)"

text \<open>
  Rounding to the nearest integer, ties to even: what \<open>timedelta\<close> does with a fractional
  number of microseconds.
\<close>

definition round_half_even :: "real \<Rightarrow> int" where
  "round_half_even x =
     (let f = \<lfloor>x\<rfloor>; d = x - of_int f in
      if d < 1/2 then f else if d > 1/2 then f + 1 else if even f then f else f + 1)"

lemma round_half_even_of_int [simp]: "round_half_even (of_int n) = n"
  by (simp add: round_half_even_def)

lemma round_half_even_bounds:
  "x - 1/2 \<le> of_int (round_half_even x) \<and> of_int (round_half_even x) \<le> x + 1/2"
proof -
  define f where "f = \<lfloor>x\<rfloor>"
  have f: "of_int f \<le> x" "x < of_int f + 1" unfolding f_def by linarith+
  consider "x - of_int f < 1/2" | "x - of_int f > 1/2" | "x - of_int f = 1/2" by linarith
  then show ?thesis
  proof cases
    case 1
    then have "round_half_even x = f" by (simp add: round_half_even_def f_def Let_def)
    with 1 f show ?thesis by linarith
  next
    case 2
    then have "round_half_even x = f + 1" by (simp add: round_half_even_def f_def Let_def)
    then have "of_int (round_half_even x) = of_int f + (1::real)" by simp
    with 2 f show ?thesis by linarith
  next
    case 3
    then have "round_half_even x = f \<or> round_half_even x = f + 1"
      by (simp add: round_half_even_def f_def Let_def)
    then have "of_int (round_half_even x) = (of_int f :: real) \<or>
      of_int (round_half_even x) = of_int f + (1::real)" by auto
    with 3 show ?thesis by linarith
  qed
qed

lemma round_half_even_mono_int:
  assumes "of_int n \<le> x"
  shows "n \<le> round_half_even x"
proof -
  from assms have "n \<le> \<lfloor>x\<rfloor>" by (simp add: le_floor_iff)
  then show ?thesis by (auto simp: round_half_even_def Let_def)
qed

text \<open>\<open>timedelta(seconds=s)\<close> in microseconds.\<close>

definition timedelta_seconds :: "real \<Rightarrow> int" where
  "timedelta_seconds s = round_half_even (s * 1000000)"

lemma timedelta_seconds_nonneg: "0 \<le> s \<Longrightarrow> 0 \<le> timedelta_seconds s"
  unfolding timedelta_seconds_def by (rule round_half_even_mono_int) simp

lemma timedelta_seconds_of_int [simp]: "timedelta_seconds (of_int n) = n * 1000000"
proof -
  have "of_int n * 1000000 = (of_int (n * 1000000) :: real)" by simp
  then show ?thesis by (simp only: timedelta_seconds_def round_half_even_of_int)
qed

section \<open>Keyed tables\<close>

text \<open>
  A table is the list of its rows; \<open>key\<close> reads a row's primary key. \<open>tab_get\<close> is
  \<open>session.get\<close>, \<open>tab_upd\<close> an UPDATE of the row with a given key, \<open>tab_keys\<close> the keys
  in use. Nothing of the model depends on the order of the rows.
\<close>

definition tab_get :: "('r \<Rightarrow> 'k) \<Rightarrow> 'k \<Rightarrow> 'r list \<Rightarrow> 'r option" where
  "tab_get key k rows = find (\<lambda>r. key r = k) rows"

definition tab_upd :: "('r \<Rightarrow> 'k) \<Rightarrow> 'k \<Rightarrow> ('r \<Rightarrow> 'r) \<Rightarrow> 'r list \<Rightarrow> 'r list" where
  "tab_upd key k f rows = map (\<lambda>r. if key r = k then f r else r) rows"

definition tab_keys :: "('r \<Rightarrow> 'k) \<Rightarrow> 'r list \<Rightarrow> 'k set" where
  "tab_keys key rows = key ` set rows"

named_theorems tab_simps

lemma tab_get_Nil [simp]: "tab_get key k [] = None"
  by (simp add: tab_get_def)

lemma tab_get_Cons [tab_simps]:
  "tab_get key k (r # rows) = (if key r = k then Some r else tab_get key k rows)"
  by (simp add: tab_get_def)

lemma tab_get_SomeD: "tab_get key k rows = Some r \<Longrightarrow> r \<in> set rows \<and> key r = k"
  by (auto simp: tab_get_def find_Some_iff)

lemma tab_get_None_iff: "tab_get key k rows = None \<longleftrightarrow> k \<notin> tab_keys key rows"
  by (auto simp: tab_get_def tab_keys_def find_None_iff)

lemma tab_get_Some_key: "k \<in> tab_keys key rows \<Longrightarrow> \<exists>r. tab_get key k rows = Some r"
  using tab_get_None_iff by fastforce

lemma tab_keys_iff_get: "k \<in> tab_keys key rows \<longleftrightarrow> (\<exists>r. tab_get key k rows = Some r)"
  using tab_get_None_iff [of key k rows] by (cases "tab_get key k rows") auto

lemma tab_get_append [tab_simps]:
  "tab_get key k (xs @ ys) =
     (case tab_get key k xs of None \<Rightarrow> tab_get key k ys | Some r \<Rightarrow> Some r)"
  by (induction xs) (auto simp: tab_get_Cons)

lemma tab_get_unique:
  assumes "distinct (map key rows)" "r \<in> set rows"
  shows "tab_get key (key r) rows = Some r"
  using assms by (induction rows) (auto simp: tab_get_Cons image_iff)

lemma tab_keys_append [simp]: "tab_keys key (xs @ ys) = tab_keys key xs \<union> tab_keys key ys"
  by (auto simp: tab_keys_def)

lemma tab_keys_Cons [simp]: "tab_keys key (x # xs) = insert (key x) (tab_keys key xs)"
  by (auto simp: tab_keys_def)

lemma tab_keys_Nil [simp]: "tab_keys key [] = {}"
  by (simp add: tab_keys_def)

lemma map_key_upd [simp]:
  "(\<And>r. key (f r) = key r) \<Longrightarrow> map key (tab_upd key k f rows) = map key rows"
  by (simp add: tab_upd_def)

lemma tab_keys_upd [simp]:
  "(\<And>r. key (f r) = key r) \<Longrightarrow> tab_keys key (tab_upd key k f rows) = tab_keys key rows"
  by (metis map_key_upd tab_keys_def list.set_map)

lemma tab_get_upd:
  "(\<And>r. key (f r) = key r) \<Longrightarrow>
     tab_get key k' (tab_upd key k f rows) =
       (if k' = k then map_option f (tab_get key k rows) else tab_get key k' rows)"
  by (induction rows) (auto simp: tab_get_Cons tab_upd_def)

lemma tab_upd_absent: "k \<notin> tab_keys key rows \<Longrightarrow> tab_upd key k f rows = rows"
  by (auto simp: tab_upd_def tab_keys_def intro!: map_idI)

lemma length_tab_upd [simp]: "length (tab_upd key k f rows) = length rows"
  by (simp add: tab_upd_def)

lemma tab_upd_append [simp]: "tab_upd key k f (xs @ ys) = tab_upd key k f xs @ tab_upd key k f ys"
  by (simp add: tab_upd_def)

lemma tab_upd_Nil [simp]: "tab_upd key k f [] = []"
  by (simp add: tab_upd_def)

lemma tab_upd_Cons [tab_simps]:
  "tab_upd key k f (r # rows) = (if key r = k then f r else r) # tab_upd key k f rows"
  by (simp add: tab_upd_def)

lemma in_set_tab_updE:
  assumes "r \<in> set (tab_upd key k f rows)"
  obtains r0 where "r0 \<in> set rows" "r = (if key r0 = k then f r0 else r0)"
  using assms by (auto simp: tab_upd_def)

lemma map_proj_upd:
  "(\<And>r. g (f r) = g r) \<Longrightarrow> map g (tab_upd key k f rows) = map g rows"
  by (simp add: tab_upd_def)

lemma set_proj_upd:
  "(\<And>r. g (f r) = g r) \<Longrightarrow> g ` set (tab_upd key k f rows) = g ` set rows"
  by (metis map_proj_upd list.set_map)

section \<open>Lists\<close>

text \<open>
  A query without ORDER BY returns its rows in an order the database chooses. A \<open>scan\<close> is
  that choice: a function that reorders rows and neither adds nor drops any.
\<close>

definition is_scan :: "('a list \<Rightarrow> 'a list) \<Rightarrow> bool" where
  "is_scan s \<longleftrightarrow> (\<forall>xs. mset (s xs) = mset xs)"

lemma is_scan_id [simp]: "is_scan (\<lambda>xs. xs)"
  by (simp add: is_scan_def)

lemma is_scan_rev [simp]: "is_scan rev"
  by (simp add: is_scan_def)

lemma is_scan_set: "is_scan s \<Longrightarrow> set (s xs) = set xs"
  unfolding is_scan_def by (metis set_mset_mset)

lemma is_scan_length: "is_scan s \<Longrightarrow> length (s xs) = length xs"
  unfolding is_scan_def by (metis size_mset)

lemma is_scan_distinct: "is_scan s \<Longrightarrow> distinct (s xs) = distinct xs"
  unfolding is_scan_def by (metis mset_eq_imp_distinct_iff)

lemma is_scan_Nil [simp]: "is_scan s \<Longrightarrow> s [] = []"
  using is_scan_length [of s "[]"] by simp

lemma is_scan_Nil_iff: "is_scan s \<Longrightarrow> s xs = [] \<longleftrightarrow> xs = []"
  by (metis is_scan_length length_0_conv)

lemma distinct_map_snoc:
  "distinct (map f (xs @ [x])) \<longleftrightarrow> distinct (map f xs) \<and> f x \<notin> tab_keys f xs"
  by (auto simp: tab_keys_def)

lemma distinct_map_take: "distinct (map f xs) \<Longrightarrow> distinct (map f (take n xs))"
  by (metis distinct_take take_map)

lemma length_filter_filter: "length (filter P (filter Q xs)) \<le> length (filter P xs)"
  by (induction xs) auto

lemma distinct_map_scan: "is_scan scan \<Longrightarrow> distinct (map f (scan xs)) = distinct (map f xs)"
  unfolding is_scan_def by (metis mset_map mset_eq_imp_distinct_iff)

lemma concat_map_if: "concat (map (\<lambda>x. if P x then [f x] else []) xs) = map f (filter P xs)"
  by (induction xs) simp_all

lemma image_filter_subset: "f ` set xs \<subseteq> Y \<Longrightarrow> f ` {x \<in> set xs. P x} \<subseteq> Y"
  by auto

text \<open>A unique key selects its row alone.\<close>

lemma filter_unique:
  "distinct (map f xs) \<Longrightarrow> x \<in> set xs \<Longrightarrow> filter (\<lambda>y. f y = f x) xs = [x]"
proof (induction xs)
  case (Cons a xs)
  show ?case
  proof (cases "x = a")
    case True
    with Cons.prems show ?thesis by (auto simp: filter_empty_conv image_iff)
  next
    case False
    with Cons.prems have "f a \<noteq> f x" by (auto simp: image_iff)
    with False Cons show ?thesis by simp
  qed
qed simp

lemma filter_Cons_mem: "filter P xs = x # ys \<Longrightarrow> x \<in> set xs \<and> P x"
  by (metis filter_eq_ConsD in_set_conv_decomp)

end
