(* ===== verification/Py_String.thy ===== *)
theory Py_String
  imports Prelude "HOL-Library.Word"
begin

text \<open>
  The parts of Python's string, integer and UUID types that the program uses. A Python
  string is a \<open>string\<close>, so its characters are the code points 0 to 255; within that range
  every function below agrees with CPython (white space, digits, letter case, UTF-8).
\<close>

section \<open>Characters\<close>

definition ord :: "char \<Rightarrow> nat" where
  "ord c = of_char c"

definition is_space :: "char \<Rightarrow> bool" where
  "is_space c \<longleftrightarrow> (let k = ord c in 9 \<le> k \<and> k \<le> 13 \<or> 28 \<le> k \<and> k \<le> 32 \<or> k = 133 \<or> k = 160)"

definition lower_char :: "char \<Rightarrow> char" where
  "lower_char c =
     (let k = ord c in
      if 65 \<le> k \<and> k \<le> 90 \<or> 192 \<le> k \<and> k \<le> 222 \<and> k \<noteq> 215 then char_of (k + 32) else c)"

definition digit_val :: "char \<Rightarrow> nat option" where
  "digit_val c =
     (let k = ord c in
      if 48 \<le> k \<and> k \<le> 57 then Some (k - 48)
      else if 97 \<le> k \<and> k \<le> 122 then Some (k - 87)
      else if 65 \<le> k \<and> k \<le> 90 then Some (k - 55)
      else None)"

definition digit_char :: "nat \<Rightarrow> char" where
  "digit_char n = (if n < 10 then char_of (48 + n) else char_of (87 + n))"

lemma ord_less: "ord c < 256"
  by (simp add: ord_def)

lemma ord_char_of [simp]: "n < 256 \<Longrightarrow> ord (char_of n) = n"
  by (simp add: ord_def)

lemma ord_inject: "ord c = ord d \<longleftrightarrow> c = d"
  by (simp add: ord_def)

lemma ord_digit_char:
  "n < 36 \<Longrightarrow> ord (digit_char n) = (if n < 10 then 48 + n else 87 + n)"
  by (auto simp: digit_char_def)

lemma digit_val_digit_char [simp]: "n < 36 \<Longrightarrow> digit_val (digit_char n) = Some n"
  by (auto simp: digit_val_def Let_def ord_digit_char)

lemma digit_char_not_space [simp]: "n < 36 \<Longrightarrow> \<not> is_space (digit_char n)"
  by (auto simp: is_space_def Let_def ord_digit_char)

lemma digit_char_neq:
  assumes "n < 36" "ord c < 48 \<or> ord c = 95 \<or> 57 < ord c \<and> ord c < 97 \<or> 122 < ord c"
  shows "digit_char n \<noteq> c" "c \<noteq> digit_char n"
  using assms ord_digit_char [of n] by (auto split: if_splits)

lemma ord_literals [simp]:
  "ord CHR ''_'' = 95" "ord CHR ''-'' = 45" "ord CHR ''+'' = 43" "ord CHR ''.'' = 46"
  "ord CHR '','' = 44" "ord CHR ''='' = 61" "ord CHR ''x'' = 120" "ord CHR ''X'' = 88"
  "ord CHR ''0'' = 48" "ord CHR '':'' = 58" "ord CHR ''{'' = 123" "ord CHR ''}'' = 125"
  "ord CHR ''u'' = 117" "ord CHR ''r'' = 114" "ord CHR ''|'' = 124"
  by (simp_all add: ord_def)

section \<open>Strings\<close>

definition lstrip :: "string \<Rightarrow> string" where
  "lstrip s = dropWhile is_space s"

definition strip :: "string \<Rightarrow> string" where
  "strip s = rev (dropWhile is_space (rev (lstrip s)))"

definition str_lower :: "string \<Rightarrow> string" where
  "str_lower s = map lower_char s"

definition isascii :: "string \<Rightarrow> bool" where
  "isascii s \<longleftrightarrow> list_all (\<lambda>c. ord c < 128) s"

fun startswith :: "string \<Rightarrow> string \<Rightarrow> bool" where
  "startswith s [] = True"
| "startswith [] (p # ps) = False"
| "startswith (c # s) (p # ps) = (c = p \<and> startswith s ps)"

definition removeprefix :: "string \<Rightarrow> string \<Rightarrow> string" where
  "removeprefix s p = (if startswith s p then drop (length p) s else s)"

text \<open>\<open>s.partition(c)\<close> for a single character: the parts around the first \<open>c\<close>, if any.\<close>

fun partition1 :: "char \<Rightarrow> string \<Rightarrow> string \<times> bool \<times> string" where
  "partition1 c [] = ([], False, [])"
| "partition1 c (x # xs) =
     (if x = c then ([], True, xs)
      else case partition1 c xs of (a, found, b) \<Rightarrow> (x # a, found, b))"

text \<open>\<open>s.rpartition(c)[2]\<close>: what follows the last \<open>c\<close>, the whole string if there is none.\<close>

definition rpartition_last :: "char \<Rightarrow> string \<Rightarrow> string" where
  "rpartition_last c s = rev (fst (partition1 c (rev s)))"

text \<open>\<open>s.split(c)\<close>.\<close>

fun split_on :: "char \<Rightarrow> string \<Rightarrow> string list" where
  "split_on c [] = [[]]"
| "split_on c (x # xs) =
     (if x = c then [] # split_on c xs
      else case split_on c xs of [] \<Rightarrow> [[x]] | w # ws \<Rightarrow> (x # w) # ws)"

text \<open>\<open>s.replace(p, '')\<close> for a non-empty \<open>p\<close>.\<close>

fun remove_all :: "string \<Rightarrow> string \<Rightarrow> nat \<Rightarrow> string" where
  "remove_all p [] k = []"
| "remove_all p (c # s) (Suc k) = remove_all p s k"
| "remove_all p (c # s) 0 =
     (if startswith (c # s) p then remove_all p s (length p - 1) else c # remove_all p s 0)"

definition replace_empty :: "string \<Rightarrow> string \<Rightarrow> string" where
  "replace_empty p s = remove_all p s 0"

lemma split_on_neq_Nil [simp]: "split_on c s \<noteq> []"
  by (induction c s rule: split_on.induct) (auto split: list.splits)

lemma split_on_none: "c \<notin> set s \<Longrightarrow> split_on c s = [s]"
  by (induction c s rule: split_on.induct) auto

lemma split_on_append:
  "c \<notin> set s \<Longrightarrow> split_on c (s @ c # t) = s # split_on c t"
  by (induction s) auto

lemma partition1_none: "c \<notin> set s \<Longrightarrow> partition1 c s = (s, False, [])"
  by (induction s) auto

lemma partition1_append: "c \<notin> set s \<Longrightarrow> partition1 c (s @ c # t) = (s, True, t)"
  by (induction s) auto

lemma partition1_found: "fst (snd (partition1 c s)) \<longleftrightarrow> c \<in> set s"
  by (induction c s rule: partition1.induct) (auto split: prod.splits)

lemma startswith_append [simp]: "startswith (p @ s) p"
  by (induction p) auto

lemma startswith_iff: "startswith s p \<longleftrightarrow> (\<exists>t. s = p @ t)"
  by (induction s p rule: startswith.induct) auto

lemma removeprefix_append [simp]: "removeprefix (p @ s) p = s"
  by (simp add: removeprefix_def)

lemma strip_no_space: "list_all (\<lambda>c. \<not> is_space c) s \<Longrightarrow> strip s = s"
proof -
  have id: "dropWhile is_space t = t" if "list_all (\<lambda>c. \<not> is_space c) t" for t
    using that by (cases t) auto
  assume "list_all (\<lambda>c. \<not> is_space c) s"
  moreover from this have "list_all (\<lambda>c. \<not> is_space c) (rev s)" by (simp add: list_all_iff)
  ultimately show ?thesis by (simp add: strip_def lstrip_def id)
qed

section \<open>Integers\<close>

text \<open>\<open>str(n)\<close> and the fixed-width hexadecimal digits of \<open>n\<close>.\<close>

fun str_nat :: "nat \<Rightarrow> string" where
  "str_nat n = (if n < 10 then [digit_char n] else str_nat (n div 10) @ [digit_char (n mod 10)])"

declare str_nat.simps [simp del]

definition str_int :: "int \<Rightarrow> string" where
  "str_int n = (if n < 0 then CHR ''-'' # str_nat (nat (- n)) else str_nat (nat n))"

fun hex_digits :: "nat \<Rightarrow> nat \<Rightarrow> string" where
  "hex_digits 0 n = []"
| "hex_digits (Suc k) n = hex_digits k (n div 16) @ [digit_char (n mod 16)]"

text \<open>
  \<open>int(s, b)\<close> for \<open>b\<close> 10 or 16: surrounding white space, an optional sign, in base 16 an
  optional \<open>0x\<close>, and digits with single underscores between them. The flag says whether
  the last character was a digit.
\<close>

fun int_digits :: "nat \<Rightarrow> bool \<Rightarrow> nat \<Rightarrow> string \<Rightarrow> nat option" where
  "int_digits b ok acc [] = (if ok then Some acc else None)"
| "int_digits b ok acc (c # cs) =
     (if c = CHR ''_'' then if ok then int_digits b False acc cs else None
      else case digit_val c of
             None \<Rightarrow> None
           | Some d \<Rightarrow> if d < b then int_digits b True (acc * b + d) cs else None)"

definition drop_base_prefix :: "nat \<Rightarrow> string \<Rightarrow> string" where
  "drop_base_prefix b s =
     (if b = 16 \<and> (startswith s ''0x'' \<or> startswith s ''0X'')
      then (if startswith (drop 2 s) ''_'' then drop 3 s else drop 2 s)
      else s)"

definition py_int :: "nat \<Rightarrow> string \<Rightarrow> int option" where
  "py_int b s =
     (let t = strip s;
          neg = startswith t ''-'';
          u = (if neg \<or> startswith t ''+'' then drop 1 t else t)
      in map_option (\<lambda>n. if neg then - int n else int n)
           (int_digits b False 0 (drop_base_prefix b u)))"

lemma set_str_nat: "set (str_nat n) \<subseteq> digit_char ` {..<10}"
proof (induction n rule: str_nat.induct)
  case (1 n)
  then show ?case
    by (subst str_nat.simps) (cases "n < 10", auto simp: image_iff subset_iff)
qed

lemma str_nat_neq_Nil [simp]: "str_nat n \<noteq> []"
  by (subst str_nat.simps) simp

lemma set_hex_digits: "set (hex_digits k n) \<subseteq> digit_char ` {..<16}"
proof (induction k arbitrary: n)
  case (Suc k)
  have "digit_char (n mod 16) \<in> digit_char ` {..<16}" by (rule imageI) simp
  with Suc.IH [of "n div 16"] show ?case by simp
qed simp

lemma length_hex_digits [simp]: "length (hex_digits k n) = k"
  by (induction k arbitrary: n) auto

lemma int_digits_append_digit:
  assumes "int_digits b ok acc s = Some n" "d < b" "b \<le> 36"
  shows "int_digits b ok acc (s @ [digit_char d]) = Some (n * b + d)"
  using assms
proof (induction b ok acc s rule: int_digits.induct)
  case (1 b ok acc)
  then show ?case by (auto simp: digit_char_neq split: if_splits)
next
  case (2 b ok acc c cs)
  then show ?case by (auto split: if_splits option.splits)
qed

lemma int_digits_digit: "d < b \<Longrightarrow> b \<le> 36 \<Longrightarrow> int_digits b ok acc [digit_char d] = Some (acc * b + d)"
  by (simp add: digit_char_neq)

lemma int_digits_str_nat: "int_digits 10 False 0 (str_nat n) = Some n"
proof (induction n rule: str_nat.induct)
  case (1 n)
  show ?case
  proof (cases "n < 10")
    case True
    then show ?thesis by (subst str_nat.simps) (simp add: digit_char_neq)
  next
    case False
    with 1 have "int_digits 10 False 0 (str_nat (n div 10)) = Some (n div 10)" by simp
    from int_digits_append_digit [OF this, of "n mod 10"] False show ?thesis
      by (subst str_nat.simps) simp
  qed
qed

lemma int_digits_hex_digits:
  "k > 0 \<Longrightarrow> int_digits 16 False 0 (hex_digits k n) = Some (n mod 16 ^ k)"
proof (induction k arbitrary: n)
  case (Suc k)
  have split: "n mod 16 ^ Suc k = (n div 16 mod 16 ^ k) * 16 + n mod 16"
    by (simp add: mod_mult2_eq [of n 16 "16 ^ k"] mult.commute)
  show ?case
  proof (cases "k = 0")
    case True
    then show ?thesis by (simp add: int_digits_digit del: int_digits.simps)
  next
    case False
    with Suc.IH have "int_digits 16 False 0 (hex_digits k (n div 16)) = Some (n div 16 mod 16 ^ k)"
      by simp
    from int_digits_append_digit [OF this, of "n mod 16"] show ?thesis using split by simp
  qed
qed simp

lemma digits_sub: "b \<le> 36 \<Longrightarrow> digit_char ` {..<b} \<subseteq> digit_char ` {..<36}"
  by (intro image_mono) auto

lemma set_str_nat_36: "set (str_nat n) \<subseteq> digit_char ` {..<36}"
  using set_str_nat digits_sub [of 10] by fastforce

lemma set_hex_digits_36: "set (hex_digits k n) \<subseteq> digit_char ` {..<36}"
  using set_hex_digits digits_sub [of 16] by fastforce

lemma strip_digits: "set s \<subseteq> digit_char ` {..<36} \<Longrightarrow> strip s = s"
  by (rule strip_no_space) (auto simp: list_all_iff)

lemma notin_digits:
  "set s \<subseteq> digit_char ` {..<36} \<Longrightarrow> ord c < 48 \<or> 57 < ord c \<and> ord c < 97 \<or> 122 < ord c \<Longrightarrow>
     c \<notin> set s"
  by (auto simp: subset_iff image_iff dest: digit_char_neq)

lemma startswith_digits:
  assumes "set s \<subseteq> digit_char ` {..<36}" "ord p < 48"
  shows "\<not> startswith s (p # ps)"
  using notin_digits [OF assms(1), of p] assms(2) by (cases s) auto

lemma minus_not_space [simp]: "\<not> is_space CHR ''-''"
  by (simp add: is_space_def)

lemma strip_minus_digits:
  "set s \<subseteq> digit_char ` {..<36} \<Longrightarrow> strip (CHR ''-'' # s) = CHR ''-'' # s"
  by (rule strip_no_space) (auto simp: list_all_iff)

lemma py_int_str_int [simp]: "py_int 10 (str_int n) = Some n"
proof (cases "n < 0")
  case True
  then show ?thesis
    by (simp add: py_int_def str_int_def Let_def drop_base_prefix_def int_digits_str_nat
        strip_minus_digits set_str_nat_36)
next
  case False
  then show ?thesis
    by (simp add: py_int_def str_int_def Let_def strip_digits startswith_digits set_str_nat_36
        drop_base_prefix_def int_digits_str_nat)
qed

lemma str_int_chars:
  assumes "ord c < 48" "c \<noteq> CHR ''-''"
  shows "c \<notin> set (str_int n)"
  using assms notin_digits [OF set_str_nat_36, of c] by (auto simp: str_int_def)

lemma str_int_not_mem:
  assumes "57 < ord c \<and> ord c < 97 \<or> 122 < ord c"
  shows "c \<notin> set (str_int n)"
  using assms notin_digits [OF set_str_nat_36, of c] by (auto simp: str_int_def)

section \<open>UUIDs\<close>

text \<open>
  A \<open>uuid.UUID\<close> is its 128-bit integer. \<open>str_uuid\<close> is the canonical 8-4-4-4-12 text;
  \<open>uuid_of_str\<close> is the constructor \<open>uuid.UUID(s)\<close>, \<open>None\<close> where it raises ValueError.
\<close>

type_synonym uuid = "128 word"

definition str_uuid :: "uuid \<Rightarrow> string" where
  "str_uuid u =
     (let h = hex_digits 32 (unat u) in
      take 8 h @ ''-'' @ take 4 (drop 8 h) @ ''-'' @ take 4 (drop 12 h) @ ''-'' @
      take 4 (drop 16 h) @ ''-'' @ drop 20 h)"

definition uuid_hex :: "string \<Rightarrow> string" where
  "uuid_hex s =
     (let h = replace_empty ''uuid:'' (replace_empty ''urn:'' s);
          l = dropWhile (\<lambda>c. c = CHR ''{'' \<or> c = CHR ''}'') h;
          r = rev (dropWhile (\<lambda>c. c = CHR ''{'' \<or> c = CHR ''}'') (rev l))
      in filter (\<lambda>c. c \<noteq> CHR ''-'') r)"

definition uuid_of_str :: "string \<Rightarrow> uuid option" where
  "uuid_of_str s =
     (let h = uuid_hex s in
      if length h \<noteq> 32 then None
      else case py_int 16 h of
             None \<Rightarrow> None
           | Some n \<Rightarrow> if 0 \<le> n \<and> n < 2 ^ 128 then Some (word_of_int n) else None)"

lemma remove_all_absent:
  "p \<notin> set s \<Longrightarrow> remove_all (p # ps) s 0 = s"
  by (induction s) auto

lemma dropWhile_absent: "(\<And>c. c \<in> set s \<Longrightarrow> \<not> P c) \<Longrightarrow> dropWhile P s = s"
  by (cases s) auto

lemma hex_append_parts:
  "take 8 h @ take 4 (drop 8 h) @ take 4 (drop 12 h) @ take 4 (drop 16 h) @ drop 20 h = h"
proof -
  have "take 4 (drop 16 h) @ drop 20 h = drop 16 h"
    using append_take_drop_id [of 4 "drop 16 h"] by simp
  moreover have "take 4 (drop 12 h) @ drop 16 h = drop 12 h"
    using append_take_drop_id [of 4 "drop 12 h"] by simp
  moreover have "take 4 (drop 8 h) @ drop 12 h = drop 8 h"
    using append_take_drop_id [of 4 "drop 8 h"] by simp
  ultimately show ?thesis by simp
qed

lemma set_str_uuid: "set (str_uuid u) \<subseteq> insert (CHR ''-'') (digit_char ` {..<16})"
proof -
  have "set (str_uuid u) \<subseteq> insert (CHR ''-'') (set (hex_digits 32 (unat u)))"
    unfolding str_uuid_def Let_def by (auto dest: in_set_takeD in_set_dropD simp del: hex_digits.simps)
  with set_hex_digits [of 32 "unat u"] show ?thesis by blast
qed

lemma str_uuid_not_mem:
  assumes "ord c \<noteq> 45" "ord c < 48 \<or> 57 < ord c \<and> ord c < 97 \<or> 102 < ord c"
  shows "c \<notin> set (str_uuid u)"
proof
  assume "c \<in> set (str_uuid u)"
  then have "c \<in> insert (CHR ''-'') (digit_char ` {..<16})" by (rule subsetD [OF set_str_uuid])
  then consider "c = CHR ''-''" | d where "d < 16" "c = digit_char d" by blast
  then show False
  proof cases
    case 1
    with assms(1) show False by simp
  next
    case (2 d)
    with assms(2) ord_digit_char [of d] show False by (simp split: if_splits)
  qed
qed

lemma uuid_hex_str_uuid: "uuid_hex (str_uuid u) = hex_digits 32 (unat u)"
proof -
  let ?h = "hex_digits 32 (unat u)"
  have nodash: "filter (\<lambda>c. c \<noteq> CHR ''-'') t = t" if "set t \<subseteq> set ?h" for t
    using that notin_digits [OF set_hex_digits_36, of "CHR ''-''" 32 "unat u"]
    by (auto intro!: filter_True)
  have "filter (\<lambda>c. c \<noteq> CHR ''-'') (str_uuid u) = ?h"
    by (simp add: str_uuid_def Let_def nodash hex_append_parts set_take_subset set_drop_subset
        subset_trans [OF set_take_subset set_drop_subset])
  moreover have "replace_empty ''urn:'' (str_uuid u) = str_uuid u"
      "replace_empty ''uuid:'' (str_uuid u) = str_uuid u"
    by (simp_all add: replace_empty_def remove_all_absent str_uuid_not_mem)
  moreover have "dropWhile (\<lambda>c. c = CHR ''{'' \<or> c = CHR ''}'') t = t"
    if "set t = set (str_uuid u)" for t
    by (rule dropWhile_absent)
      (use that str_uuid_not_mem [of "CHR ''{''" u] str_uuid_not_mem [of "CHR ''}''" u] in auto)
  ultimately show ?thesis by (simp add: uuid_hex_def Let_def)
qed

lemma uuid_of_str_str_uuid [simp]: "uuid_of_str (str_uuid u) = Some u"
proof -
  let ?h = "hex_digits 32 (unat u)"
  have bound: "unat u < 16 ^ 32" using unsigned_less [of u] by simp
  have "CHR ''x'' \<notin> set ?h" "CHR ''X'' \<notin> set ?h"
    using set_hex_digits [of 32 "unat u"] by (auto simp: ord_digit_char dest!: subsetD arg_cong [where f = ord] split: if_splits)
  then have "drop_base_prefix 16 ?h = ?h"
    by (auto simp: drop_base_prefix_def startswith_iff)
  then have "py_int 16 ?h = Some (int (unat u))"
    using int_digits_hex_digits [of 32 "unat u"] bound
    by (simp add: py_int_def Let_def strip_digits set_hex_digits_36 startswith_digits)
  moreover have "int (unat u) < 2 ^ 128" using unsigned_less [of u] by simp
  ultimately show ?thesis
    by (simp add: uuid_of_str_def Let_def uuid_hex_str_uuid)
qed

lemma str_uuid_inject: "str_uuid u = str_uuid v \<longleftrightarrow> u = v"
  using uuid_of_str_str_uuid by (metis option.inject)

end
