(* ===== verification/Enums.thy ===== *)
theory Enums
  imports Py_String
begin

text \<open>
  The enumerations of \<open>packages/common/eventmesh_common/enums.py\<close>. Each is a datatype with
  the source's members; \<open>value_of\<close>-style functions give the string that the database
  columns hold. Columns themselves are strings, as in the schema, so a row may hold a
  string that is no member's value.
\<close>

section \<open>String enumerations\<close>

text \<open>\<open>E(s)\<close>: the member with value \<open>s\<close>, or ValueError.\<close>

definition enum_of_value :: "'a list \<Rightarrow> ('a \<Rightarrow> string) \<Rightarrow> string \<Rightarrow> 'a result" where
  "enum_of_value members val s =
     (case find (\<lambda>x. val x = s) members of
        None \<Rightarrow> Inl (ValueError (s @ '' is not a valid member''))
      | Some x \<Rightarrow> Inr x)"

locale str_enum =
  fixes members :: "'a list"
    and val :: "'a \<Rightarrow> string"
  assumes distinct_values: "distinct (map val members)"
    and complete: "x \<in> set members"
begin

lemma val_inject [simp]: "val x = val y \<longleftrightarrow> x = y"
  using distinct_values complete by (auto simp: distinct_map dest: inj_onD)

lemma of_value_val [simp]: "enum_of_value members val (val x) = Inr x"
proof -
  have "find (\<lambda>y. val y = val x) members = Some x"
    using tab_get_unique [OF distinct_values complete, of x] by (simp add: tab_get_def)
  then show ?thesis by (simp add: enum_of_value_def)
qed

lemma of_value_Inr_iff: "enum_of_value members val s = Inr x \<longleftrightarrow> s = val x"
proof
  assume "enum_of_value members val s = Inr x"
  then have "find (\<lambda>y. val y = s) members = Some x"
    by (simp add: enum_of_value_def split: option.splits)
  then show "s = val x" by (auto simp: find_Some_iff)
qed simp

lemma of_value_error_iff: "(\<exists>e. enum_of_value members val s = Inl e) \<longleftrightarrow> s \<notin> range val"
proof
  assume "\<exists>e. enum_of_value members val s = Inl e"
  then show "s \<notin> range val" using of_value_val by fastforce
next
  assume "s \<notin> range val"
  then show "\<exists>e. enum_of_value members val s = Inl e"
    using of_value_Inr_iff by (cases "enum_of_value members val s") auto
qed

end

section \<open>The enumerations\<close>

datatype event_status = EV_RECEIVED | EV_QUEUED | EV_PROCESSING | EV_COMPLETED

primrec event_status_value :: "event_status \<Rightarrow> string" where
  "event_status_value EV_RECEIVED = ''received''"
| "event_status_value EV_QUEUED = ''queued''"
| "event_status_value EV_PROCESSING = ''processing''"
| "event_status_value EV_COMPLETED = ''completed''"

datatype delivery_status =
  DL_PENDING | DL_QUEUED | DL_DELIVERING | DL_DELIVERED | DL_RETRYING | DL_FAILED | DL_DLQ

primrec delivery_status_value :: "delivery_status \<Rightarrow> string" where
  "delivery_status_value DL_PENDING = ''pending''"
| "delivery_status_value DL_QUEUED = ''queued''"
| "delivery_status_value DL_DELIVERING = ''delivering''"
| "delivery_status_value DL_DELIVERED = ''delivered''"
| "delivery_status_value DL_RETRYING = ''retrying''"
| "delivery_status_value DL_FAILED = ''failed''"
| "delivery_status_value DL_DLQ = ''dlq''"

datatype endpoint_status = EP_ACTIVE | EP_DISABLED | EP_SUSPENDED

primrec endpoint_status_value :: "endpoint_status \<Rightarrow> string" where
  "endpoint_status_value EP_ACTIVE = ''active''"
| "endpoint_status_value EP_DISABLED = ''disabled''"
| "endpoint_status_value EP_SUSPENDED = ''suspended''"

datatype circuit_state = CLOSED | OPEN | HALF_OPEN

primrec circuit_state_value :: "circuit_state \<Rightarrow> string" where
  "circuit_state_value CLOSED = ''closed''"
| "circuit_state_value OPEN = ''open''"
| "circuit_state_value HALF_OPEN = ''half_open''"

datatype outbox_status = OB_PENDING | OB_PUBLISHED | OB_FAILED

primrec outbox_status_value :: "outbox_status \<Rightarrow> string" where
  "outbox_status_value OB_PENDING = ''pending''"
| "outbox_status_value OB_PUBLISHED = ''published''"
| "outbox_status_value OB_FAILED = ''failed''"

datatype tenant_plan = FREE | PRO | ENTERPRISE

primrec tenant_plan_value :: "tenant_plan \<Rightarrow> string" where
  "tenant_plan_value FREE = ''free''"
| "tenant_plan_value PRO = ''pro''"
| "tenant_plan_value ENTERPRISE = ''enterprise''"

datatype tenant_status = TN_ACTIVE | TN_SUSPENDED

primrec tenant_status_value :: "tenant_status \<Rightarrow> string" where
  "tenant_status_value TN_ACTIVE = ''active''"
| "tenant_status_value TN_SUSPENDED = ''suspended''"

datatype role = OWNER | ADMIN | MEMBER | VIEWER

primrec role_value :: "role \<Rightarrow> string" where
  "role_value OWNER = ''owner''"
| "role_value ADMIN = ''admin''"
| "role_value MEMBER = ''member''"
| "role_value VIEWER = ''viewer''"

interpretation event_enum:
  str_enum "[EV_RECEIVED, EV_QUEUED, EV_PROCESSING, EV_COMPLETED]" event_status_value
  by (unfold_locales, simp, rename_tac x, case_tac x, simp_all)

interpretation delivery_enum:
  str_enum "[DL_PENDING, DL_QUEUED, DL_DELIVERING, DL_DELIVERED, DL_RETRYING, DL_FAILED, DL_DLQ]"
    delivery_status_value
  by (unfold_locales, simp, rename_tac x, case_tac x, simp_all)

interpretation endpoint_enum:
  str_enum "[EP_ACTIVE, EP_DISABLED, EP_SUSPENDED]" endpoint_status_value
  by (unfold_locales, simp, rename_tac x, case_tac x, simp_all)

interpretation circuit_enum: str_enum "[CLOSED, OPEN, HALF_OPEN]" circuit_state_value
  by (unfold_locales, simp, rename_tac x, case_tac x, simp_all)

interpretation outbox_enum: str_enum "[OB_PENDING, OB_PUBLISHED, OB_FAILED]" outbox_status_value
  by (unfold_locales, simp, rename_tac x, case_tac x, simp_all)

interpretation plan_enum: str_enum "[FREE, PRO, ENTERPRISE]" tenant_plan_value
  by (unfold_locales, simp, rename_tac x, case_tac x, simp_all)

interpretation tenant_enum: str_enum "[TN_ACTIVE, TN_SUSPENDED]" tenant_status_value
  by (unfold_locales, simp, rename_tac x, case_tac x, simp_all)

interpretation role_enum: str_enum "[OWNER, ADMIN, MEMBER, VIEWER]" role_value
  by (unfold_locales, simp, rename_tac x, case_tac x, simp_all)

text \<open>\<open>CircuitState(s)\<close>, the one lookup by value the code performs.\<close>

definition circuit_state_of :: "string \<Rightarrow> circuit_state result" where
  "circuit_state_of = enum_of_value [CLOSED, OPEN, HALF_OPEN] circuit_state_value"

lemmas circuit_state_of_value [simp] =
  circuit_enum.of_value_val [folded circuit_state_of_def]

lemmas circuit_state_of_Inr_iff =
  circuit_enum.of_value_Inr_iff [folded circuit_state_of_def]

lemmas circuit_state_of_error_iff =
  circuit_enum.of_value_error_iff [folded circuit_state_of_def]

section \<open>Status-code sets\<close>

definition PERMANENT_4XX :: "int set" where
  "PERMANENT_4XX = {400, 401, 403, 422}"

definition RETRYABLE_4XX :: "int set" where
  "RETRYABLE_4XX = {408, 409, 425, 429}"

lemma permanent_retryable_disjoint: "PERMANENT_4XX \<inter> RETRYABLE_4XX = {}"
  by (simp add: PERMANENT_4XX_def RETRYABLE_4XX_def)

end
