(* ===== verification/Json.thy ===== *)
theory Json
  imports Py_String
begin

text \<open>
  JSON values and the text \<open>json.dumps\<close> prints for them with its default options. A float
  is represented by its \<open>repr\<close>. A Python dict with string keys is an association list in
  insertion order.
\<close>

datatype json =
    JNull
  | JBool bool
  | JInt int
  | JFloat string
  | JStr string
  | JList "json list"
  | JObj "(string \<times> json) list"

text \<open>\<open>d[k]\<close> and \<open>d.get(k)\<close>.\<close>

definition dict_get :: "(string \<times> json) list \<Rightarrow> string \<Rightarrow> json option" where
  "dict_get d k = map_of d k"

definition dict_item :: "(string \<times> json) list \<Rightarrow> string \<Rightarrow> json result" where
  "dict_item d k = (case map_of d k of None \<Rightarrow> Inl (KeyError k) | Some v \<Rightarrow> Inr v)"

definition opt_str :: "string option \<Rightarrow> json" where
  "opt_str x = (case x of None \<Rightarrow> JNull | Some s \<Rightarrow> JStr s)"

definition opt_int :: "int option \<Rightarrow> json" where
  "opt_int x = (case x of None \<Rightarrow> JNull | Some n \<Rightarrow> JInt n)"

definition dquote :: char where
  "dquote = char_of (34::nat)"

definition backslash :: char where
  "backslash = char_of (92::nat)"

definition json_escape :: "char \<Rightarrow> string" where
  "json_escape c =
     (let k = ord c in
      if k = 34 then [backslash, dquote]
      else if k = 92 then [backslash, backslash]
      else if k = 10 then [backslash, CHR ''n'']
      else if k = 13 then [backslash, CHR ''r'']
      else if k = 9 then [backslash, CHR ''t'']
      else if k = 12 then [backslash, CHR ''f'']
      else if k = 8 then [backslash, CHR ''b'']
      else if 32 \<le> k \<and> k \<le> 126 then [c]
      else [backslash, CHR ''u''] @ hex_digits 4 k)"

definition json_string :: "string \<Rightarrow> string" where
  "json_string s = [dquote] @ concat (map json_escape s) @ [dquote]"

fun join :: "string \<Rightarrow> string list \<Rightarrow> string" where
  "join sep [] = []"
| "join sep [x] = x"
| "join sep (x # y # ys) = x @ sep @ join sep (y # ys)"

fun json_dumps :: "json \<Rightarrow> string" where
  "json_dumps JNull = ''null''"
| "json_dumps (JBool b) = (if b then ''true'' else ''false'')"
| "json_dumps (JInt n) = str_int n"
| "json_dumps (JFloat r) = r"
| "json_dumps (JStr s) = json_string s"
| "json_dumps (JList xs) = ''['' @ join '', '' (map json_dumps xs) @ '']''"
| "json_dumps (JObj kvs) =
     ''{'' @ join '', '' (map (\<lambda>(k, v). json_string k @ '': '' @ json_dumps v) kvs) @ ''}''"

end
