(* ===== verification/Database.thy ===== *)
theory Database
  imports Enums Json
begin

text \<open>
  The relational schema of \<open>packages/database/eventmesh_database/models.py\<close>: one record per ORM
  model, the database as the record of its tables, and the row operations the services
  perform with the constraints the schema declares (primary keys, foreign keys without
  ON DELETE action, unique constraints, column widths). A violated constraint is an
  exception and leaves the database unchanged, because the transaction is rolled back.
\<close>

section \<open>Rows\<close>

record tenant =
  tn_id :: uuid
  tn_name :: string
  tn_plan :: string
  tn_status :: string
  tn_created_at :: datetime
  tn_updated_at :: datetime

record api_key =
  ak_id :: uuid
  ak_tenant_id :: uuid
  ak_key_prefix :: string
  ak_key_hash :: string
  ak_name :: string
  ak_role :: string
  ak_last_used_at :: "datetime option"
  ak_created_at :: datetime
  ak_revoked_at :: "datetime option"

record endpoint =
  ep_id :: uuid
  ep_tenant_id :: uuid
  ep_url :: string
  ep_description :: "string option"
  ep_secret_encrypted :: string
  ep_status :: string
  ep_timeout_ms :: int
  ep_max_retries :: int
  ep_circuit_state :: string
  ep_created_at :: datetime
  ep_updated_at :: datetime

record endpoint_subscription =
  sub_endpoint_id :: uuid
  sub_event_type :: string

record event =
  ev_id :: uuid
  ev_tenant_id :: uuid
  ev_event_type :: string
  ev_source :: "string option"
  ev_entity_id :: "string option"
  ev_sequence_number :: "int option"
  ev_payload :: json
  ev_status :: string
  ev_created_at :: datetime
  ev_updated_at :: datetime

record delivery =
  dl_id :: uuid
  dl_event_id :: uuid
  dl_endpoint_id :: uuid
  dl_attempt_number :: int
  dl_status :: string
  dl_http_status :: "int option"
  dl_latency_ms :: "int option"
  dl_error_code :: "string option"
  dl_error_message :: "string option"
  dl_started_at :: "datetime option"
  dl_completed_at :: "datetime option"
  dl_next_retry_at :: "datetime option"
  dl_is_replay :: bool
  dl_created_at :: datetime

record idempotency_key =
  ik_id :: uuid
  ik_tenant_id :: uuid
  ik_key :: string
  ik_event_id :: uuid
  ik_created_at :: datetime
  ik_expires_at :: datetime

record outbox_event =
  ob_id :: uuid
  ob_aggregate_type :: string
  ob_aggregate_id :: uuid
  ob_event_id :: uuid
  ob_payload :: "(string \<times> json) list"
  ob_status :: string
  ob_attempts :: int
  ob_created_at :: datetime
  ob_published_at :: "datetime option"

record db =
  tenants :: "tenant list"
  api_keys :: "api_key list"
  endpoints :: "endpoint list"
  subscriptions :: "endpoint_subscription list"
  events :: "event list"
  deliveries :: "delivery list"
  idempotency_keys :: "idempotency_key list"
  outbox_events :: "outbox_event list"

section \<open>Lookups by primary key\<close>

definition get_tenant :: "uuid \<Rightarrow> db \<Rightarrow> tenant option" where
  "get_tenant i d = tab_get tn_id i (tenants d)"

definition get_endpoint :: "uuid \<Rightarrow> db \<Rightarrow> endpoint option" where
  "get_endpoint i d = tab_get ep_id i (endpoints d)"

definition get_event_row :: "uuid \<Rightarrow> db \<Rightarrow> event option" where
  "get_event_row i d = tab_get ev_id i (events d)"

definition get_delivery_row :: "uuid \<Rightarrow> db \<Rightarrow> delivery option" where
  "get_delivery_row i d = tab_get dl_id i (deliveries d)"

definition get_outbox :: "uuid \<Rightarrow> db \<Rightarrow> outbox_event option" where
  "get_outbox i d = tab_get ob_id i (outbox_events d)"

section \<open>Inserts\<close>

text \<open>
  Values that fit their column: \<open>String(n)\<close>, and the 32 and 64 bit integers of \<open>Integer\<close> and \<open>BigInteger\<close>;
  NULL fits every nullable column.
\<close>

definition fits :: "nat \<Rightarrow> string \<Rightarrow> bool" where
  "fits n s \<longleftrightarrow> length s \<le> n"

definition fits_opt :: "nat \<Rightarrow> string option \<Rightarrow> bool" where
  "fits_opt n x = (case x of None \<Rightarrow> True | Some s \<Rightarrow> fits n s)"

definition fits_int :: "nat \<Rightarrow> int \<Rightarrow> bool" where
  "fits_int w n \<longleftrightarrow> - (2 ^ (w - 1)) \<le> n \<and> n < 2 ^ (w - 1)"

definition fits_int_opt :: "nat \<Rightarrow> int option \<Rightarrow> bool" where
  "fits_int_opt w x = (case x of None \<Rightarrow> True | Some n \<Rightarrow> fits_int w n)"

definition guard :: "bool \<Rightarrow> 'e \<Rightarrow> 'e + 'a \<Rightarrow> 'e + 'a" where
  "guard ok e r = (if ok then r else Inl e)"

lemma guard_Inr_iff [simp]: "guard ok e r = Inr x \<longleftrightarrow> ok \<and> r = Inr x"
  by (simp add: guard_def)

lemma guard_True [simp]: "guard True e r = r"
  by (simp add: guard_def)

lemma guard_False [simp]: "guard False e r = Inl e"
  by (simp add: guard_def)

definition insert_event :: "event \<Rightarrow> db \<Rightarrow> db result" where
  "insert_event r d =
     guard (fits 255 (ev_event_type r) \<and> fits_opt 255 (ev_source r) \<and> fits_opt 255 (ev_entity_id r) \<and>
            fits_int_opt 64 (ev_sequence_number r) \<and> fits 50 (ev_status r))
       (DataError ''events'')
     (guard (ev_id r \<notin> tab_keys ev_id (events d)) (IntegrityError ''events_pkey'')
     (guard (ev_tenant_id r \<in> tab_keys tn_id (tenants d)) (IntegrityError ''events_tenant_id_fkey'')
       (Inr (d\<lparr>events := events d @ [r]\<rparr>))))"

definition insert_endpoint :: "endpoint \<Rightarrow> db \<Rightarrow> db result" where
  "insert_endpoint r d =
     guard (fits 30 (ep_status r) \<and> fits_int 32 (ep_timeout_ms r) \<and> fits_int 32 (ep_max_retries r) \<and>
            fits 20 (ep_circuit_state r))
       (DataError ''endpoints'')
     (guard (ep_id r \<notin> tab_keys ep_id (endpoints d)) (IntegrityError ''endpoints_pkey'')
     (guard (ep_tenant_id r \<in> tab_keys tn_id (tenants d)) (IntegrityError ''endpoints_tenant_id_fkey'')
       (Inr (d\<lparr>endpoints := endpoints d @ [r]\<rparr>))))"

definition insert_subscription :: "endpoint_subscription \<Rightarrow> db \<Rightarrow> db result" where
  "insert_subscription r d =
     guard (fits 255 (sub_event_type r)) (DataError ''endpoint_subscriptions'')
     (guard (r \<notin> set (subscriptions d)) (IntegrityError ''endpoint_subscriptions_pkey'')
     (guard (sub_endpoint_id r \<in> tab_keys ep_id (endpoints d))
        (IntegrityError ''endpoint_subscriptions_endpoint_id_fkey'')
       (Inr (d\<lparr>subscriptions := subscriptions d @ [r]\<rparr>))))"

definition insert_delivery :: "delivery \<Rightarrow> db \<Rightarrow> db result" where
  "insert_delivery r d =
     guard (fits_int 32 (dl_attempt_number r) \<and> fits 50 (dl_status r) \<and> fits_int_opt 32 (dl_http_status r) \<and>
            fits_int_opt 32 (dl_latency_ms r) \<and> fits_opt 100 (dl_error_code r))
       (DataError ''deliveries'')
     (guard (dl_id r \<notin> tab_keys dl_id (deliveries d)) (IntegrityError ''deliveries_pkey'')
     (guard (dl_event_id r \<in> tab_keys ev_id (events d)) (IntegrityError ''deliveries_event_id_fkey'')
     (guard (dl_endpoint_id r \<in> tab_keys ep_id (endpoints d))
        (IntegrityError ''deliveries_endpoint_id_fkey'')
       (Inr (d\<lparr>deliveries := deliveries d @ [r]\<rparr>)))))"

definition insert_idempotency_key :: "idempotency_key \<Rightarrow> db \<Rightarrow> db result" where
  "insert_idempotency_key r d =
     guard (fits 255 (ik_key r)) (DataError ''idempotency_keys'')
     (guard (ik_id r \<notin> tab_keys ik_id (idempotency_keys d)) (IntegrityError ''idempotency_keys_pkey'')
     (guard ((ik_tenant_id r, ik_key r) \<notin>
               (\<lambda>k. (ik_tenant_id k, ik_key k)) ` set (idempotency_keys d))
        (IntegrityError ''uq_idempotency_tenant_key'')
     (guard (ik_tenant_id r \<in> tab_keys tn_id (tenants d))
        (IntegrityError ''idempotency_keys_tenant_id_fkey'')
     (guard (ik_event_id r \<in> tab_keys ev_id (events d))
        (IntegrityError ''idempotency_keys_event_id_fkey'')
       (Inr (d\<lparr>idempotency_keys := idempotency_keys d @ [r]\<rparr>))))))"

definition insert_outbox :: "outbox_event \<Rightarrow> db \<Rightarrow> db result" where
  "insert_outbox r d =
     guard (fits 100 (ob_aggregate_type r) \<and> fits 30 (ob_status r) \<and> fits_int 32 (ob_attempts r))
       (DataError ''outbox_events'')
     (guard (ob_id r \<notin> tab_keys ob_id (outbox_events d)) (IntegrityError ''outbox_events_pkey'')
     (guard (ob_event_id r \<in> tab_keys ev_id (events d)) (IntegrityError ''outbox_events_event_id_fkey'')
       (Inr (d\<lparr>outbox_events := outbox_events d @ [r]\<rparr>))))"

section \<open>Updates of one row\<close>

definition modify_event :: "uuid \<Rightarrow> (event \<Rightarrow> event) \<Rightarrow> db \<Rightarrow> db" where
  "modify_event i f d = d\<lparr>events := tab_upd ev_id i f (events d)\<rparr>"

definition modify_endpoint :: "uuid \<Rightarrow> (endpoint \<Rightarrow> endpoint) \<Rightarrow> db \<Rightarrow> db" where
  "modify_endpoint i f d = d\<lparr>endpoints := tab_upd ep_id i f (endpoints d)\<rparr>"

definition modify_delivery :: "uuid \<Rightarrow> (delivery \<Rightarrow> delivery) \<Rightarrow> db \<Rightarrow> db" where
  "modify_delivery i f d = d\<lparr>deliveries := tab_upd dl_id i f (deliveries d)\<rparr>"

definition modify_outbox :: "uuid \<Rightarrow> (outbox_event \<Rightarrow> outbox_event) \<Rightarrow> db \<Rightarrow> db" where
  "modify_outbox i f d = d\<lparr>outbox_events := tab_upd ob_id i f (outbox_events d)\<rparr>"

definition modify_api_key :: "uuid \<Rightarrow> (api_key \<Rightarrow> api_key) \<Rightarrow> db \<Rightarrow> db" where
  "modify_api_key i f d = d\<lparr>api_keys := tab_upd ak_id i f (api_keys d)\<rparr>"

section \<open>Deletes\<close>

text \<open>
  Deleting the events that satisfy \<open>P\<close>; refused while another table still refers to one
  of them.
\<close>

definition event_referenced :: "uuid \<Rightarrow> db \<Rightarrow> bool" where
  "event_referenced i d \<longleftrightarrow>
     i \<in> dl_event_id ` set (deliveries d) \<or>
     i \<in> ik_event_id ` set (idempotency_keys d) \<or>
     i \<in> ob_event_id ` set (outbox_events d)"

definition delete_events :: "(event \<Rightarrow> bool) \<Rightarrow> db \<Rightarrow> db result" where
  "delete_events P d =
     guard (list_all (\<lambda>e. P e \<longrightarrow> \<not> event_referenced (ev_id e) d) (events d))
       (IntegrityError ''events_referenced'')
       (Inr (d\<lparr>events := filter (\<lambda>e. \<not> P e) (events d)\<rparr>))"

definition delete_endpoint_row :: "uuid \<Rightarrow> db \<Rightarrow> db result" where
  "delete_endpoint_row i d =
     guard (i \<notin> dl_endpoint_id ` set (deliveries d) \<and> i \<notin> sub_endpoint_id ` set (subscriptions d))
       (IntegrityError ''endpoints_referenced'')
       (Inr (d\<lparr>endpoints := filter (\<lambda>e. ep_id e \<noteq> i) (endpoints d)\<rparr>))"

definition delete_subscriptions_of :: "uuid \<Rightarrow> db \<Rightarrow> db" where
  "delete_subscriptions_of i d =
     d\<lparr>subscriptions := filter (\<lambda>s. sub_endpoint_id s \<noteq> i) (subscriptions d)\<rparr>"

definition delete_deliveries :: "(delivery \<Rightarrow> bool) \<Rightarrow> db \<Rightarrow> db" where
  "delete_deliveries P d = d\<lparr>deliveries := filter (\<lambda>r. \<not> P r) (deliveries d)\<rparr>"

definition delete_idempotency_keys :: "(idempotency_key \<Rightarrow> bool) \<Rightarrow> db \<Rightarrow> db" where
  "delete_idempotency_keys P d = d\<lparr>idempotency_keys := filter (\<lambda>r. \<not> P r) (idempotency_keys d)\<rparr>"

definition delete_outbox :: "(outbox_event \<Rightarrow> bool) \<Rightarrow> db \<Rightarrow> db" where
  "delete_outbox P d = d\<lparr>outbox_events := filter (\<lambda>r. \<not> P r) (outbox_events d)\<rparr>"

section \<open>Tables as an interface\<close>

text \<open>
  What the services rely on when they read a table back after writing it: an insert adds
  one row under a fresh key, an update touches only the row with the given key.
\<close>

locale table =
  fixes rows :: "db \<Rightarrow> 'r list"
    and key :: "'r \<Rightarrow> uuid"
    and ins :: "'r \<Rightarrow> db \<Rightarrow> db result"
    and modify :: "uuid \<Rightarrow> ('r \<Rightarrow> 'r) \<Rightarrow> db \<Rightarrow> db"
  assumes ins_rows: "ins r d = Inr d' \<Longrightarrow> rows d' = rows d @ [r]"
    and ins_fresh: "ins r d = Inr d' \<Longrightarrow> key r \<notin> tab_keys key (rows d)"
    and modify_rows: "rows (modify i f d) = tab_upd key i f (rows d)"
begin

lemma get_inserted: "ins r d = Inr d' \<Longrightarrow> tab_get key (key r) (rows d') = Some r"
  by (simp add: ins_rows tab_get_append tab_get_Cons tab_get_None_iff [THEN iffD2] ins_fresh)

lemma get_kept: "ins r d = Inr d' \<Longrightarrow> tab_get key i (rows d) = Some x \<Longrightarrow>
    tab_get key i (rows d') = Some x"
  by (simp add: ins_rows tab_get_append)

lemma get_other: "ins r d = Inr d' \<Longrightarrow> i \<noteq> key r \<Longrightarrow>
    tab_get key i (rows d') = tab_get key i (rows d)"
  by (simp add: ins_rows tab_get_append tab_get_Cons split: option.split)

lemma keys_inserted: "ins r d = Inr d' \<Longrightarrow>
    tab_keys key (rows d') = insert (key r) (tab_keys key (rows d))"
  by (simp add: ins_rows)

lemma distinct_inserted: "ins r d = Inr d' \<Longrightarrow> distinct (map key (rows d)) \<Longrightarrow>
    distinct (map key (rows d'))"
  using ins_fresh by (auto simp: ins_rows tab_keys_def)

lemma get_modified: "(\<And>r. key (f r) = key r) \<Longrightarrow>
    tab_get key j (rows (modify i f d)) =
      (if j = i then map_option f (tab_get key i (rows d)) else tab_get key j (rows d))"
  by (simp add: modify_rows tab_get_upd)

lemma keys_modified: "(\<And>r. key (f r) = key r) \<Longrightarrow>
    tab_keys key (rows (modify i f d)) = tab_keys key (rows d)"
  by (simp add: modify_rows)

end

interpretation event_table: table events ev_id insert_event modify_event
  by unfold_locales (auto simp: insert_event_def modify_event_def)

interpretation endpoint_table: table endpoints ep_id insert_endpoint modify_endpoint
  by unfold_locales (auto simp: insert_endpoint_def modify_endpoint_def)

interpretation delivery_table: table deliveries dl_id insert_delivery modify_delivery
  by unfold_locales (auto simp: insert_delivery_def modify_delivery_def)

interpretation outbox_table: table outbox_events ob_id insert_outbox modify_outbox
  by unfold_locales (auto simp: insert_outbox_def modify_outbox_def)

lemma insert_frame:
  "insert_event ev d = Inr d' \<Longrightarrow> d' = d\<lparr>events := events d @ [ev]\<rparr>"
  "insert_endpoint ep d = Inr d' \<Longrightarrow> d' = d\<lparr>endpoints := endpoints d @ [ep]\<rparr>"
  "insert_subscription sb d = Inr d' \<Longrightarrow> d' = d\<lparr>subscriptions := subscriptions d @ [sb]\<rparr>"
  "insert_delivery dl d = Inr d' \<Longrightarrow> d' = d\<lparr>deliveries := deliveries d @ [dl]\<rparr>"
  "insert_idempotency_key ik d = Inr d' \<Longrightarrow> d' = d\<lparr>idempotency_keys := idempotency_keys d @ [ik]\<rparr>"
  "insert_outbox ob d = Inr d' \<Longrightarrow> d' = d\<lparr>outbox_events := outbox_events d @ [ob]\<rparr>"
  by (auto simp: insert_event_def insert_endpoint_def insert_subscription_def insert_delivery_def
      insert_idempotency_key_def insert_outbox_def)

lemmas modify_defs =
  modify_event_def modify_endpoint_def modify_delivery_def modify_outbox_def modify_api_key_def

lemmas insert_defs =
  insert_event_def insert_endpoint_def insert_subscription_def insert_delivery_def
  insert_idempotency_key_def insert_outbox_def

lemmas fits_defs = fits_def fits_opt_def fits_int_def fits_int_opt_def

lemmas delete_defs =
  delete_events_def delete_endpoint_row_def delete_subscriptions_of_def delete_deliveries_def
  delete_idempotency_keys_def delete_outbox_def

lemmas get_defs =
  get_tenant_def get_endpoint_def get_event_row_def get_delivery_row_def get_outbox_def

section \<open>Integrity\<close>

text \<open>The constraints the schema declares, as an invariant of the database.\<close>

definition keys_ok :: "db \<Rightarrow> bool" where
  "keys_ok d \<longleftrightarrow>
     distinct (map tn_id (tenants d)) \<and> distinct (map ak_id (api_keys d)) \<and>
     distinct (map ak_key_hash (api_keys d)) \<and> distinct (map ep_id (endpoints d)) \<and>
     distinct (subscriptions d) \<and> distinct (map ev_id (events d)) \<and>
     distinct (map dl_id (deliveries d)) \<and> distinct (map ik_id (idempotency_keys d)) \<and>
     distinct (map (\<lambda>k. (ik_tenant_id k, ik_key k)) (idempotency_keys d)) \<and>
     distinct (map ob_id (outbox_events d))"

definition refs_ok :: "db \<Rightarrow> bool" where
  "refs_ok d \<longleftrightarrow>
     ak_tenant_id ` set (api_keys d) \<subseteq> tab_keys tn_id (tenants d) \<and>
     ep_tenant_id ` set (endpoints d) \<subseteq> tab_keys tn_id (tenants d) \<and>
     sub_endpoint_id ` set (subscriptions d) \<subseteq> tab_keys ep_id (endpoints d) \<and>
     ev_tenant_id ` set (events d) \<subseteq> tab_keys tn_id (tenants d) \<and>
     dl_event_id ` set (deliveries d) \<subseteq> tab_keys ev_id (events d) \<and>
     dl_endpoint_id ` set (deliveries d) \<subseteq> tab_keys ep_id (endpoints d) \<and>
     ik_tenant_id ` set (idempotency_keys d) \<subseteq> tab_keys tn_id (tenants d) \<and>
     ik_event_id ` set (idempotency_keys d) \<subseteq> tab_keys ev_id (events d) \<and>
     ob_event_id ` set (outbox_events d) \<subseteq> tab_keys ev_id (events d)"

definition db_ok :: "db \<Rightarrow> bool" where
  "db_ok d \<longleftrightarrow> keys_ok d \<and> refs_ok d"

named_theorems db_ok_intros

lemma db_ok_insert_event [db_ok_intros]:
  "insert_event r d = Inr d' \<Longrightarrow> db_ok d \<Longrightarrow> db_ok d'"
  by (clarsimp simp: insert_event_def db_ok_def keys_ok_def refs_ok_def subset_insertI2
      distinct_map_snoc simp del: map_append)

lemma db_ok_insert_endpoint [db_ok_intros]:
  "insert_endpoint r d = Inr d' \<Longrightarrow> db_ok d \<Longrightarrow> db_ok d'"
  by (clarsimp simp: insert_endpoint_def db_ok_def keys_ok_def refs_ok_def subset_insertI2
      distinct_map_snoc simp del: map_append)

lemma db_ok_insert_subscription [db_ok_intros]:
  "insert_subscription r d = Inr d' \<Longrightarrow> db_ok d \<Longrightarrow> db_ok d'"
  by (clarsimp simp: insert_subscription_def db_ok_def keys_ok_def refs_ok_def subset_insertI2
      distinct_map_snoc simp del: map_append)

lemma db_ok_insert_delivery [db_ok_intros]:
  "insert_delivery r d = Inr d' \<Longrightarrow> db_ok d \<Longrightarrow> db_ok d'"
  by (clarsimp simp: insert_delivery_def db_ok_def keys_ok_def refs_ok_def subset_insertI2
      distinct_map_snoc simp del: map_append)

lemma db_ok_insert_idempotency_key [db_ok_intros]:
  "insert_idempotency_key r d = Inr d' \<Longrightarrow> db_ok d \<Longrightarrow> db_ok d'"
  by (clarsimp simp: insert_idempotency_key_def tab_keys_def [of "\<lambda>k. (ik_tenant_id k, ik_key k)"] db_ok_def keys_ok_def refs_ok_def subset_insertI2
      distinct_map_snoc simp del: map_append)

lemma db_ok_insert_outbox [db_ok_intros]:
  "insert_outbox r d = Inr d' \<Longrightarrow> db_ok d \<Longrightarrow> db_ok d'"
  by (clarsimp simp: insert_outbox_def db_ok_def keys_ok_def refs_ok_def subset_insertI2
      distinct_map_snoc simp del: map_append)

lemma db_ok_modify_event [db_ok_intros]:
  assumes "db_ok d" "\<And>r. ev_id (f r) = ev_id r" "\<And>r. ev_tenant_id (f r) = ev_tenant_id r"
  shows "db_ok (modify_event i f d)"
  using assms set_proj_upd [of ev_tenant_id f ev_id i "events d"]
  by (simp add: modify_event_def db_ok_def keys_ok_def refs_ok_def)

lemma db_ok_modify_endpoint [db_ok_intros]:
  assumes "db_ok d" "\<And>r. ep_id (f r) = ep_id r" "\<And>r. ep_tenant_id (f r) = ep_tenant_id r"
  shows "db_ok (modify_endpoint i f d)"
  using assms set_proj_upd [of ep_tenant_id f ep_id i "endpoints d"]
  by (simp add: modify_endpoint_def db_ok_def keys_ok_def refs_ok_def)

lemma db_ok_modify_delivery [db_ok_intros]:
  assumes "db_ok d" "\<And>r. dl_id (f r) = dl_id r" "\<And>r. dl_event_id (f r) = dl_event_id r"
    "\<And>r. dl_endpoint_id (f r) = dl_endpoint_id r"
  shows "db_ok (modify_delivery i f d)"
  using assms set_proj_upd [of dl_event_id f dl_id i "deliveries d"]
    set_proj_upd [of dl_endpoint_id f dl_id i "deliveries d"]
  by (simp add: modify_delivery_def db_ok_def keys_ok_def refs_ok_def)

lemma db_ok_modify_outbox [db_ok_intros]:
  assumes "db_ok d" "\<And>r. ob_id (f r) = ob_id r" "\<And>r. ob_event_id (f r) = ob_event_id r"
  shows "db_ok (modify_outbox i f d)"
  using assms set_proj_upd [of ob_event_id f ob_id i "outbox_events d"]
  by (simp add: modify_outbox_def db_ok_def keys_ok_def refs_ok_def)

lemma db_ok_modify_api_key [db_ok_intros]:
  assumes "db_ok d" "\<And>r. ak_id (f r) = ak_id r" "\<And>r. ak_tenant_id (f r) = ak_tenant_id r"
    "\<And>r. ak_key_hash (f r) = ak_key_hash r"
  shows "db_ok (modify_api_key i f d)"
  using assms set_proj_upd [of ak_tenant_id f ak_id i "api_keys d"]
    map_proj_upd [of ak_key_hash f ak_id i "api_keys d"]
  by (simp add: modify_api_key_def db_ok_def keys_ok_def refs_ok_def)

lemma db_ok_delete_deliveries [db_ok_intros]: "db_ok d \<Longrightarrow> db_ok (delete_deliveries P d)"
  by (simp add: delete_deliveries_def db_ok_def keys_ok_def refs_ok_def distinct_map_filter
      image_filter_subset)

lemma db_ok_delete_idempotency_keys [db_ok_intros]:
  "db_ok d \<Longrightarrow> db_ok (delete_idempotency_keys P d)"
  by (simp add: delete_idempotency_keys_def db_ok_def keys_ok_def refs_ok_def distinct_map_filter
      image_filter_subset)

lemma db_ok_delete_outbox [db_ok_intros]: "db_ok d \<Longrightarrow> db_ok (delete_outbox P d)"
  by (simp add: delete_outbox_def db_ok_def keys_ok_def refs_ok_def distinct_map_filter
      image_filter_subset)

lemma db_ok_delete_subscriptions_of [db_ok_intros]: "db_ok d \<Longrightarrow> db_ok (delete_subscriptions_of i d)"
  by (simp add: delete_subscriptions_of_def db_ok_def keys_ok_def refs_ok_def distinct_map_filter
      image_filter_subset)

lemma db_ok_delete_events [db_ok_intros]:
  assumes "delete_events P d = Inr d'" "db_ok d"
  shows "db_ok d'"
proof -
  from assms(1) have d': "d' = d\<lparr>events := filter (\<lambda>e. \<not> P e) (events d)\<rparr>"
    and unref: "\<And>e. e \<in> set (events d) \<Longrightarrow> P e \<Longrightarrow> \<not> event_referenced (ev_id e) d"
    by (auto simp: delete_events_def list_all_iff)
  have kept: "X \<subseteq> tab_keys ev_id (filter (\<lambda>e. \<not> P e) (events d))"
    if "X \<subseteq> tab_keys ev_id (events d)" "\<And>i. i \<in> X \<Longrightarrow> event_referenced i d" for X
    using that unref by (fastforce simp: tab_keys_def)
  have "dl_event_id ` set (deliveries d) \<subseteq> tab_keys ev_id (filter (\<lambda>e. \<not> P e) (events d))"
    "ik_event_id ` set (idempotency_keys d) \<subseteq> tab_keys ev_id (filter (\<lambda>e. \<not> P e) (events d))"
    "ob_event_id ` set (outbox_events d) \<subseteq> tab_keys ev_id (filter (\<lambda>e. \<not> P e) (events d))"
    using assms(2) by (intro kept; simp add: db_ok_def refs_ok_def event_referenced_def)+
  with assms(2) show ?thesis
    by (simp add: d' db_ok_def keys_ok_def refs_ok_def distinct_map_filter image_filter_subset)
qed

lemma db_ok_delete_endpoint_row [db_ok_intros]:
  assumes "delete_endpoint_row i d = Inr d'" "db_ok d"
  shows "db_ok d'"
proof -
  from assms(1) have d': "d' = d\<lparr>endpoints := filter (\<lambda>e. ep_id e \<noteq> i) (endpoints d)\<rparr>"
    and unref: "i \<notin> dl_endpoint_id ` set (deliveries d)" "i \<notin> sub_endpoint_id ` set (subscriptions d)"
    by (simp_all add: delete_endpoint_row_def)
  have kept: "X \<subseteq> tab_keys ep_id (filter (\<lambda>e. ep_id e \<noteq> i) (endpoints d))"
    if "X \<subseteq> tab_keys ep_id (endpoints d)" "i \<notin> X" for X
    using that by (fastforce simp: tab_keys_def)
  from assms(2) kept unref show ?thesis
    by (simp add: d' db_ok_def keys_ok_def refs_ok_def distinct_map_filter image_filter_subset)
qed

lemma db_ok_get:
  assumes "db_ok d"
  shows "ev \<in> set (events d) \<Longrightarrow> get_event_row (ev_id ev) d = Some ev"
    and "ep \<in> set (endpoints d) \<Longrightarrow> get_endpoint (ep_id ep) d = Some ep"
    and "dl \<in> set (deliveries d) \<Longrightarrow> get_delivery_row (dl_id dl) d = Some dl"
    and "ob \<in> set (outbox_events d) \<Longrightarrow> get_outbox (ob_id ob) d = Some ob"
    and "tn \<in> set (tenants d) \<Longrightarrow> get_tenant (tn_id tn) d = Some tn"
  using assms by (simp_all add: get_defs db_ok_def keys_ok_def tab_get_unique)

lemma get_row_id:
  "get_event_row i d = Some ev \<Longrightarrow> ev_id ev = i"
  "get_endpoint i d = Some ep \<Longrightarrow> ep_id ep = i"
  "get_delivery_row i d = Some dl \<Longrightarrow> dl_id dl = i"
  "get_outbox i d = Some ob \<Longrightarrow> ob_id ob = i"
  by (auto simp: get_defs dest: tab_get_SomeD)

lemma get_row_mem:
  "get_event_row i d = Some ev \<Longrightarrow> ev \<in> set (events d)"
  "get_endpoint i d = Some ep \<Longrightarrow> ep \<in> set (endpoints d)"
  "get_delivery_row i d = Some dl \<Longrightarrow> dl \<in> set (deliveries d)"
  "get_outbox i d = Some ob \<Longrightarrow> ob \<in> set (outbox_events d)"
  by (auto simp: get_defs dest: tab_get_SomeD)

lemma db_ok_event_of_delivery:
  assumes "db_ok d" "dl \<in> set (deliveries d)"
  shows "\<exists>ev. get_event_row (dl_event_id dl) d = Some ev"
  using assms by (auto simp: db_ok_def refs_ok_def get_event_row_def intro!: tab_get_Some_key)

lemma db_ok_event_of_outbox:
  assumes "db_ok d" "ob \<in> set (outbox_events d)"
  shows "\<exists>ev. get_event_row (ob_event_id ob) d = Some ev"
  using assms by (auto simp: db_ok_def refs_ok_def get_event_row_def intro!: tab_get_Some_key)

section \<open>A small database\<close>

text \<open>One row per table but deliveries and idempotency keys; the instances of the properties use it.\<close>

definition sample_tenant :: tenant where
  "sample_tenant = \<lparr>tn_id = 1, tn_name = ''acme'', tn_plan = ''free'', tn_status = ''active'',
     tn_created_at = 0, tn_updated_at = 0\<rparr>"

definition sample_api_key :: api_key where
  "sample_api_key = \<lparr>ak_id = 2, ak_tenant_id = 1, ak_key_prefix = ''em_live_abcd'', ak_key_hash = ''h'',
     ak_name = ''k'', ak_role = ''member'', ak_last_used_at = None, ak_created_at = 0,
     ak_revoked_at = None\<rparr>"

definition sample_endpoint :: endpoint where
  "sample_endpoint = \<lparr>ep_id = 20, ep_tenant_id = 1, ep_url = ''https://example.com/hook'',
     ep_description = None, ep_secret_encrypted = ''enc'', ep_status = ''active'', ep_timeout_ms = 10000,
     ep_max_retries = 6, ep_circuit_state = ''closed'', ep_created_at = 0, ep_updated_at = 0\<rparr>"

definition sample_event :: event where
  "sample_event = \<lparr>ev_id = 10, ev_tenant_id = 1, ev_event_type = ''order'', ev_source = None,
     ev_entity_id = None, ev_sequence_number = None, ev_payload = JObj [(''n'', JInt 1)],
     ev_status = ''received'', ev_created_at = 5, ev_updated_at = 5\<rparr>"

definition sample_outbox :: outbox_event where
  "sample_outbox = \<lparr>ob_id = 30, ob_aggregate_type = ''event'', ob_aggregate_id = 10, ob_event_id = 10,
     ob_payload = [(''event_id'', JStr (str_uuid 10)), (''tenant_id'', JStr (str_uuid 1)),
       (''type'', JStr ''order'')],
     ob_status = ''pending'', ob_attempts = 0, ob_created_at = 5, ob_published_at = None\<rparr>"

definition sample_db :: db where
  "sample_db = \<lparr>tenants = [sample_tenant], api_keys = [sample_api_key], endpoints = [sample_endpoint],
     subscriptions = [\<lparr>sub_endpoint_id = 20, sub_event_type = ''order''\<rparr>], events = [sample_event],
     deliveries = [], idempotency_keys = [], outbox_events = [sample_outbox]\<rparr>"

lemmas sample_defs = sample_tenant_def sample_api_key_def sample_endpoint_def sample_event_def
  sample_outbox_def sample_db_def

lemma sample_db_ok: "db_ok sample_db"
  by (simp add: db_ok_def keys_ok_def refs_ok_def sample_defs)

end
