(* ===== verification/Json_Text.thy ===== *)
theory Json_Text
  imports Json
begin

text \<open>
  Reading JSON text back: \<open>json.loads\<close> as the worker uses it on the payload field of a stream
  message, and the proof that it inverts \<open>json.dumps\<close>. A float is kept as the text of its
  literal. Text is a list of 8-bit characters, so an escape above U+00FF has no value here;
  the literals \<open>NaN\<close> and \<open>Infinity\<close> are left out.
\<close>

section \<open>Parser\<close>

definition is_ws :: "char \<Rightarrow> bool" where
  "is_ws c \<longleftrightarrow> ord c \<in> {9, 10, 13, 32}"

definition skip_ws :: "string \<Rightarrow> string" where
  "skip_ws = dropWhile is_ws"

definition unescape :: "char \<Rightarrow> char option" where
  "unescape e =
     (if ord e \<in> {34, 92, 47} then Some e
      else if e = CHR ''n'' then Some (char_of (10::nat))
      else if e = CHR ''r'' then Some (char_of (13::nat))
      else if e = CHR ''t'' then Some (char_of (9::nat))
      else if e = CHR ''f'' then Some (char_of (12::nat))
      else if e = CHR ''b'' then Some (char_of (8::nat))
      else None)"

definition hex4 :: "string \<Rightarrow> char option" where
  "hex4 ds =
     (case int_digits 16 False 0 ds of
        Some n \<Rightarrow> if n < 256 \<and> CHR ''_'' \<notin> set ds then Some (char_of n) else None
      | None \<Rightarrow> None)"

text \<open>The characters of a string literal up to its closing quote.\<close>

fun parse_chars :: "string \<Rightarrow> (string \<times> string) option" where
  "parse_chars [] = None"
| "parse_chars (c # cs) =
     (if ord c = 34 then Some ([], cs)
      else if ord c = 92 then
        (case cs of
           [] \<Rightarrow> None
         | e # rest \<Rightarrow>
             if e = CHR ''u'' then
               (case rest of
                  h1 # h2 # h3 # h4 # rest' \<Rightarrow>
                    (case (hex4 [h1, h2, h3, h4], parse_chars rest') of
                       (Some ch, Some (s, r)) \<Rightarrow> Some (ch # s, r)
                     | _ \<Rightarrow> None)
                | _ \<Rightarrow> None)
             else
               (case (unescape e, parse_chars rest) of
                  (Some ch, Some (s, r)) \<Rightarrow> Some (ch # s, r)
                | _ \<Rightarrow> None))
      else if ord c < 32 then None
      else (case parse_chars cs of Some (s, r) \<Rightarrow> Some (c # s, r) | None \<Rightarrow> None))"

definition is_digit :: "char \<Rightarrow> bool" where
  "is_digit c \<longleftrightarrow> 48 \<le> ord c \<and> ord c \<le> 57"

definition drop_minus :: "string \<Rightarrow> string" where
  "drop_minus t = (case t of c # cs \<Rightarrow> if c = CHR ''-'' then cs else t | [] \<Rightarrow> [])"

definition is_int_part :: "string \<Rightarrow> bool" where
  "is_int_part d \<longleftrightarrow> d \<noteq> [] \<and> list_all is_digit d \<and> (hd d = CHR ''0'' \<longrightarrow> length d = 1)"

definition is_int_lit :: "string \<Rightarrow> bool" where
  "is_int_lit t \<longleftrightarrow> is_int_part (drop_minus t)"

text \<open>An optional exponent to the end of the text.\<close>

definition is_exp :: "string \<Rightarrow> bool" where
  "is_exp t =
     (case t of
        c # cs \<Rightarrow> c \<in> {CHR ''e'', CHR ''E''} \<and>
          (let ds = (case cs of s # ds \<Rightarrow> if s \<in> {CHR ''+'', CHR ''-''} then ds else cs | [] \<Rightarrow> [])
           in ds \<noteq> [] \<and> list_all is_digit ds)
      | [] \<Rightarrow> False)"

definition is_float_lit :: "string \<Rightarrow> bool" where
  "is_float_lit t =
     (let t1 = drop_minus t; i = takeWhile is_digit t1; r = dropWhile is_digit t1 in
      is_int_part i \<and>
      (case r of
         c # cs \<Rightarrow>
           if c = CHR ''.'' then
             takeWhile is_digit cs \<noteq> [] \<and>
             (dropWhile is_digit cs = [] \<or> is_exp (dropWhile is_digit cs))
           else is_exp r
       | [] \<Rightarrow> False))"

definition is_num_char :: "char \<Rightarrow> bool" where
  "is_num_char c \<longleftrightarrow> is_digit c \<or> c \<in> set ''+-.eE''"

definition parse_number :: "string \<Rightarrow> (json \<times> string) option" where
  "parse_number s =
     (let t = takeWhile is_num_char s; r = dropWhile is_num_char s in
      if is_int_lit t then map_option (\<lambda>n. (JInt n, r)) (py_int 10 t)
      else if is_float_lit t then Some (JFloat t, r)
      else None)"

text \<open>Setting a key of a Python dict keeps its place if it has one.\<close>

fun dict_put :: "(string \<times> json) list \<Rightarrow> string \<Rightarrow> json \<Rightarrow> (string \<times> json) list" where
  "dict_put [] k v = [(k, v)]"
| "dict_put ((k', v') # d) k v = (if k' = k then (k, v) # d else (k', v') # dict_put d k v)"

text \<open>
  Values, and the rest of an array or object whose elements so far are given. The first
  argument bounds the recursion depth.
\<close>

fun parse_value :: "nat \<Rightarrow> string \<Rightarrow> (json \<times> string) option"
  and parse_elems :: "nat \<Rightarrow> json list \<Rightarrow> string \<Rightarrow> (json \<times> string) option"
  and parse_members :: "nat \<Rightarrow> (string \<times> json) list \<Rightarrow> string \<Rightarrow> (json \<times> string) option" where
  "parse_value 0 s = None"
| "parse_value (Suc k) s =
     (let t = skip_ws s in
      if startswith t ''null'' then Some (JNull, drop 4 t)
      else if startswith t ''true'' then Some (JBool True, drop 4 t)
      else if startswith t ''false'' then Some (JBool False, drop 5 t)
      else case t of
        [] \<Rightarrow> None
      | c # cs \<Rightarrow>
          if ord c = 34 then map_option (\<lambda>(x, r). (JStr x, r)) (parse_chars cs)
          else if c = CHR ''['' then
            (case skip_ws cs of
               d # ds \<Rightarrow> if d = CHR '']'' then Some (JList [], ds) else parse_elems k [] cs
             | [] \<Rightarrow> None)
          else if c = CHR ''{'' then
            (case skip_ws cs of
               d # ds \<Rightarrow> if d = CHR ''}'' then Some (JObj [], ds) else parse_members k [] cs
             | [] \<Rightarrow> None)
          else parse_number t)"
| "parse_elems 0 acc s = None"
| "parse_elems (Suc k) acc s =
     (case parse_value k s of
        None \<Rightarrow> None
      | Some (v, r) \<Rightarrow>
          (case skip_ws r of
             d # ds \<Rightarrow> if d = CHR '']'' then Some (JList (acc @ [v]), ds)
                       else if d = CHR '','' then parse_elems k (acc @ [v]) ds else None
           | [] \<Rightarrow> None))"
| "parse_members 0 acc s = None"
| "parse_members (Suc k) acc s =
     (case skip_ws s of
        [] \<Rightarrow> None
      | q # qs \<Rightarrow>
          if ord q \<noteq> 34 then None
          else (case parse_chars qs of
            None \<Rightarrow> None
          | Some (key, r) \<Rightarrow>
              (case skip_ws r of
                 [] \<Rightarrow> None
               | col # r' \<Rightarrow>
                   if col \<noteq> CHR '':'' then None
                   else (case parse_value k r' of
                     None \<Rightarrow> None
                   | Some (v, r2) \<Rightarrow>
                       (case skip_ws r2 of
                          d # ds \<Rightarrow> if d = CHR ''}'' then Some (JObj (dict_put acc key v), ds)
                                    else if d = CHR '','' then parse_members k (dict_put acc key v) ds
                                    else None
                        | [] \<Rightarrow> None)))))"

definition json_loads :: "string \<Rightarrow> json result" where
  "json_loads s =
     (case parse_value (2 * length s + 2) s of
        Some (j, r) \<Rightarrow> if skip_ws r = [] then Inr j else Inl (ValueError ''Extra data'')
      | None \<Rightarrow> Inl (ValueError ''JSONDecodeError''))"

section \<open>Reading back what was printed\<close>

text \<open>Values that \<open>json.dumps\<close> can be given: keys are unique, floats have a literal.\<close>

fun wf_json :: "json \<Rightarrow> bool" where
  "wf_json (JFloat r) = is_float_lit r"
| "wf_json (JList xs) = list_all wf_json xs"
| "wf_json (JObj kvs) = (distinct (map fst kvs) \<and> list_all (\<lambda>(k, v). wf_json v) kvs)"
| "wf_json _ = True"

definition ends_number :: "string \<Rightarrow> bool" where
  "ends_number r \<longleftrightarrow> r = [] \<or> \<not> is_num_char (hd r)"

lemma hex4_char: "hex4 (hex_digits 4 (ord c)) = Some c"
proof -
  have "int_digits 16 False 0 (hex_digits 4 (ord c)) = Some (ord c)"
    using int_digits_hex_digits [of 4 "ord c"] ord_less [of c] by simp
  moreover have "CHR ''_'' \<notin> set (hex_digits 4 (ord c))"
    using notin_digits [OF set_hex_digits_36, of "CHR ''_''" 4 "ord c"] by simp
  ultimately show ?thesis using ord_less [of c] by (simp add: hex4_def ord_def)
qed

lemma hex_digits_4:
  "hex_digits 4 n =
     [digit_char (n div 16 div 16 div 16 mod 16), digit_char (n div 16 div 16 mod 16),
      digit_char (n div 16 mod 16), digit_char (n mod 16)]"
proof -
  have "(4::nat) = Suc (Suc (Suc (Suc 0)))" by simp
  then show ?thesis by (simp only: hex_digits.simps append.simps)
qed

lemma char_of_ord: "ord c = n \<Longrightarrow> char_of n = c"
  by (auto simp: ord_def)

lemma ord_backslash [simp]: "ord backslash = 92"
  by (simp add: backslash_def)

lemma ord_dquote [simp]: "ord dquote = 34"
  by (simp add: dquote_def)

text \<open>One character of a literal at a time.\<close>

lemma parse_plain_char:
  "parse_chars s = Some (t, r) \<Longrightarrow> 32 \<le> ord c \<Longrightarrow> ord c \<noteq> 34 \<Longrightarrow> ord c \<noteq> 92 \<Longrightarrow>
     parse_chars (c # s) = Some (c # t, r)"
  by simp

lemma parse_short_escape:
  "parse_chars s = Some (t, r) \<Longrightarrow> unescape e = Some c \<Longrightarrow> ord e \<noteq> 117 \<Longrightarrow>
     parse_chars (backslash # e # s) = Some (c # t, r)"
  by (auto simp: ord_def [of "CHR ''u''"])

lemma parse_hex_escape:
  "parse_chars s = Some (t, r) \<Longrightarrow> hex4 [h1, h2, h3, h4] = Some c \<Longrightarrow>
     parse_chars (backslash # CHR ''u'' # h1 # h2 # h3 # h4 # s) = Some (c # t, r)"
  by simp

declare parse_chars.simps(2) [simp del]

lemma parse_short_escapes:
  assumes "parse_chars s = Some (t, r)"
  shows "parse_chars (backslash # dquote # s) = Some (dquote # t, r)"
    "parse_chars (backslash # backslash # s) = Some (backslash # t, r)"
    "parse_chars (backslash # CHR ''n'' # s) = Some (char_of (10::nat) # t, r)"
    "parse_chars (backslash # CHR ''r'' # s) = Some (char_of (13::nat) # t, r)"
    "parse_chars (backslash # CHR ''t'' # s) = Some (char_of (9::nat) # t, r)"
    "parse_chars (backslash # CHR ''f'' # s) = Some (char_of (12::nat) # t, r)"
    "parse_chars (backslash # CHR ''b'' # s) = Some (char_of (8::nat) # t, r)"
  by (rule parse_short_escape [OF assms]; simp add: unescape_def ord_def [of "CHR ''n''"]
      ord_def [of "CHR ''r''"] ord_def [of "CHR ''t''"] ord_def [of "CHR ''f''"] ord_def [of "CHR ''b''"])+

lemma parse_escaped_char:
  assumes "parse_chars s = Some (t, r)"
  shows "parse_chars (json_escape c @ s) = Some (c # t, r)"
proof -
  note short = parse_short_escapes [OF assms]
  have h: "parse_chars ([backslash, CHR ''u''] @ hex_digits 4 (ord c) @ s) = Some (c # t, r)"
    using parse_hex_escape [OF assms] hex4_char [of c] by (simp add: hex_digits_4)
  consider "ord c = 34" | "ord c = 92" | "ord c = 10" | "ord c = 13" | "ord c = 9" | "ord c = 12"
    | "ord c = 8" | "32 \<le> ord c" "ord c \<le> 126" "ord c \<noteq> 34" "ord c \<noteq> 92"
    | "json_escape c = [backslash, CHR ''u''] @ hex_digits 4 (ord c)"
    unfolding json_escape_def Let_def by argo
  then show ?thesis
  proof cases
    case 8
    then show ?thesis using parse_plain_char [OF assms] by (simp add: json_escape_def Let_def)
  next
    case 9
    with h show ?thesis by simp
  qed (use short char_of_ord [of c] in \<open>simp add: json_escape_def Let_def dquote_def backslash_def\<close>)+
qed

lemma parse_chars_escaped:
  "parse_chars (concat (map json_escape s) @ dquote # r) = Some (s, r)"
  by (induction s) (simp_all add: parse_escaped_char, simp add: parse_chars.simps)

subsection \<open>Numbers\<close>

lemma is_digit_digit_char: "d < 10 \<Longrightarrow> is_digit (digit_char d)"
  by (simp add: is_digit_def ord_digit_char)

lemma digits_str_nat: "list_all is_digit (str_nat n)"
  using set_str_nat [of n] is_digit_digit_char by (auto simp: list_all_iff)

lemma hd_str_nat: "0 < n \<Longrightarrow> hd (str_nat n) \<noteq> CHR ''0''"
proof (induction n rule: str_nat.induct)
  case (1 n)
  show ?case
  proof (cases "n < 10")
    case True
    then have "ord (digit_char n) = 48 + n" by (simp add: ord_digit_char)
    with 1 have "digit_char n \<noteq> CHR ''0''" by (auto simp: ord_def)
    with True show ?thesis by (simp add: str_nat.simps [of n])
  next
    case False
    with 1 have "hd (str_nat (n div 10)) \<noteq> CHR ''0''" by simp
    with False show ?thesis by (simp add: str_nat.simps [of n])
  qed
qed

lemma int_part_str_nat: "is_int_part (str_nat n)"
proof (cases "n = 0")
  case True
  then show ?thesis by (simp add: is_int_part_def digits_str_nat str_nat.simps [of 0]
      is_digit_digit_char)
qed (simp add: is_int_part_def digits_str_nat hd_str_nat)

lemma minus_not_digit [simp]: "\<not> is_digit CHR ''-''"
  by (simp add: is_digit_def)

lemma int_part_no_minus: "is_int_part t \<Longrightarrow> drop_minus t = t"
  by (auto simp: is_int_part_def drop_minus_def split: list.splits)

lemma int_lit_str_int: "is_int_lit (str_int n)"
  using int_part_no_minus [OF int_part_str_nat, of "nat n"] int_part_str_nat
  by (auto simp: is_int_lit_def str_int_def drop_minus_def)

lemma num_chars_str_int: "list_all is_num_char (str_int n)"
  using digits_str_nat unfolding str_int_def list_all_iff by (auto simp: is_num_char_def)

lemma take_number:
  assumes "list_all is_num_char t" "ends_number r"
  shows "takeWhile is_num_char (t @ r) = t" "dropWhile is_num_char (t @ r) = r"
  using assms by (auto simp: list_all_iff ends_number_def takeWhile_append2 dropWhile_append2
      takeWhile_eq_Nil_iff dropWhile_eq_self_iff split: list.splits)

lemma parse_number_int: "ends_number r \<Longrightarrow> parse_number (str_int n @ r) = Some (JInt n, r)"
  by (simp add: parse_number_def take_number num_chars_str_int int_lit_str_int)

lemma exp_num_chars: "is_exp t \<Longrightarrow> list_all is_num_char t"
  by (auto simp: is_exp_def is_num_char_def list_all_iff Let_def split: list.splits if_splits)

lemma digits_num_chars: "list_all is_num_char (takeWhile is_digit t)"
  by (auto simp: list_all_iff is_num_char_def dest: set_takeWhileD)

lemma list_all_append_split:
  "list_all P (takeWhile Q t) \<Longrightarrow> list_all P (dropWhile Q t) \<Longrightarrow> list_all P t"
  by (metis list_all_append takeWhile_dropWhile_id)

lemma float_num_chars:
  assumes "is_float_lit t"
  shows "list_all is_num_char t"
proof -
  let ?r = "dropWhile is_digit (drop_minus t)"
  obtain c cs where r: "?r = c # cs" using assms by (auto simp: is_float_lit_def Let_def split: list.splits)
  have "list_all is_num_char ?r"
  proof (cases "c = CHR ''.''")
    case True
    with assms r have "dropWhile is_digit cs = [] \<or> is_exp (dropWhile is_digit cs)"
      by (simp add: is_float_lit_def Let_def)
    then have "list_all is_num_char (dropWhile is_digit cs)"
      by (elim disjE) (simp only: list.pred_inject, rule exp_num_chars)
    with True r list_all_append_split [OF digits_num_chars] show ?thesis by (simp add: is_num_char_def)
  next
    case False
    with assms r have "is_exp ?r" by (simp add: is_float_lit_def Let_def)
    then show ?thesis by (rule exp_num_chars)
  qed
  then have "list_all is_num_char (drop_minus t)" using list_all_append_split [OF digits_num_chars] by blast
  then show ?thesis by (auto simp: drop_minus_def is_num_char_def split: list.splits if_splits)
qed

lemma float_not_int: "is_float_lit t \<Longrightarrow> \<not> is_int_lit t"
proof
  assume f: "is_float_lit t" and "is_int_lit t"
  then have "list_all is_digit (drop_minus t)" by (simp add: is_int_lit_def is_int_part_def)
  then have "dropWhile is_digit (drop_minus t) = []" by (simp add: list_all_iff)
  with f show False by (simp add: is_float_lit_def Let_def)
qed

lemma parse_number_float:
  "is_float_lit t \<Longrightarrow> ends_number r \<Longrightarrow> parse_number (t @ r) = Some (JFloat t, r)"
  by (simp add: parse_number_def take_number float_num_chars float_not_int)

subsection \<open>Values\<close>

lemma join_Cons: "join sep (x # xs) = x @ (if xs = [] then [] else sep @ join sep xs)"
  by (cases xs) simp_all

lemma dict_put_new: "k \<notin> fst ` set d \<Longrightarrow> dict_put d k v = d @ [(k, v)]"
  by (induction d k v rule: dict_put.induct) auto

text \<open>The first character of a printed value.\<close>

definition starts_value :: "string \<Rightarrow> bool" where
  "starts_value s \<longleftrightarrow> s \<noteq> [] \<and> \<not> is_ws (hd s) \<and> hd s \<noteq> CHR '']'' \<and> hd s \<noteq> CHR ''}''"

definition starts_number :: "string \<Rightarrow> bool" where
  "starts_number s \<longleftrightarrow> s \<noteq> [] \<and> (is_digit (hd s) \<or> hd s = CHR ''-'')"

lemma starts_number_digits: "is_int_part (drop_minus t) \<Longrightarrow> starts_number t"
  by (cases t) (auto simp: is_int_part_def starts_number_def drop_minus_def split: if_splits)

lemma starts_number_int: "starts_number (str_int n)"
  using starts_number_digits int_lit_str_int by (auto simp: is_int_lit_def)

lemma starts_number_float:
  assumes "is_float_lit t"
  shows "starts_number t"
proof -
  from assms have "takeWhile is_digit (drop_minus t) \<noteq> []"
    by (simp add: is_float_lit_def is_int_part_def Let_def)
  then show ?thesis
    by (cases t) (auto simp: starts_number_def drop_minus_def split: if_splits list.splits)
qed

lemma starts_number_starts_value: "starts_number s \<Longrightarrow> starts_value s"
  by (cases s) (auto simp: starts_number_def starts_value_def is_ws_def is_digit_def ord_def)

lemma dquote_neq: "ord c \<noteq> 34 \<Longrightarrow> dquote \<noteq> c"
  by auto

lemma starts_value_dumps: "wf_json j \<Longrightarrow> starts_value (json_dumps j)"
  by (cases j)
    (simp_all add: starts_number_int starts_number_float starts_number_starts_value,
     simp_all add: starts_value_def json_string_def is_ws_def dquote_neq ord_def [of "CHR '']''"],
     simp_all add: ord_def)

lemma skip_ws_value: "starts_value s \<Longrightarrow> skip_ws (s @ r) = s @ r"
  by (cases s) (simp_all add: starts_value_def skip_ws_def)

lemma skip_ws_nonspace [simp]:
  "\<not> is_ws c \<Longrightarrow> skip_ws (c # s) = c # s"
  by (simp add: skip_ws_def)

lemma skip_ws_space [simp]: "skip_ws (CHR '' '' # s) = skip_ws s"
  by (simp add: skip_ws_def is_ws_def ord_def)

lemma parse_value_space [simp]: "parse_value k (CHR '' '' # s) = parse_value k s"
  by (cases k) simp_all

lemma parse_members_space [simp]: "parse_members k acc (CHR '' '' # s) = parse_members k acc s"
  by (cases k) simp_all

lemma parse_elems_space [simp]: "parse_elems k acc (CHR '' '' # s) = parse_elems k acc s"
  by (cases k) simp_all

lemma not_ws [simp]:
  "\<not> is_ws CHR '']''" "\<not> is_ws CHR ''}''" "\<not> is_ws CHR '',''" "\<not> is_ws CHR '':''" "\<not> is_ws dquote"
  by (simp_all add: is_ws_def ord_def dquote_def)

lemma parse_value_number:
  assumes "starts_number t" "0 < k"
  shows "parse_value k (t @ r) = parse_number (t @ r)"
proof -
  obtain c cs where t: "t = c # cs" using assms by (cases t) (auto simp: starts_number_def)
  with assms have c: "is_digit c \<or> c = CHR ''-''" by (simp add: starts_number_def)
  then have "c \<noteq> CHR ''n''" "c \<noteq> CHR ''t''" "c \<noteq> CHR ''f''" "ord c \<noteq> 34" "c \<noteq> CHR ''[''"
    "c \<noteq> CHR ''{''" "\<not> is_ws c"
    by (auto simp: is_digit_def is_ws_def ord_def)
  with t assms(2) show ?thesis by (cases k) simp_all
qed

text \<open>
  What reading back one value means, for any fuel that is at least twice the length of its text and
  any continuation at which a number ends.
\<close>

definition reads_back :: "json \<Rightarrow> bool" where
  "reads_back j \<longleftrightarrow>
     (\<forall>k r. 2 * length (json_dumps j) \<le> k \<longrightarrow> ends_number r \<longrightarrow>
        parse_value k (json_dumps j @ r) = Some (j, r))"

lemma ends_number_simps [simp]:
  "ends_number []" "ends_number (CHR '','' # r)" "ends_number (CHR '']'' # r)" "ends_number (CHR ''}'' # r)"
  by (simp_all add: ends_number_def is_num_char_def is_digit_def) (simp add: ord_def)

lemma starts_value_length: "starts_value s \<Longrightarrow> 0 < length s"
  by (auto simp: starts_value_def)

lemma parse_elems_printed:
  assumes "xs \<noteq> []" "\<And>x. x \<in> set xs \<Longrightarrow> reads_back x" "list_all wf_json xs"
    "2 * length (join '', '' (map json_dumps xs)) < k"
  shows "parse_elems k acc (join '', '' (map json_dumps xs) @ CHR '']'' # r) = Some (JList (acc @ xs), r)"
  using assms
proof (induction xs arbitrary: acc k)
  case (Cons x xs)
  obtain k' where k: "k = Suc k'" using Cons.prems(4) by (cases k) auto
  have fuel: "2 * length (json_dumps x) \<le> k'" using Cons.prems(4) k by (simp add: join_Cons split: if_splits)
  show ?case
  proof (cases "xs = []")
    case True
    with Cons.prems(2) fuel k show ?thesis by (simp add: reads_back_def)
  next
    case False
    have "parse_value k' (json_dumps x @ CHR '','' # r') = Some (x, CHR '','' # r')" for r'
      using Cons.prems(2) fuel by (simp add: reads_back_def)
    moreover have "parse_elems k' (acc @ [x]) (join '', '' (map json_dumps xs) @ CHR '']'' # r) =
        Some (JList ((acc @ [x]) @ xs), r)"
      using False Cons.prems k by (intro Cons.IH) (auto simp: join_Cons)
    ultimately show ?thesis using False k by (simp add: join_Cons)
  qed
qed simp

definition print_member :: "string \<times> json \<Rightarrow> string" where
  "print_member kv = json_string (fst kv) @ '': '' @ json_dumps (snd kv)"

lemma parse_members_step:
  assumes "reads_back v" "2 * length (print_member (key, v)) \<le> k"
    "tail = CHR '','' # r' \<or> tail = CHR ''}'' # r'"
  shows "parse_members (Suc k) acc (print_member (key, v) @ tail) =
    (if tail = CHR '','' # r' then parse_members k (dict_put acc key v) r'
     else Some (JObj (dict_put acc key v), r'))"
proof -
  have "2 * length (json_dumps v) \<le> k" using assms(2) by (simp add: print_member_def)
  moreover have "ends_number tail" using assms(3) by auto
  ultimately have "parse_value k (json_dumps v @ tail) = Some (v, tail)"
    using assms(1) by (simp add: reads_back_def)
  with assms(3) parse_chars_escaped [of key "'': '' @ json_dumps v @ tail"] show ?thesis
    by (auto simp: print_member_def json_string_def)
qed

lemma parse_members_printed:
  assumes "kvs \<noteq> []" "\<And>k v. (k, v) \<in> set kvs \<Longrightarrow> reads_back v" "distinct (map fst (acc @ kvs))"
    "2 * length (join '', '' (map print_member kvs)) < n"
  shows "parse_members n acc (join '', '' (map print_member kvs) @ CHR ''}'' # r) = Some (JObj (acc @ kvs), r)"
  using assms
proof (induction kvs arbitrary: acc n)
  case (Cons kv kvs)
  obtain key v where kv: "kv = (key, v)" by (cases kv)
  obtain n' where n: "n = Suc n'" using Cons.prems(4) by (cases n) auto
  have fuel: "2 * length (print_member (key, v)) \<le> n'"
    using Cons.prems(4) n kv by (simp add: join_Cons split: if_splits)
  have v: "reads_back v" using Cons.prems(2) [of key v] kv by simp
  have put: "dict_put acc key v = acc @ [kv]" using Cons.prems(3) kv by (intro dict_put_new [THEN trans]) auto
  show ?case
  proof (cases "kvs = []")
    case True
    with parse_members_step [OF v fuel, of "CHR ''}'' # r" r acc] kv n put show ?thesis by simp
  next
    case False
    have "parse_members n' (acc @ [kv]) (join '', '' (map print_member kvs) @ CHR ''}'' # r) =
        Some (JObj ((acc @ [kv]) @ kvs), r)"
      using False Cons.prems n by (intro Cons.IH) (auto simp: join_Cons)
    with False parse_members_step [OF v fuel, of "'', '' @ join '', '' (map print_member kvs) @ CHR ''}'' # r"]
      kv n put show ?thesis by (simp add: join_Cons)
  qed
qed simp

lemma reads_back_atoms:
  "reads_back JNull" "reads_back (JBool b)" "reads_back (JStr s)"
proof -
  have "0 < k \<Longrightarrow> parse_value k (json_dumps JNull @ r) = Some (JNull, r)" for k r
    by (cases k) (simp_all add: is_ws_def ord_def)
  then show "reads_back JNull" by (simp add: reads_back_def)
  have "0 < k \<Longrightarrow> parse_value k (json_dumps (JBool b) @ r) = Some (JBool b, r)" for k r
    by (cases k) (auto simp: is_ws_def ord_def)
  then show "reads_back (JBool b)" by (auto simp: reads_back_def)
  have "dquote \<noteq> CHR ''n''" "dquote \<noteq> CHR ''t''" "dquote \<noteq> CHR ''f''"
    by (rule dquote_neq, simp add: ord_def)+
  then have "0 < k \<Longrightarrow> parse_value k (json_dumps (JStr s) @ r) = Some (JStr s, r)" for k r
    using parse_chars_escaped [of s r] by (cases k) (simp_all add: json_string_def)
  then show "reads_back (JStr s)" by (auto simp: reads_back_def json_string_def)
qed

lemma reads_back_numbers: "reads_back (JInt n)" "is_float_lit t \<Longrightarrow> reads_back (JFloat t)"
proof -
  have "0 < k" if "2 * length t \<le> k" "starts_number t" for t and k :: nat
    using that by (cases t) (auto simp: starts_number_def)
  then show "reads_back (JInt n)" "is_float_lit t \<Longrightarrow> reads_back (JFloat t)"
    unfolding reads_back_def
    by (simp_all add: parse_value_number starts_number_int starts_number_float parse_number_int
        parse_number_float)
qed

lemma parse_value_bracket:
  "parse_value (Suc k) (CHR ''['' # s) =
     (case skip_ws s of
        d # ds \<Rightarrow> if d = CHR '']'' then Some (JList [], ds) else parse_elems k [] s
      | [] \<Rightarrow> None)"
  "parse_value (Suc k) (CHR ''{'' # s) =
     (case skip_ws s of
        d # ds \<Rightarrow> if d = CHR ''}'' then Some (JObj [], ds) else parse_members k [] s
      | [] \<Rightarrow> None)"
  by (simp_all add: is_ws_def ord_def)

lemma reads_back_list:
  assumes "\<And>x. x \<in> set xs \<Longrightarrow> reads_back x" "list_all wf_json xs"
  shows "reads_back (JList xs)"
  unfolding reads_back_def
proof (intro allI impI)
  fix k r
  assume k: "2 * length (json_dumps (JList xs)) \<le> k"
  then obtain k' where k': "k = Suc k'" by (cases k) auto
  show "parse_value k (json_dumps (JList xs) @ r) = Some (JList xs, r)"
  proof (cases xs)
    case Nil
    with k' show ?thesis by (simp add: parse_value_bracket del: parse_value.simps)
  next
    case (Cons x ys)
    let ?body = "join '', '' (map json_dumps xs)"
    have "starts_value (json_dumps x)" using assms(2) Cons starts_value_dumps by simp
    then obtain c cs where c: "?body = c # cs" "\<not> is_ws c" "c \<noteq> CHR '']''"
      using Cons by (cases "json_dumps x") (auto simp: starts_value_def join_Cons)
    have "parse_elems k' [] (?body @ CHR '']'' # r) = Some (JList xs, r)"
      using parse_elems_printed [OF _ assms, of k' "[]" r] Cons k k' by simp
    with c k' show ?thesis by (simp add: parse_value_bracket del: parse_value.simps)
  qed
qed

lemma map_print_member: "map (\<lambda>(k, v). json_string k @ '': '' @ json_dumps v) kvs = map print_member kvs"
  by (auto simp: print_member_def)

lemma reads_back_obj:
  assumes "\<And>k v. (k, v) \<in> set kvs \<Longrightarrow> reads_back v" "distinct (map fst kvs)"
  shows "reads_back (JObj kvs)"
  unfolding reads_back_def
proof (intro allI impI)
  fix k r
  let ?body = "join '', '' (map print_member kvs)"
  have dumps: "json_dumps (JObj kvs) = ''{'' @ ?body @ ''}''"
    unfolding json_dumps.simps map_print_member by (rule refl)
  assume k: "2 * length (json_dumps (JObj kvs)) \<le> k"
  then obtain k' where k': "k = Suc k'" by (cases k) auto
  show "parse_value k (json_dumps (JObj kvs) @ r) = Some (JObj kvs, r)"
  proof (cases kvs)
    case Nil
    with k' show ?thesis by (simp add: parse_value_bracket del: parse_value.simps)
  next
    case (Cons kv ys)
    have b: "?body = dquote # tl ?body"
      using Cons by (simp add: join_Cons print_member_def json_string_def)
    have "dquote \<noteq> CHR ''}''" by (rule dquote_neq) simp
    moreover have "parse_members k' [] (?body @ CHR ''}'' # r) = Some (JObj kvs, r)"
    proof -
      from k k' have "2 * length ?body < k'" by (simp add: dumps del: json_dumps.simps)
      with parse_members_printed [of kvs "[]" k' r] assms Cons show ?thesis by simp
    qed
    moreover have "skip_ws (?body @ CHR ''}'' # r) = dquote # tl ?body @ CHR ''}'' # r"
      by (subst b) simp
    ultimately show ?thesis
      using k' by (simp add: dumps parse_value_bracket del: parse_value.simps json_dumps.simps)
  qed
qed

lemma reads_back_wf: "wf_json j \<Longrightarrow> reads_back j"
proof (induction j rule: json_dumps.induct)
  case (6 xs)
  then show ?case by (intro reads_back_list) (auto simp: list_all_iff)
next
  case (7 kvs)
  then show ?case by (intro reads_back_obj) (auto simp: list_all_iff)
qed (simp_all add: reads_back_atoms reads_back_numbers)

lemma json_loads_dumps:
  assumes "wf_json j"
  shows "json_loads (json_dumps j) = Inr j"
proof -
  have "parse_value (2 * length (json_dumps j) + 2) (json_dumps j @ []) = Some (j, [])"
    using reads_back_wf [OF assms] unfolding reads_back_def by (metis ends_number_simps(1) le_add1)
  then show ?thesis unfolding json_loads_def append_Nil2 by (simp add: skip_ws_def)
qed

section \<open>Property\<close>

text \<open>
  Reading back a printed JSON value gives the value, for every value with unique keys and
  finite floats: what the worker reads from a stream message is what was published.
\<close>

lemma json_round_trip:
  assumes "wf_json j"
  shows "json_loads (json_dumps j) = Inr j"
  using assms by (rule json_loads_dumps)

end
