(* ===== verification/Broker.thy ===== *)
theory Broker
  imports Json_Text
begin

text \<open>
  The message broker, \<open>packages/messaging/eventmesh_messaging/broker.py\<close>. The Redis client is a
  record of operations over a server state of any type; \<open>RedisStreamsBroker\<close>'s methods are
  defined over it. The locale \<open>message_broker\<close> is the contract of the abstract class: what
  publishing, consuming, acknowledging and claiming do to the messages a consumer group
  has not seen and to those it has not acknowledged. A reference semantics of Redis Streams,
  with a server that may be down, shows that the broker satisfies the contract.
\<close>

section \<open>Messages and the Redis client\<close>

type_synonym fields = "(string \<times> string) list"

record stream_message =
  message_id :: string
  msg_fields :: fields

text \<open>What \<open>XREADGROUP\<close> returns: per stream its entries; nothing if the wait times out.\<close>

type_synonym stream_response = "(string \<times> (string \<times> fields) list) list option"

record 'r redis_client =
  xgroup_create :: "string \<Rightarrow> string \<Rightarrow> string \<Rightarrow> bool \<Rightarrow> 'r \<Rightarrow> unit result \<times> 'r"
  xadd :: "string \<Rightarrow> fields \<Rightarrow> 'r \<Rightarrow> string result \<times> 'r"
  xreadgroup :: "string \<Rightarrow> string \<Rightarrow> (string \<times> string) list \<Rightarrow> int \<Rightarrow> int \<Rightarrow> 'r \<Rightarrow> stream_response result \<times> 'r"
  xack :: "string \<Rightarrow> string \<Rightarrow> string \<Rightarrow> 'r \<Rightarrow> int result \<times> 'r"
  xautoclaim :: "string \<Rightarrow> string \<Rightarrow> string \<Rightarrow> int \<Rightarrow> string \<Rightarrow> int \<Rightarrow> 'r \<Rightarrow>
     (string \<times> (string \<times> fields) list \<times> string list) result \<times> 'r"

section \<open>RedisStreamsBroker\<close>

fun contains :: "string \<Rightarrow> string \<Rightarrow> bool" where
  "contains [] p = (p = [])"
| "contains (c # s) p = (startswith (c # s) p \<or> contains s p)"

definition ensure_group :: "'r redis_client \<Rightarrow> string \<Rightarrow> string \<Rightarrow> 'r \<Rightarrow> unit result \<times> 'r" where
  "ensure_group R stream grp r =
     (case xgroup_create R stream grp ''0'' True r of
        (Inl (ResponseError m), r') \<Rightarrow>
          (if \<not> contains m ''BUSYGROUP'' then Inl (ResponseError m) else Inr (), r')
      | (Inl e, r') \<Rightarrow> (Inl e, r')
      | (Inr u, r') \<Rightarrow> (Inr (), r'))"

definition publish :: "'r redis_client \<Rightarrow> string \<Rightarrow> fields \<Rightarrow> 'r \<Rightarrow> string result \<times> 'r" where
  "publish R stream fs r = xadd R stream fs r"

definition stream_message_of :: "string \<times> fields \<Rightarrow> stream_message" where
  "stream_message_of e = \<lparr>message_id = fst e, msg_fields = snd e\<rparr>"

definition parse_stream_response :: "stream_response \<Rightarrow> stream_message list" where
  "parse_stream_response resp =
     concat (map (\<lambda>(_, entries). map stream_message_of entries)
       (case resp of None \<Rightarrow> [] | Some ss \<Rightarrow> ss))"

definition consume :: "'r redis_client \<Rightarrow> string \<Rightarrow> string \<Rightarrow> string \<Rightarrow> int \<Rightarrow> int \<Rightarrow> 'r \<Rightarrow>
    stream_message list result \<times> 'r" where
  "consume R stream grp consumer cnt block_ms r =
     (case xreadgroup R grp consumer [(stream, ''>'')] cnt block_ms r of
        (Inl e, r') \<Rightarrow> (Inl e, r')
      | (Inr resp, r') \<Rightarrow> (Inr (parse_stream_response resp), r'))"

definition acknowledge :: "'r redis_client \<Rightarrow> string \<Rightarrow> string \<Rightarrow> string \<Rightarrow> 'r \<Rightarrow> unit result \<times> 'r" where
  "acknowledge R stream grp i r =
     (case xack R stream grp i r of (Inl e, r') \<Rightarrow> (Inl e, r') | (Inr _, r') \<Rightarrow> (Inr (), r'))"

definition claim_stale :: "'r redis_client \<Rightarrow> string \<Rightarrow> string \<Rightarrow> string \<Rightarrow> int \<Rightarrow> int \<Rightarrow> 'r \<Rightarrow>
    stream_message list result \<times> 'r" where
  "claim_stale R stream grp consumer min_idle_ms cnt r =
     (case xautoclaim R stream grp consumer min_idle_ms ''0-0'' cnt r of
        (Inl e, r') \<Rightarrow> (Inl e, r')
      | (Inr (_, claimed, _), r') \<Rightarrow> (Inr (map stream_message_of claimed), r'))"

section \<open>The contract\<close>

text \<open>
  For a stream and a group: \<open>undelivered\<close> are the messages no consumer of the group has been given (all of them
  while the group does not exist, since it is created at the start of the stream), \<open>pending\<close> those given to a
  consumer and not acknowledged; \<open>ready\<close> says that the server's record of them is consistent. An operation that
  fails may still have taken effect on the server.
\<close>

locale message_broker =
  fixes ens :: "string \<Rightarrow> string \<Rightarrow> 'r \<Rightarrow> unit result \<times> 'r"
    and pub :: "string \<Rightarrow> fields \<Rightarrow> 'r \<Rightarrow> string result \<times> 'r"
    and con :: "string \<Rightarrow> string \<Rightarrow> string \<Rightarrow> int \<Rightarrow> int \<Rightarrow> 'r \<Rightarrow> stream_message list result \<times> 'r"
    and ack :: "string \<Rightarrow> string \<Rightarrow> string \<Rightarrow> 'r \<Rightarrow> unit result \<times> 'r"
    and claim :: "string \<Rightarrow> string \<Rightarrow> string \<Rightarrow> int \<Rightarrow> int \<Rightarrow> 'r \<Rightarrow> stream_message list result \<times> 'r"
    and undelivered :: "string \<Rightarrow> string \<Rightarrow> 'r \<Rightarrow> stream_message list"
    and pending :: "string \<Rightarrow> string \<Rightarrow> 'r \<Rightarrow> stream_message list"
    and ready :: "string \<Rightarrow> string \<Rightarrow> 'r \<Rightarrow> bool"
  assumes ens_law: "ens s g r = (eres, r') \<Longrightarrow> ready s g r \<Longrightarrow>
      ready s g r' \<and> undelivered s g r' = undelivered s g r \<and> pending s g r' = pending s g r"
    and pub_law: "pub s fs r = (pres, r') \<Longrightarrow> ready s g r \<Longrightarrow>
      ready s g r' \<and> pending s g r' = pending s g r \<and>
      (\<exists>ms. undelivered s g r' = undelivered s g r @ ms \<and> (\<forall>m \<in> set ms. msg_fields m = fs) \<and>
         (\<forall>i. pres = Inr i \<longrightarrow> ms = [\<lparr>message_id = i, msg_fields = fs\<rparr>]))"
    and con_law: "con s g c n b r = (cres, r') \<Longrightarrow> ready s g r \<Longrightarrow>
      ready s g r' \<and>
      (\<exists>ms. undelivered s g r = ms @ undelivered s g r' \<and>
         mset (pending s g r') = mset (pending s g r) + mset ms \<and> (\<forall>ms'. cres = Inr ms' \<longrightarrow> ms' = ms))"
    and ack_law: "ack s g i r = (ares, r') \<Longrightarrow> ready s g r \<Longrightarrow>
      ready s g r' \<and> undelivered s g r' = undelivered s g r \<and>
      (pending s g r' = filter (\<lambda>m. message_id m \<noteq> i) (pending s g r) \<or>
       (\<exists>e. ares = Inl e) \<and> pending s g r' = pending s g r)"
    and claim_law: "claim s g c idle n r = (lres, r') \<Longrightarrow> ready s g r \<Longrightarrow>
      ready s g r' \<and> undelivered s g r' = undelivered s g r \<and> pending s g r' = pending s g r \<and>
      (\<forall>ms. lres = Inr ms \<longrightarrow> set ms \<subseteq> set (pending s g r))"
begin

text \<open>Nothing but an acknowledgement takes a message out of the group's hands.\<close>

lemma pub_keeps:
  assumes "pub s fs r = (res, r')" "ready s g r" "m \<in> set (undelivered s g r) \<union> set (pending s g r)"
  shows "m \<in> set (undelivered s g r') \<union> set (pending s g r')"
proof -
  from pub_law [OF assms(1,2)] obtain ms where
    "undelivered s g r' = undelivered s g r @ ms" "pending s g r' = pending s g r" by blast
  with assms(3) show ?thesis by auto
qed

lemma con_keeps:
  assumes "con s g c n b r = (res, r')" "ready s g r"
  shows "set (undelivered s g r') \<union> set (pending s g r') = set (undelivered s g r) \<union> set (pending s g r)"
proof -
  from con_law [OF assms] obtain ms where u: "undelivered s g r = ms @ undelivered s g r'"
    and p: "mset (pending s g r') = mset (pending s g r) + mset ms" by blast
  from p have "set (pending s g r') = set (pending s g r) \<union> set ms"
    by (metis set_mset_mset set_mset_union)
  with u show ?thesis by auto
qed

lemma con_pending:
  assumes "con s g c n b r = (Inr ms, r')" "ready s g r"
  shows "set ms \<subseteq> set (pending s g r')"
proof -
  from con_law [OF assms] have "mset (pending s g r') = mset (pending s g r) + mset ms" by auto
  then have "set (pending s g r') = set (pending s g r) \<union> set ms"
    by (metis set_mset_mset set_mset_union)
  then show ?thesis by blast
qed

lemma ack_keeps:
  assumes "ack s g i r = (res, r')" "ready s g r" "m \<in> set (undelivered s g r) \<union> set (pending s g r)"
    "message_id m \<noteq> i"
  shows "m \<in> set (undelivered s g r') \<union> set (pending s g r')"
  using ack_law [OF assms(1,2)] assms(3,4) by auto

end

section \<open>A reference semantics of Redis Streams\<close>

record consumer_group =
  cg_delivered :: nat
  cg_pel :: "(string \<times> string \<times> int) list"

record redis =
  rd_streams :: "string \<Rightarrow> (string \<times> fields) list"
  rd_groups :: "string \<times> string \<Rightarrow> consumer_group option"
  rd_now :: int
  rd_up :: bool

definition entry_id :: "nat \<Rightarrow> string" where
  "entry_id k = str_nat (Suc k) @ ''-0''"

abbreviation conn_error :: exn where
  "conn_error \<equiv> OtherError ''ConnectionError''"

definition rs_xgroup_create :: "string \<Rightarrow> string \<Rightarrow> string \<Rightarrow> bool \<Rightarrow> redis \<Rightarrow> unit result \<times> redis" where
  "rs_xgroup_create s g i mk r =
     (if \<not> rd_up r then (Inl conn_error, r)
      else case rd_groups r (s, g) of
        Some _ \<Rightarrow> (Inl (ResponseError ''BUSYGROUP Consumer Group name already exists''), r)
      | None \<Rightarrow> (Inr (), r\<lparr>rd_groups := (rd_groups r)((s, g) \<mapsto> \<lparr>cg_delivered = 0, cg_pel = []\<rparr>)\<rparr>))"

definition rs_xadd :: "string \<Rightarrow> fields \<Rightarrow> redis \<Rightarrow> string result \<times> redis" where
  "rs_xadd s fs r =
     (if \<not> rd_up r then (Inl conn_error, r)
      else let es = rd_streams r s; i = entry_id (length es)
           in (Inr i, r\<lparr>rd_streams := (rd_streams r)(s := es @ [(i, fs)])\<rparr>))"

definition rs_xreadgroup :: "string \<Rightarrow> string \<Rightarrow> (string \<times> string) list \<Rightarrow> int \<Rightarrow> int \<Rightarrow> redis \<Rightarrow>
    stream_response result \<times> redis" where
  "rs_xreadgroup g c ss n b r =
     (if \<not> rd_up r then (Inl conn_error, r)
      else case ss of
        [(s, _)] \<Rightarrow>
          (case rd_groups r (s, g) of
             None \<Rightarrow> (Inl (ResponseError ''NOGROUP''), r)
           | Some grp \<Rightarrow>
               let new = take (nat n) (drop (cg_delivered grp) (rd_streams r s)) in
               (Inr (if new = [] then None else Some [(s, new)]),
                r\<lparr>rd_groups := (rd_groups r)((s, g) \<mapsto>
                    \<lparr>cg_delivered = cg_delivered grp + length new,
                     cg_pel = cg_pel grp @ map (\<lambda>e. (fst e, c, rd_now r)) new\<rparr>)\<rparr>))
      | _ \<Rightarrow> (Inl (ResponseError ''unsupported''), r))"

definition rs_xack :: "string \<Rightarrow> string \<Rightarrow> string \<Rightarrow> redis \<Rightarrow> int result \<times> redis" where
  "rs_xack s g i r =
     (if \<not> rd_up r then (Inl conn_error, r)
      else case rd_groups r (s, g) of
        None \<Rightarrow> (Inr 0, r)
      | Some grp \<Rightarrow>
          (Inr (if i \<in> fst ` set (cg_pel grp) then 1 else 0),
           r\<lparr>rd_groups := (rd_groups r)((s, g) \<mapsto>
               grp\<lparr>cg_pel := filter (\<lambda>p. fst p \<noteq> i) (cg_pel grp)\<rparr>)\<rparr>))"

definition rs_xautoclaim :: "string \<Rightarrow> string \<Rightarrow> string \<Rightarrow> int \<Rightarrow> string \<Rightarrow> int \<Rightarrow> redis \<Rightarrow>
    (string \<times> (string \<times> fields) list \<times> string list) result \<times> redis" where
  "rs_xautoclaim s g c idle start n r =
     (if \<not> rd_up r then (Inl conn_error, r)
      else case rd_groups r (s, g) of
        None \<Rightarrow> (Inl (ResponseError ''NOGROUP''), r)
      | Some grp \<Rightarrow>
          let stale = take (nat n) (filter (\<lambda>(_, _, t). idle \<le> rd_now r - t) (cg_pel grp));
              ids = set (map fst stale)
          in (Inr (''0-0'',
                   filter (\<lambda>e. fst e \<in> ids) (take (cg_delivered grp) (rd_streams r s)), []),
              r\<lparr>rd_groups := (rd_groups r)((s, g) \<mapsto>
                  grp\<lparr>cg_pel := map (\<lambda>(i, c', t). if i \<in> ids then (i, c, rd_now r) else (i, c', t))
                                   (cg_pel grp)\<rparr>)\<rparr>))"

definition reference_redis :: "redis redis_client" where
  "reference_redis =
     \<lparr>xgroup_create = rs_xgroup_create, xadd = rs_xadd, xreadgroup = rs_xreadgroup,
      xack = rs_xack, xautoclaim = rs_xautoclaim\<rparr>"

text \<open>The view of a group on its stream.\<close>

definition rs_undelivered :: "string \<Rightarrow> string \<Rightarrow> redis \<Rightarrow> stream_message list" where
  "rs_undelivered s g r =
     (case rd_groups r (s, g) of
        None \<Rightarrow> map stream_message_of (rd_streams r s)
      | Some grp \<Rightarrow> map stream_message_of (drop (cg_delivered grp) (rd_streams r s)))"

definition rs_pending :: "string \<Rightarrow> string \<Rightarrow> redis \<Rightarrow> stream_message list" where
  "rs_pending s g r =
     (case rd_groups r (s, g) of
        None \<Rightarrow> []
      | Some grp \<Rightarrow> map stream_message_of
          (filter (\<lambda>e. fst e \<in> fst ` set (cg_pel grp)) (take (cg_delivered grp) (rd_streams r s))))"

definition rs_ready :: "string \<Rightarrow> string \<Rightarrow> redis \<Rightarrow> bool" where
  "rs_ready s g r \<longleftrightarrow>
     map fst (rd_streams r s) = map entry_id [0..<length (rd_streams r s)] \<and>
     (case rd_groups r (s, g) of
        None \<Rightarrow> True
      | Some grp \<Rightarrow> cg_delivered grp \<le> length (rd_streams r s) \<and>
          fst ` set (cg_pel grp) \<subseteq> fst ` set (take (cg_delivered grp) (rd_streams r s)))"

subsection \<open>The reference server keeps the contract\<close>

lemma str_nat_inject: "str_nat m = str_nat n \<longleftrightarrow> m = n"
  using int_digits_str_nat [of m] int_digits_str_nat [of n] by (metis option.inject)

lemma entry_id_inject: "entry_id m = entry_id n \<longleftrightarrow> m = n"
  by (simp add: entry_id_def str_nat_inject)

lemma ready_distinct: "rs_ready s g r \<Longrightarrow> distinct (map fst (rd_streams r s))"
  unfolding rs_ready_def by (auto simp: distinct_map inj_on_def entry_id_inject)

lemma ready_cases:
  assumes "rs_ready s g r"
  obtains (none) "rd_groups r (s, g) = None"
  | (group) grp where "rd_groups r (s, g) = Some grp" "cg_delivered grp \<le> length (rd_streams r s)"
    "fst ` set (cg_pel grp) \<subseteq> fst ` set (take (cg_delivered grp) (rd_streams r s))"
  using assms unfolding rs_ready_def by (auto split: option.splits)

lemma reference_ensure:
  assumes "ensure_group reference_redis s g r = (res, r')" "rs_ready s g r"
  shows "rs_ready s g r' \<and> rs_undelivered s g r' = rs_undelivered s g r \<and> rs_pending s g r' = rs_pending s g r"
  using assms
  by (auto simp: ensure_group_def reference_redis_def rs_xgroup_create_def rs_ready_def rs_undelivered_def rs_pending_def
      split: if_splits option.splits)

lemma reference_publish:
  assumes "publish reference_redis s fs r = (res, r')" "rs_ready s g r"
  shows "rs_ready s g r' \<and> rs_pending s g r' = rs_pending s g r \<and>
    (\<exists>ms. rs_undelivered s g r' = rs_undelivered s g r @ ms \<and> (\<forall>m \<in> set ms. msg_fields m = fs) \<and>
       (\<forall>i. res = Inr i \<longrightarrow> ms = [\<lparr>message_id = i, msg_fields = fs\<rparr>]))"
proof (cases "rd_up r")
  case False
  with assms show ?thesis by (auto simp: publish_def reference_redis_def rs_xadd_def)
next
  case True
  let ?i = "entry_id (length (rd_streams r s))"
  from True assms(1) have r': "res = Inr ?i"
    "r' = r\<lparr>rd_streams := (rd_streams r)(s := rd_streams r s @ [(?i, fs)])\<rparr>"
    by (simp_all add: publish_def reference_redis_def rs_xadd_def Let_def)
  have "rs_ready s g r' \<and> rs_pending s g r' = rs_pending s g r \<and>
      rs_undelivered s g r' = rs_undelivered s g r @ [\<lparr>message_id = ?i, msg_fields = fs\<rparr>]"
    using assms(2)
    by (cases rule: ready_cases)
      (use assms(2) r' in \<open>auto simp: rs_ready_def rs_pending_def rs_undelivered_def stream_message_of_def\<close>)
  then show ?thesis using r' by (intro conjI exI) simp_all
qed

lemma pending_after_read:
  assumes "distinct (map fst es)" "d \<le> length es" "P \<subseteq> fst ` set (take d es)"
    "new = take n (drop d es)"
  shows "filter (\<lambda>e. fst e \<in> P \<union> fst ` set new) (take (d + length new) es) =
    filter (\<lambda>e. fst e \<in> P) (take d es) @ new"
proof -
  have split: "take (d + length new) es = take d es @ new"
    using assms(4) by (simp add: take_add min_def)
  from assms(1) have dist: "distinct (map fst (take d es @ new))"
    unfolding split [symmetric] by (metis distinct_take take_map)
  have "filter (\<lambda>e. fst e \<in> P \<union> fst ` set new) (take d es) = filter (\<lambda>e. fst e \<in> P) (take d es)"
    using dist by (intro filter_cong) (force simp: image_iff)+
  moreover have "filter (\<lambda>e. fst e \<in> P \<union> fst ` set new) new = new"
    by (simp add: filter_id_conv)
  ultimately show ?thesis by (simp add: split)
qed

text \<open>The group after a read that hands out \<open>new\<close>.\<close>

definition read_group :: "consumer_group \<Rightarrow> string \<Rightarrow> int \<Rightarrow> (string \<times> fields) list \<Rightarrow> consumer_group" where
  "read_group grp c now new =
     \<lparr>cg_delivered = cg_delivered grp + length new,
      cg_pel = cg_pel grp @ map (\<lambda>e. (fst e, c, now)) new\<rparr>"

lemma consume_reference_up:
  assumes "consume reference_redis s g c n b r = (res, r')" "rd_up r" "rd_groups r (s, g) = Some grp"
  shows "r' = r\<lparr>rd_groups := (rd_groups r)((s, g) \<mapsto>
      read_group grp c (rd_now r) (take (nat n) (drop (cg_delivered grp) (rd_streams r s))))\<rparr>"
    and "res = Inr (map stream_message_of (take (nat n) (drop (cg_delivered grp) (rd_streams r s))))"
  using assms
  by (auto simp: consume_def reference_redis_def rs_xreadgroup_def Let_def read_group_def
      parse_stream_response_def split: if_splits)

lemma read_group_pel: "fst ` set (cg_pel (read_group grp c now new)) = fst ` set (cg_pel grp) \<union> fst ` set new"
  by (simp add: read_group_def image_Un image_image)

lemma reference_consume:
  assumes "consume reference_redis s g c n b r = (res, r')" "rs_ready s g r"
  shows "rs_ready s g r' \<and>
    (\<exists>ms. rs_undelivered s g r = ms @ rs_undelivered s g r' \<and>
       mset (rs_pending s g r') = mset (rs_pending s g r) + mset ms \<and> (\<forall>ms'. res = Inr ms' \<longrightarrow> ms' = ms))"
proof (cases "rd_up r \<and> rd_groups r (s, g) \<noteq> None")
  case False
  with assms show ?thesis by (cases "rd_up r") (auto simp: consume_def reference_redis_def rs_xreadgroup_def)
next
  case True
  then have up: "rd_up r" by simp
  from True assms(2) obtain grp where grp: "rd_groups r (s, g) = Some grp"
    "cg_delivered grp \<le> length (rd_streams r s)"
    "fst ` set (cg_pel grp) \<subseteq> fst ` set (take (cg_delivered grp) (rd_streams r s))"
    by (auto elim: ready_cases)
  define es where "es = rd_streams r s"
  define d where "d = cg_delivered grp"
  define new where "new = take (nat n) (drop d es)"
  define grp' where "grp' = read_group grp c (rd_now r) new"
  have r': "r' = r\<lparr>rd_groups := (rd_groups r)((s, g) \<mapsto> grp')\<rparr>"
    and res: "res = Inr (map stream_message_of new)"
    using consume_reference_up [OF assms(1) up grp(1)] by (simp_all only: grp'_def new_def d_def es_def)
  have d': "cg_delivered grp' = d + length new" by (simp add: grp'_def read_group_def d_def)
  have pel: "fst ` set (cg_pel grp') = fst ` set (cg_pel grp) \<union> fst ` set new"
    unfolding grp'_def by (rule read_group_pel)
  have len: "d + length new \<le> length es" using grp(2) by (simp add: new_def d_def es_def)
  have take: "take (d + length new) es = take d es @ new" by (simp add: new_def take_add min_def)
  then have drop: "drop d es = new @ drop (d + length new) es"
    by (metis append_assoc append_take_drop_id same_append_eq)
  have "rs_ready s g r'"
    using assms(2) grp(3) pel take len d' unfolding rs_ready_def r' d_def es_def
    by (simp add: image_Un le_supI1)
  moreover have "rs_undelivered s g r = map stream_message_of new @ rs_undelivered s g r'"
    using drop grp(1) d' by (simp add: rs_undelivered_def r' flip: map_append es_def d_def)
  moreover have "rs_pending s g r' = rs_pending s g r @ map stream_message_of new"
  proof -
    note dist = ready_distinct [OF assms(2), folded es_def]
    from grp(2,3) have "d \<le> length es" "fst ` set (cg_pel grp) \<subseteq> fst ` set (take d es)"
      by (simp_all add: d_def es_def)
    note after = pending_after_read [OF dist this new_def, folded pel]
    show ?thesis
      using after grp(1) d' by (simp add: rs_pending_def r' flip: map_append es_def d_def)
  qed
  ultimately show ?thesis using res by (intro conjI exI [of _ "map stream_message_of new"]) simp_all
qed

lemma reference_acknowledge:
  assumes "acknowledge reference_redis s g i r = (res, r')" "rs_ready s g r"
  shows "rs_ready s g r' \<and> rs_undelivered s g r' = rs_undelivered s g r \<and>
    (rs_pending s g r' = filter (\<lambda>m. message_id m \<noteq> i) (rs_pending s g r) \<or>
     (\<exists>e. res = Inl e) \<and> rs_pending s g r' = rs_pending s g r)"
proof (cases "rd_up r \<and> rd_groups r (s, g) \<noteq> None")
  case False
  with assms show ?thesis
    by (cases "rd_up r") (auto simp: acknowledge_def reference_redis_def rs_xack_def rs_pending_def)
next
  case True
  then have up: "rd_up r" by simp
  from True assms(2) obtain grp where grp: "rd_groups r (s, g) = Some grp"
    "cg_delivered grp \<le> length (rd_streams r s)"
    "fst ` set (cg_pel grp) \<subseteq> fst ` set (take (cg_delivered grp) (rd_streams r s))"
    by (auto elim: ready_cases)
  define grp' where "grp' = grp\<lparr>cg_pel := filter (\<lambda>p. fst p \<noteq> i) (cg_pel grp)\<rparr>"
  from up grp(1) assms(1) have r': "r' = r\<lparr>rd_groups := (rd_groups r)((s, g) \<mapsto> grp')\<rparr>"
    by (auto simp: acknowledge_def reference_redis_def rs_xack_def grp'_def)
  have pel: "fst ` set (cg_pel grp') = fst ` set (cg_pel grp) - {i}" by (auto simp: grp'_def)
  have "rs_ready s g r'"
    using assms(2) grp pel unfolding rs_ready_def r' by (auto simp: grp'_def)
  moreover have "rs_undelivered s g r' = rs_undelivered s g r"
    using grp(1) by (simp add: rs_undelivered_def r' grp'_def)
  moreover have "rs_pending s g r' = filter (\<lambda>m. message_id m \<noteq> i) (rs_pending s g r)"
  proof -
    have "cg_delivered grp' = cg_delivered grp" by (simp add: grp'_def)
    then show ?thesis
      using grp(1) pel
      by (simp add: rs_pending_def r' filter_map comp_def stream_message_of_def conj_commute)
  qed
  ultimately show ?thesis by blast
qed

lemma reference_claim:
  assumes "claim_stale reference_redis s g c idle n r = (res, r')" "rs_ready s g r"
  shows "rs_ready s g r' \<and> rs_undelivered s g r' = rs_undelivered s g r \<and>
    rs_pending s g r' = rs_pending s g r \<and> (\<forall>ms. res = Inr ms \<longrightarrow> set ms \<subseteq> set (rs_pending s g r))"
proof (cases "rd_up r \<and> rd_groups r (s, g) \<noteq> None")
  case False
  with assms show ?thesis by (cases "rd_up r") (auto simp: claim_stale_def reference_redis_def rs_xautoclaim_def)
next
  case True
  then have up: "rd_up r" by simp
  from True assms(2) obtain grp where grp: "rd_groups r (s, g) = Some grp"
    "cg_delivered grp \<le> length (rd_streams r s)"
    "fst ` set (cg_pel grp) \<subseteq> fst ` set (take (cg_delivered grp) (rd_streams r s))"
    by (auto elim: ready_cases)
  define ids where "ids = set (map fst (take (nat n) (filter (\<lambda>(_, _, t). idle \<le> rd_now r - t) (cg_pel grp))))"
  define grp' where "grp' = grp\<lparr>cg_pel :=
    map (\<lambda>(i, c', t). if i \<in> ids then (i, c, rd_now r) else (i, c', t)) (cg_pel grp)\<rparr>"
  from up grp(1) assms(1) have r': "r' = r\<lparr>rd_groups := (rd_groups r)((s, g) \<mapsto> grp')\<rparr>"
    and res: "res = Inr (map stream_message_of
      (filter (\<lambda>e. fst e \<in> ids) (take (cg_delivered grp) (rd_streams r s))))"
    by (auto simp: claim_stale_def reference_redis_def rs_xautoclaim_def grp'_def ids_def Let_def)
  have "map fst (cg_pel grp') = map fst (cg_pel grp)" by (auto simp: grp'_def)
  then have pel: "fst ` set (cg_pel grp') = fst ` set (cg_pel grp)" "cg_delivered grp' = cg_delivered grp"
    by (metis list.set_map, simp add: grp'_def)
  have "ids \<subseteq> fst ` set (cg_pel grp)" by (auto simp: ids_def dest!: in_set_takeD)
  then have "set (map stream_message_of (filter (\<lambda>e. fst e \<in> ids) (take (cg_delivered grp) (rd_streams r s))))
      \<subseteq> set (rs_pending s g r)"
    using grp(1) by (auto simp: rs_pending_def)
  moreover have "rs_ready s g r'" using assms(2) grp pel by (simp add: rs_ready_def r')
  moreover have "rs_undelivered s g r' = rs_undelivered s g r" "rs_pending s g r' = rs_pending s g r"
    using grp(1) pel by (simp_all add: rs_undelivered_def rs_pending_def r')
  ultimately show ?thesis using res by blast
qed

interpretation redis_streams: message_broker "ensure_group reference_redis" "publish reference_redis" "consume reference_redis"
  "acknowledge reference_redis" "claim_stale reference_redis" rs_undelivered rs_pending rs_ready
  by unfold_locales
    (fact reference_ensure reference_publish reference_consume reference_acknowledge reference_claim)+

text \<open>The contract of \<open>RedisStreamsBroker\<close> over a Redis client.\<close>

locale redis_broker =
  message_broker "ensure_group R" "publish R" "consume R" "acknowledge R" "claim_stale R" undelivered pending ready
  for R :: "'r redis_client" and undelivered pending ready

interpretation reference: redis_broker reference_redis rs_undelivered rs_pending rs_ready
  by unfold_locales

text \<open>
  The stream is a log: what was added stays, identifiers are not reused, and a group only ever sees entries of the
  log. \<open>MAXLEN\<close> and \<open>XDEL\<close>, which would remove entries, are not used by the code.
\<close>

locale redis_log = redis_broker R undelivered pending ready
  for R :: "'r redis_client" and undelivered pending ready +
  fixes entries :: "string \<Rightarrow> 'r \<Rightarrow> stream_message list"
  assumes log_ids: "ready s g r \<Longrightarrow> distinct (map message_id (entries s r))"
    and log_covers: "ready s g r \<Longrightarrow> set (undelivered s g r) \<union> set (pending s g r) \<subseteq> set (entries s r)"
    and ens_log: "ensure_group R s g r = (eres, r') \<Longrightarrow> set (entries s r) \<subseteq> set (entries s r')"
    and pub_log: "publish R s fs r = (pres, r') \<Longrightarrow> set (entries s r) \<subseteq> set (entries s r')"
    and con_log: "consume R s g c n b r = (cres, r') \<Longrightarrow> set (entries s r) \<subseteq> set (entries s r')"
    and ack_log: "acknowledge R s g i r = (ares, r') \<Longrightarrow> set (entries s r) \<subseteq> set (entries s r')"
    and claim_log: "claim_stale R s g c idle n r = (lres, r') \<Longrightarrow> set (entries s r) \<subseteq> set (entries s r')"
begin

lemma log_id_unique:
  assumes "ready s g r" "m \<in> set (entries s r)" "m' \<in> set (entries s r)" "message_id m = message_id m'"
  shows "m = m'"
  using log_ids [OF assms(1)] assms(2-4) by (auto simp: distinct_map dest: inj_onD)

lemma consumed_in_log:
  assumes "consume R s g c n b r = (Inr ms, r')" "ready s g r"
  shows "set ms \<subseteq> set (entries s r')"
proof -
  from con_law [OF assms] have "ready s g r'" by blast
  from con_pending [OF assms] log_covers [OF this] show ?thesis by blast
qed

lemma claimed_in_log:
  assumes "claim_stale R s g c idle n r = (Inr ms, r')" "ready s g r"
  shows "set ms \<subseteq> set (entries s r')"
  using claim_law [OF assms] log_covers [OF assms(2)] claim_log [OF assms(1)] by blast

end

definition rs_entries :: "string \<Rightarrow> redis \<Rightarrow> stream_message list" where
  "rs_entries s r = map stream_message_of (rd_streams r s)"

lemma rs_entries_covers: "set (rs_undelivered s g r) \<union> set (rs_pending s g r) \<subseteq> set (rs_entries s r)"
  unfolding rs_undelivered_def rs_pending_def rs_entries_def
  by (cases "rd_groups r (s, g)") (auto dest: in_set_dropD in_set_takeD)

lemma reference_ensure_streams: "ensure_group reference_redis s g r = (res, r') \<Longrightarrow> rd_streams r' = rd_streams r"
  by (auto simp: ensure_group_def reference_redis_def rs_xgroup_create_def split: if_splits option.splits)

lemma reference_consume_streams: "consume reference_redis s g c n b r = (res, r') \<Longrightarrow> rd_streams r' = rd_streams r"
  by (auto simp: consume_def reference_redis_def rs_xreadgroup_def Let_def split: if_splits option.splits)

lemma reference_ack_streams: "acknowledge reference_redis s g i r = (res, r') \<Longrightarrow> rd_streams r' = rd_streams r"
  by (auto simp: acknowledge_def reference_redis_def rs_xack_def split: if_splits option.splits)

lemma reference_claim_streams: "claim_stale reference_redis s g c idle n r = (res, r') \<Longrightarrow> rd_streams r' = rd_streams r"
  by (auto simp: claim_stale_def reference_redis_def rs_xautoclaim_def Let_def split: if_splits option.splits)

lemma reference_publish_log:
  "publish reference_redis s fs r = (res, r') \<Longrightarrow> set (rs_entries s r) \<subseteq> set (rs_entries s r')"
  by (auto simp: publish_def reference_redis_def rs_xadd_def Let_def rs_entries_def split: if_splits)

lemma rs_entries_ids: "rs_ready s g r \<Longrightarrow> distinct (map message_id (rs_entries s r))"
  using ready_distinct [of s g r] by (simp add: rs_entries_def stream_message_of_def comp_def)

interpretation reference_log: redis_log reference_redis rs_undelivered rs_pending rs_ready rs_entries
proof unfold_locales
  show "rs_ready s g r \<Longrightarrow> distinct (map message_id (rs_entries s r))" for s g r by (rule rs_entries_ids)
  show "rs_ready s g r \<Longrightarrow> set (rs_undelivered s g r) \<union> set (rs_pending s g r) \<subseteq> set (rs_entries s r)" for s g r
    by (rule rs_entries_covers)
  show "publish reference_redis s fs r = (res, r') \<Longrightarrow> set (rs_entries s r) \<subseteq> set (rs_entries s r')" for s fs r res r'
    by (rule reference_publish_log)
qed (auto simp: rs_entries_def dest: reference_ensure_streams reference_consume_streams reference_ack_streams
    reference_claim_streams)

section \<open>Properties\<close>

text \<open>
  On the reference server, creating a group twice succeeds both times, and after it the
  group sees every message of the stream, also those published before it existed.
\<close>

lemma ensure_group_sees_all:
  assumes "rd_up r" "rd_groups r (stream, grp) = None"
    "map fst (rd_streams r stream) = map entry_id [0..<length (rd_streams r stream)]"
  shows "\<exists>r1. ensure_group reference_redis stream grp r = (Inr (), r1) \<and>
    ensure_group reference_redis stream grp r1 = (Inr (), r1) \<and> rs_ready stream grp r1 \<and>
    rs_undelivered stream grp r1 = map stream_message_of (rd_streams r stream) \<and>
    rs_pending stream grp r1 = []"
proof (intro exI conjI)
  let ?r1 = "r\<lparr>rd_groups := (rd_groups r)((stream, grp) \<mapsto> \<lparr>cg_delivered = 0, cg_pel = []\<rparr>)\<rparr>"
  show "ensure_group reference_redis stream grp r = (Inr (), ?r1)"
    using assms by (simp add: ensure_group_def reference_redis_def rs_xgroup_create_def)
  have "contains ''BUSYGROUP Consumer Group name already exists'' ''BUSYGROUP''" by simp
  then show "ensure_group reference_redis stream grp ?r1 = (Inr (), ?r1)"
    using assms(1) by (simp add: ensure_group_def reference_redis_def rs_xgroup_create_def)
qed (use assms in \<open>simp_all add: rs_ready_def rs_undelivered_def rs_pending_def\<close>)

section \<open>Servers that accept messages\<close>

text \<open>A server that accepts every message of the stream, and stays so.\<close>

definition accepts :: "'r redis_client \<Rightarrow> string \<Rightarrow> ('r \<Rightarrow> bool) \<Rightarrow> bool" where
  "accepts R stream up \<longleftrightarrow> (\<forall>fs r. up r \<longrightarrow> (\<exists>i r'. publish R stream fs r = (Inr i, r') \<and> up r'))"

lemma reference_accepts: "accepts reference_redis stream rd_up"
  by (simp add: accepts_def publish_def reference_redis_def rs_xadd_def Let_def)

end
