(* ===== verification/Outbox_Publisher.thy ===== *)
theory Outbox_Publisher
  imports Database Broker
begin

text \<open>
  The outbox publisher, \<open>apps/worker/eventmesh_worker/outbox_publisher.py\<close>. A batch reads the
  committed database, publishes row by row and commits once at the end; the state is the
  database and the Redis server. The rows another publisher holds locked, the order in which
  the database returns rows with equal \<open>created_at\<close>, and the clocks are arguments.
\<close>

section \<open>Selecting a batch\<close>

definition pending_outbox :: "db \<Rightarrow> outbox_event list" where
  "pending_outbox d = filter (\<lambda>ob. ob_status ob = outbox_status_value OB_PENDING) (outbox_events d)"

definition select_batch :: "(outbox_event list \<Rightarrow> outbox_event list) \<Rightarrow> (uuid \<Rightarrow> bool) \<Rightarrow> nat \<Rightarrow> db \<Rightarrow>
    outbox_event list" where
  "select_batch scan locked batch_size d =
     take batch_size (filter (\<lambda>ob. \<not> locked (ob_id ob)) (sort_key ob_created_at (scan (pending_outbox d))))"

section \<open>Publishing one row\<close>

definition outbox_fields :: "outbox_event \<Rightarrow> fields" where
  "outbox_fields row =
     [(''outbox_id'', str_uuid (ob_id row)), (''payload'', json_dumps (JObj (ob_payload row)))]"

definition published_row :: "datetime \<Rightarrow> outbox_event \<Rightarrow> outbox_event" where
  "published_row now row =
     row\<lparr>ob_status := outbox_status_value OB_PUBLISHED, ob_published_at := Some now\<rparr>"

definition failed_row :: "outbox_event \<Rightarrow> outbox_event" where
  "failed_row row =
     (let n = ob_attempts row + 1 in
      row\<lparr>ob_attempts := n,
          ob_status := outbox_status_value (if n \<ge> 10 then OB_FAILED else OB_PENDING)\<rparr>)"

definition queue_event :: "datetime \<Rightarrow> uuid \<Rightarrow> db \<Rightarrow> db" where
  "queue_event now i d =
     (case get_event_row i d of
        Some ev \<Rightarrow>
          if ev_status ev = event_status_value EV_RECEIVED
          then modify_event i (\<lambda>e. e\<lparr>ev_status := event_status_value EV_QUEUED, ev_updated_at := now\<rparr>) d
          else d
      | None \<Rightarrow> d)"

definition publish_row :: "'r redis_client \<Rightarrow> string \<Rightarrow> datetime \<Rightarrow> datetime \<Rightarrow> outbox_event \<Rightarrow> db \<times> 'r \<Rightarrow> db \<times> 'r" where
  "publish_row R stream now db_now row = (\<lambda>(d, r).
     (case publish R stream (outbox_fields row) r of
        (Inr _, r') \<Rightarrow>
          (queue_event db_now (ob_event_id row) (modify_outbox (ob_id row) (published_row now) d), r')
      | (Inl _, r') \<Rightarrow> (modify_outbox (ob_id row) failed_row d, r')))"

fun publish_rows :: "'r redis_client \<Rightarrow> string \<Rightarrow> (nat \<Rightarrow> datetime) \<Rightarrow> nat \<Rightarrow> datetime \<Rightarrow> outbox_event list \<Rightarrow>
    db \<times> 'r \<Rightarrow> db \<times> 'r" where
  "publish_rows R stream nows k db_now [] st = st"
| "publish_rows R stream nows k db_now (row # rows) st =
     publish_rows R stream nows (Suc k) db_now rows (publish_row R stream (nows k) db_now row st)"

definition publish_batch :: "'r redis_client \<Rightarrow> string \<Rightarrow> nat \<Rightarrow> (outbox_event list \<Rightarrow> outbox_event list) \<Rightarrow>
    (uuid \<Rightarrow> bool) \<Rightarrow> (nat \<Rightarrow> datetime) \<Rightarrow> datetime \<Rightarrow> db \<times> 'r \<Rightarrow> nat \<times> (db \<times> 'r)" where
  "publish_batch R stream batch_size scan locked nows db_now st =
     (let rows = select_batch scan locked batch_size (fst st) in
      if rows = [] then (0, st)
      else (length rows, publish_rows R stream nows 0 db_now rows st))"

section \<open>The publisher's task\<close>

text \<open>
  What \<open>await\<close> does with its operand: a coroutine runs, a bound method that was not called is
  not awaitable. \<open>run_forever\<close> sets its flag and awaits the method \<open>ensure_group\<close> itself; the loop behind it, which would
  take one batch after the other, is never entered and not modelled.
\<close>

datatype awaited = Coroutine | BoundMethod

definition await :: "awaited \<Rightarrow> unit result" where
  "await v = (case v of Coroutine \<Rightarrow> Inr ()
     | BoundMethod \<Rightarrow> Inl (TypeError ''object method cannot be used in an await expression''))"

text \<open>The publisher's own state, as its constructor leaves it.\<close>

record publisher =
  pb_stream_name :: string
  pb_poll_interval :: real
  pb_batch_size :: nat
  pb_running :: bool

definition new_publisher :: "string \<Rightarrow> publisher" where
  "new_publisher stream = \<lparr>pb_stream_name = stream, pb_poll_interval = 1 / 2, pb_batch_size = 50, pb_running = False\<rparr>"

definition publisher_stop :: "publisher \<Rightarrow> publisher" where
  "publisher_stop p = p\<lparr>pb_running := False\<rparr>"

definition run_forever :: "publisher \<Rightarrow> unit result \<times> publisher" where
  "run_forever p = (await BoundMethod, p\<lparr>pb_running := True\<rparr>)"

section \<open>Lemmas\<close>

lemma ob_id_rows [simp]:
  "ob_id (published_row now row) = ob_id row" "ob_id (failed_row row) = ob_id row"
  "ob_event_id (published_row now row) = ob_event_id row" "ob_event_id (failed_row row) = ob_event_id row"
  by (simp_all add: published_row_def failed_row_def Let_def)

lemma outbox_queue_event [simp]: "outbox_events (queue_event now i d) = outbox_events d"
  by (simp add: queue_event_def modify_event_def split: option.split)

lemma get_outbox_queue_event [simp]: "get_outbox j (queue_event now i d) = get_outbox j d"
  by (simp add: get_outbox_def)

lemma db_ok_queue_event [db_ok_intros]: "db_ok d \<Longrightarrow> db_ok (queue_event now i d)"
  by (simp add: queue_event_def db_ok_modify_event split: option.split)

lemma db_ok_publish_row: "db_ok d \<Longrightarrow> db_ok (fst (publish_row R stream now db_now row (d, r)))"
  by (auto simp: publish_row_def split: prod.split sum.split
      intro!: db_ok_queue_event db_ok_modify_outbox)

lemma db_ok_publish_rows:
  "db_ok (fst st) \<Longrightarrow> db_ok (fst (publish_rows R stream nows k db_now rows st))"
proof (induction rows arbitrary: k st)
  case (Cons row rows)
  from Cons.prems have "db_ok (fst (publish_row R stream (nows k) db_now row st))"
    by (cases st) (simp add: db_ok_publish_row)
  with Cons.IH show ?case by simp
qed simp

lemma db_ok_publish_batch:
  "db_ok (fst st) \<Longrightarrow> db_ok (fst (snd (publish_batch R stream n scan locked nows db_now st)))"
  by (simp add: publish_batch_def Let_def db_ok_publish_rows)

lemma select_batch_rows:
  assumes "is_scan scan"
  shows "set (select_batch scan locked n d) \<subseteq> set (pending_outbox d)"
  using is_scan_set [OF assms] by (auto simp: select_batch_def dest!: in_set_takeD)

lemma sort_key_distinct: "distinct (map f (sort_key g xs)) = distinct (map f xs)"
  by (metis mset_map mset_sort mset_eq_imp_distinct_iff)

lemma select_batch_distinct:
  assumes "is_scan scan" "db_ok d"
  shows "distinct (map ob_id (select_batch scan locked n d))"
proof -
  from assms(2) have "distinct (map ob_id (outbox_events d))" by (simp add: db_ok_def keys_ok_def)
  then show ?thesis
    unfolding select_batch_def pending_outbox_def
    by (intro distinct_map_take distinct_map_filter) (simp add: sort_key_distinct distinct_map_scan [OF assms(1)] distinct_map_filter)
qed

lemma select_batch_sorted: "sorted (map ob_created_at (select_batch scan locked n d))"
  unfolding select_batch_def
  by (metis sorted_sort_key sorted_filter sorted_wrt_take take_map)

text \<open>One row: it becomes published or failed, no other row changes.\<close>

lemma get_outbox_modify:
  "(\<And>r. ob_id (f r) = ob_id r) \<Longrightarrow>
   get_outbox j (modify_outbox i f d) = (if j = i then map_option f (get_outbox i d) else get_outbox j d)"
  by (simp add: get_outbox_def outbox_table.get_modified)

lemma publish_row_outbox:
  assumes "publish_row R stream now db_now row (d, r) = (d', r')" "get_outbox (ob_id row) d = Some row"
  shows "get_outbox (ob_id row) d' =
      Some (case fst (publish R stream (outbox_fields row) r) of
              Inr _ \<Rightarrow> published_row now row | Inl _ \<Rightarrow> failed_row row) \<and>
    r' = snd (publish R stream (outbox_fields row) r) \<and>
    (\<forall>j. j \<noteq> ob_id row \<longrightarrow> get_outbox j d' = get_outbox j d)"
  using assms by (auto simp: publish_row_def get_outbox_modify split: prod.splits sum.splits)

lemma publish_row_rest:
  assumes "publish_row R stream now db_now row (d, r) = (d1, r1)" "distinct (map ob_id (row # rows))"
    "\<forall>x \<in> set (row # rows). get_outbox (ob_id x) d = Some x"
  shows "\<forall>x \<in> set rows. get_outbox (ob_id x) d1 = Some x"
proof
  fix x assume x: "x \<in> set rows"
  with assms(2) have "ob_id x \<noteq> ob_id row" by (auto simp: image_iff)
  with publish_row_outbox [OF assms(1)] x assms(3) show "get_outbox (ob_id x) d1 = Some x" by simp
qed

definition is_published :: "uuid \<Rightarrow> db \<Rightarrow> bool" where
  "is_published i d \<longleftrightarrow>
     (\<exists>ob. get_outbox i d = Some ob \<and> ob_status ob = outbox_status_value OB_PUBLISHED)"

lemma failed_row_not_published: "ob_status (failed_row row) \<noteq> outbox_status_value OB_PUBLISHED"
  by (simp add: failed_row_def Let_def)

lemma publish_rows_outbox:
  assumes "publish_rows R stream nows k db_now rows (d, r) = (d', r')" "distinct (map ob_id rows)"
    "\<forall>row \<in> set rows. get_outbox (ob_id row) d = Some row"
  shows "(\<forall>row \<in> set rows. get_outbox (ob_id row) d' = Some (failed_row row) \<or>
            (\<exists>now. get_outbox (ob_id row) d' = Some (published_row now row))) \<and>
    (\<forall>j. j \<notin> ob_id ` set rows \<longrightarrow> get_outbox j d' = get_outbox j d)"
  using assms
proof (induction rows arbitrary: k d r)
  case (Cons row rows)
  obtain d1 r1 where s1: "publish_row R stream (nows k) db_now row (d, r) = (d1, r1)" by fastforce
  note row = publish_row_outbox [OF s1]
  from Cons.prems(3) have now: "get_outbox (ob_id row) d = Some row" by simp
  note kept = publish_row_rest [OF s1 Cons.prems(2,3)]
  have tail: "publish_rows R stream nows (Suc k) db_now rows (d1, r1) = (d', r')"
    using Cons.prems(1) s1 by simp
  note IH = Cons.IH [OF tail _ kept]
  have first: "get_outbox (ob_id row) d' = get_outbox (ob_id row) d1"
    using IH Cons.prems(2) by auto
  show ?case using IH Cons.prems(2) first row [OF now] by (auto split: sum.splits)
qed simp

context redis_broker
begin

lemma publish_rows_log:
  assumes "publish_rows R stream nows k db_now rows (d, r) = (d', r')" "distinct (map ob_id rows)"
    "\<forall>row \<in> set rows. get_outbox (ob_id row) d = Some row" "ready stream g r"
  shows "ready stream g r' \<and> pending stream g r' = pending stream g r \<and>
    (\<exists>ms. undelivered stream g r' = undelivered stream g r @ ms \<and>
       set (map msg_fields ms) \<subseteq> set (map outbox_fields rows) \<and>
       (\<forall>row \<in> set rows. is_published (ob_id row) d' \<longrightarrow> outbox_fields row \<in> msg_fields ` set ms))"
  using assms
proof (induction rows arbitrary: k d r)
  case (Cons row rows)
  obtain res r1 where p: "publish R stream (outbox_fields row) r = (res, r1)" by fastforce
  obtain d1 where s1: "publish_row R stream (nows k) db_now row (d, r) = (d1, r1)"
    using p by (cases res) (simp_all add: publish_row_def)
  from Cons.prems(3) have now: "get_outbox (ob_id row) d = Some row" by simp
  note row = publish_row_outbox [OF s1 now]
  note kept = publish_row_rest [OF s1 Cons.prems(2,3)]
  have tail: "publish_rows R stream nows (Suc k) db_now rows (d1, r1) = (d', r')"
    using Cons.prems(1) s1 by simp
  from pub_law [OF p Cons.prems(4)] obtain m0 where m0: "ready stream g r1"
    "pending stream g r1 = pending stream g r" "undelivered stream g r1 = undelivered stream g r @ m0"
    "\<forall>m \<in> set m0. msg_fields m = outbox_fields row"
    "\<forall>i. res = Inr i \<longrightarrow> m0 = [\<lparr>message_id = i, msg_fields = outbox_fields row\<rparr>]" by blast
  from Cons.prems(2) have dist: "distinct (map ob_id rows)" "ob_id row \<notin> ob_id ` set rows" by simp_all
  from Cons.IH [OF tail dist(1) kept m0(1)] obtain ms where ms: "ready stream g r'"
    "pending stream g r' = pending stream g r1" "undelivered stream g r' = undelivered stream g r1 @ ms"
    "set (map msg_fields ms) \<subseteq> set (map outbox_fields rows)"
    "\<forall>x \<in> set rows. is_published (ob_id x) d' \<longrightarrow> outbox_fields x \<in> msg_fields ` set ms" by blast
  have "get_outbox (ob_id row) d' = get_outbox (ob_id row) d1"
    using publish_rows_outbox [OF tail dist(1) kept] dist(2) by blast
  with row p have first: "get_outbox (ob_id row) d' =
      Some (case res of Inr _ \<Rightarrow> published_row (nows k) row | Inl _ \<Rightarrow> failed_row row)" by (metis fst_conv)
  have pubd: "\<exists>i. res = Inr i" if "is_published (ob_id row) d'"
  proof (cases res)
    case (Inl e)
    with first that failed_row_not_published [of row] show ?thesis unfolding is_published_def by simp
  qed simp
  have covered: "outbox_fields x \<in> msg_fields ` set (m0 @ ms)"
    if "x \<in> set (row # rows)" "is_published (ob_id x) d'" for x
  proof (cases "x = row")
    case True
    with pubd that m0(5) obtain i where "m0 = [\<lparr>message_id = i, msg_fields = outbox_fields row\<rparr>]"
      by blast
    with True show ?thesis by simp
  next
    case False
    with that ms(5) show ?thesis by auto
  qed
  have "set (map msg_fields (m0 @ ms)) \<subseteq> set (map outbox_fields (row # rows))"
    using m0(4) ms(4) by auto
  with covered ms(1-3) m0(2,3) show ?case
    by (intro conjI exI [of _ "m0 @ ms"] ballI impI) simp_all
qed simp

end

lemma batch_rows_current:
  assumes "db_ok d" "is_scan scan" "ob \<in> set (select_batch scan locked n d)"
  shows "get_outbox (ob_id ob) d = Some ob"
  using db_ok_get(4) [OF assms(1)] select_batch_rows [OF assms(2)] assms(3)
  by (fastforce simp: pending_outbox_def)

lemma publish_batch_rows:
  assumes "publish_batch R stream n scan locked nows db_now (d, r) = (k, (d', r'))"
  shows "k = length (select_batch scan locked n d)"
    and "publish_rows R stream nows 0 db_now (select_batch scan locked n d) (d, r) = (d', r')"
  using assms by (auto simp: publish_batch_def Let_def split: if_splits)

lemma outbox_not_pending:
  "ob \<in> set (outbox_events d) \<Longrightarrow> db_ok d \<Longrightarrow> is_scan scan \<Longrightarrow>
   ob \<notin> set (select_batch scan locked n d) \<Longrightarrow> ob_id ob \<notin> ob_id ` set (select_batch scan locked n d)"
  using batch_rows_current [of d scan _ locked n] db_ok_get(4) [of d ob] by fastforce

text \<open>A row that cannot be published stays pending for nine failed attempts and is given up with the tenth.\<close>

lemma failed_row_iterate:
  assumes "0 < k" "ob_attempts ob = 0"
  shows "ob_attempts ((failed_row ^^ k) ob) = int k \<and>
    ob_status ((failed_row ^^ k) ob) = outbox_status_value (if 10 \<le> k then OB_FAILED else OB_PENDING)"
proof -
  have att: "ob_attempts ((failed_row ^^ j) ob) = int j" for j
    using assms(2) by (induction j) (simp_all add: failed_row_def Let_def)
  from assms(1) obtain j where k: "k = Suc j" by (cases k) auto
  with att [of j] att [of k] show ?thesis by (simp add: failed_row_def [of "(failed_row ^^ j) ob"] Let_def)
qed

section \<open>A server that accepts\<close>

lemma publish_rows_accepted:
  assumes "accepts R stream up" "up r" "publish_rows R stream nows k db_now rows (d, r) = (d', r')"
    "distinct (map ob_id rows)" "\<forall>row \<in> set rows. get_outbox (ob_id row) d = Some row"
  shows "up r' \<and> (\<forall>row \<in> set rows. is_published (ob_id row) d')"
  using assms(2-)
proof (induction rows arbitrary: k d r)
  case (Cons row rows)
  from assms(1) Cons.prems(1) obtain i r1 where p: "publish R stream (outbox_fields row) r = (Inr i, r1)" "up r1"
    unfolding accepts_def by blast
  then obtain d1 where s1: "publish_row R stream (nows k) db_now row (d, r) = (d1, r1)"
    by (simp add: publish_row_def)
  from Cons.prems(4) have now: "get_outbox (ob_id row) d = Some row" by simp
  note row = publish_row_outbox [OF s1 now]
  from Cons.prems(3) have dist: "distinct (map ob_id rows)" "ob_id row \<notin> ob_id ` set rows" by simp_all
  note kept = publish_row_rest [OF s1 Cons.prems(3,4)]
  have tail: "publish_rows R stream nows (Suc k) db_now rows (d1, r1) = (d', r')"
    using Cons.prems(2) s1 by simp
  have "get_outbox (ob_id row) d' = get_outbox (ob_id row) d1"
    using publish_rows_outbox [OF tail dist(1) kept] dist(2) by blast
  with row p(1) have "is_published (ob_id row) d'" by (simp add: is_published_def published_row_def)
  with Cons.IH [OF p(2) tail dist(1) kept] show ?case by simp
qed simp

text \<open>A batch over a server that accepts it is published.\<close>

lemma publish_batch_accepted:
  assumes "redis_broker R undelivered pending ready" "accepts R stream up" "up r" "db_ok d" "is_scan scan"
    "ready stream g r" "publish_batch R stream n scan locked nows db_now (d, r) = (k, (d', r'))"
    "batch = select_batch scan locked n d"
  shows "up r'" "db_ok d'" "ready stream g r'" "set (undelivered stream g r) \<subseteq> set (undelivered stream g r')"
    "\<forall>ob \<in> set batch. is_published (ob_id ob) d' \<and>
       (\<exists>m \<in> set (undelivered stream g r'). msg_fields m = outbox_fields ob)"
    "\<forall>i. i \<notin> ob_id ` set batch \<longrightarrow> get_outbox i d' = get_outbox i d"
proof -
  note rows = publish_batch_rows(2) [OF assms(7), folded assms(8)]
  have cur: "\<forall>ob \<in> set batch. get_outbox (ob_id ob) d = Some ob"
    using batch_rows_current [OF assms(4,5)] assms(8) by blast
  have dist: "distinct (map ob_id batch)" using select_batch_distinct [OF assms(5,4)] assms(8) by simp
  note all = publish_rows_accepted [OF assms(2,3) rows dist cur]
  from redis_broker.publish_rows_log [OF assms(1) rows dist cur assms(6)] obtain ms where ms:
    "ready stream g r'" "undelivered stream g r' = undelivered stream g r @ ms"
    "\<forall>ob \<in> set batch. is_published (ob_id ob) d' \<longrightarrow> outbox_fields ob \<in> msg_fields ` set ms" by blast
  from all show "up r'" by simp
  from db_ok_publish_batch [of "(d, r)" R stream n scan locked nows db_now] assms(4,7) show "db_ok d'" by simp
  from ms show "ready stream g r'" "set (undelivered stream g r) \<subseteq> set (undelivered stream g r')" by auto
  from all ms(2,3) show "\<forall>ob \<in> set batch. is_published (ob_id ob) d' \<and>
       (\<exists>m \<in> set (undelivered stream g r'). msg_fields m = outbox_fields ob)"
    by fastforce
  from publish_rows_outbox [OF rows dist cur]
  show "\<forall>i. i \<notin> ob_id ` set batch \<longrightarrow> get_outbox i d' = get_outbox i d" by blast
qed

lemma pending_outbox_iff:
  assumes "db_ok d"
  shows "ob \<in> set (pending_outbox d) \<longleftrightarrow>
    get_outbox (ob_id ob) d = Some ob \<and> ob_status ob = outbox_status_value OB_PENDING"
  using db_ok_get(4) [OF assms] get_row_mem(4) by (auto simp: pending_outbox_def)

section \<open>From a row to its message\<close>

lemma published_has_message:
  assumes "redis_broker R undelivered pending ready" "db_ok d" "is_scan scan" "ready stream g r"
    "publish_batch R stream n scan locked nows now (d, r) = (k, (d', r'))"
    "ob \<in> set (outbox_events d)" "ob_status ob = outbox_status_value OB_PENDING" "is_published (ob_id ob) d'"
  shows "\<exists>m \<in> set (undelivered stream g r'). msg_fields m = outbox_fields ob"
proof -
  define batch where "batch = select_batch scan locked n d"
  note rows = publish_batch_rows(2) [OF assms(5), folded batch_def]
  have cur: "\<forall>x \<in> set batch. get_outbox (ob_id x) d = Some x"
    using batch_rows_current [OF assms(2,3)] by (simp add: batch_def)
  have dist: "distinct (map ob_id batch)" using select_batch_distinct [OF assms(3,2)] by (simp add: batch_def)
  have ob: "get_outbox (ob_id ob) d = Some ob" using db_ok_get(4) [OF assms(2,6)] .
  have "ob_id ob \<in> ob_id ` set batch"
  proof (rule ccontr)
    assume "ob_id ob \<notin> ob_id ` set batch"
    with publish_rows_outbox [OF rows dist cur] ob have "get_outbox (ob_id ob) d' = Some ob" by simp
    with assms(7,8) show False by (simp add: is_published_def)
  qed
  then obtain x where "x \<in> set batch" "ob_id x = ob_id ob" by auto
  with cur ob have "ob \<in> set batch" by (metis option.inject)
  with redis_broker.publish_rows_log [OF assms(1) rows dist cur assms(4)] assms(8) show ?thesis by fastforce
qed

section \<open>Properties\<close>

text \<open>The candidates of a batch, and that it takes the oldest of them.\<close>

definition candidates :: "(uuid \<Rightarrow> bool) \<Rightarrow> db \<Rightarrow> outbox_event list" where
  "candidates locked d = filter (\<lambda>ob. ob_status ob = ''pending'' \<and> \<not> locked (ob_id ob)) (outbox_events d)"

lemma candidates_eq:
  assumes "is_scan scan"
  shows "mset (filter (\<lambda>ob. \<not> locked (ob_id ob)) (sort_key ob_created_at (scan (pending_outbox d)))) = mset (candidates locked d)"
  using assms by (simp add: is_scan_def pending_outbox_def candidates_def filter_filter_mset conj_commute)

lemma select_batch_mem:
  "is_scan scan \<Longrightarrow> set (select_batch scan locked n d) \<subseteq> set (candidates locked d)"
  using mset_eq_setD [OF candidates_eq [of scan locked d]] by (auto simp: select_batch_def dest: in_set_takeD)

lemma select_batch_length:
  assumes "is_scan scan"
  shows "length (select_batch scan locked n d) = min n (length (candidates locked d))"
  using mset_eq_length [OF candidates_eq [OF assms, of locked d]] by (simp add: select_batch_def min.commute)

lemma take_sorted_oldest:
  assumes "sorted (map f xs)" "x \<in> set (take n xs)" "y \<in> set xs" "y \<notin> set (take n xs)"
  shows "f x \<le> f y"
proof -
  have "y \<in> set (drop n xs)" using assms(3,4) by (metis Un_iff append_take_drop_id set_append)
  moreover have "sorted (map f (take n xs) @ map f (drop n xs))" using assms(1) by (simp flip: map_append)
  ultimately show ?thesis using assms(2) by (auto simp: sorted_append)
qed

lemma select_batch_oldest:
  assumes "is_scan scan" "x \<in> set (select_batch scan locked n d)" "y \<in> set (candidates locked d)"
    "y \<notin> set (select_batch scan locked n d)"
  shows "ob_created_at x \<le> ob_created_at y"
proof -
  let ?xs = "filter (\<lambda>ob. \<not> locked (ob_id ob)) (sort_key ob_created_at (scan (pending_outbox d)))"
  have "sorted (map ob_created_at ?xs)" by (rule sorted_filter) simp
  moreover have "y \<in> set ?xs" using assms(3) mset_eq_setD [OF candidates_eq [OF assms(1), of locked d]] by simp
  ultimately show ?thesis using take_sorted_oldest [of ob_created_at ?xs x n y] assms(2,4) by (simp add: select_batch_def)
qed

text \<open>The event of a published row has left RECEIVED.\<close>

definition left_received :: "uuid \<Rightarrow> db \<Rightarrow> bool" where
  "left_received i d \<longleftrightarrow> (\<forall>ev. get_event_row i d = Some ev \<longrightarrow> ev_status ev \<noteq> event_status_value EV_RECEIVED)"

lemma queue_event_left:
  "left_received i (queue_event now i d)" "left_received j d \<Longrightarrow> left_received j (queue_event now i d)"
proof -
  have get: "get_event_row j (modify_event i f d) = (if j = i then map_option f (get_event_row i d) else get_event_row j d)"
    if "\<And>r. ev_id (f r) = ev_id r" for f j
    using event_table.get_modified [of f j i d] that by (simp add: get_event_row_def)
  show "left_received i (queue_event now i d)" "left_received j d \<Longrightarrow> left_received j (queue_event now i d)"
    by (auto simp: left_received_def queue_event_def get split: option.splits if_splits)
qed

lemma left_received_outbox [simp]: "left_received j (modify_outbox i f d) = left_received j d"
  by (simp add: left_received_def get_event_row_def modify_outbox_def)

lemma publish_row_left:
  assumes "publish_row R stream now db_now row (d, r) = (d', r')"
  shows "left_received j d \<Longrightarrow> left_received j d'"
    "fst (publish R stream (outbox_fields row) r) = Inr i \<Longrightarrow> left_received (ob_event_id row) d'"
  using assms queue_event_left
  by (auto simp: publish_row_def split: prod.splits sum.splits)

lemma publish_rows_left:
  assumes "publish_rows R stream nows k db_now rows (d, r) = (d', r')" "distinct (map ob_id rows)"
    "\<forall>row \<in> set rows. get_outbox (ob_id row) d = Some row"
  shows "(\<forall>j. left_received j d \<longrightarrow> left_received j d') \<and>
    (\<forall>row \<in> set rows. is_published (ob_id row) d' \<longrightarrow> left_received (ob_event_id row) d')"
  using assms
proof (induction rows arbitrary: k d r)
  case (Cons row rows)
  obtain d1 r1 where s1: "publish_row R stream (nows k) db_now row (d, r) = (d1, r1)" by fastforce
  from Cons.prems(3) have now: "get_outbox (ob_id row) d = Some row" by simp
  note row = publish_row_outbox [OF s1 now]
  note kept = publish_row_rest [OF s1 Cons.prems(2,3)]
  have tail: "publish_rows R stream nows (Suc k) db_now rows (d1, r1) = (d', r')"
    using Cons.prems(1) s1 by simp
  from Cons.prems(2) have dist: "distinct (map ob_id rows)" "ob_id row \<notin> ob_id ` set rows" by simp_all
  note IH = Cons.IH [OF tail dist(1) kept]
  have "get_outbox (ob_id row) d' = get_outbox (ob_id row) d1"
    using publish_rows_outbox [OF tail dist(1) kept] dist(2) by blast
  then have "left_received (ob_event_id row) d'" if "is_published (ob_id row) d'"
    using that row failed_row_not_published [of row] publish_row_left(2) [OF s1] IH
    by (cases "fst (publish R stream (outbox_fields row) r)") (auto simp: is_published_def)
  with IH publish_row_left(1) [OF s1] show ?case by auto
qed simp

lemma batch_rows_spelled:
  "published_row now ob = ob\<lparr>ob_status := ''published'', ob_published_at := Some now\<rparr>"
  "failed_row ob = ob\<lparr>ob_attempts := ob_attempts ob + 1,
     ob_status := (if ob_attempts ob + 1 \<ge> 10 then ''failed'' else ''pending'')\<rparr>"
  by (simp_all add: published_row_def failed_row_def Let_def)

text \<open>
  C6. One batch of the publisher, over any broker that keeps its contract, whatever publications fail: it takes the
  oldest pending rows that no other session holds, as many as there are up to the batch size. Each of them ends as
  published, with its message waiting in the stream for the consumer group and its event no longer RECEIVED, or with one more
  failed attempt, given up at the tenth; if the server accepts messages, all are published. Every other row is
  untouched, and the stream keeps what it had.
\<close>

theorem publish_batch_outcome:
  assumes "redis_broker R undelivered pending ready" "db_ok d" "is_scan scan" "ready stream g r"
    "publish_batch R stream n scan locked nows db_now (d, r) = (k, (d', r'))"
  shows "\<exists>batch. distinct batch \<and> length batch = k \<and>
    k = min n (length (filter (\<lambda>ob. ob_status ob = ''pending'' \<and> \<not> locked (ob_id ob)) (outbox_events d))) \<and>
    (\<forall>ob \<in> set batch. ob \<in> set (outbox_events d) \<and> ob_status ob = ''pending'' \<and> \<not> locked (ob_id ob) \<and>
       (\<forall>x \<in> set (outbox_events d) - set batch. ob_status x = ''pending'' \<and> \<not> locked (ob_id x) \<longrightarrow>
          ob_created_at ob \<le> ob_created_at x)) \<and>
    (\<forall>ob \<in> set batch.
       get_outbox (ob_id ob) d' = Some (ob\<lparr>ob_attempts := ob_attempts ob + 1,
         ob_status := (if ob_attempts ob + 1 \<ge> 10 then ''failed'' else ''pending'')\<rparr>) \<or>
       (\<exists>now. get_outbox (ob_id ob) d' = Some (ob\<lparr>ob_status := ''published'', ob_published_at := Some now\<rparr>)) \<and>
       (\<exists>m \<in> set (undelivered stream g r').
          msg_fields m = [(''outbox_id'', str_uuid (ob_id ob)), (''payload'', json_dumps (JObj (ob_payload ob)))]) \<and>
       (\<forall>ev. get_event_row (ob_event_id ob) d' = Some ev \<longrightarrow> ev_status ev \<noteq> ''received'')) \<and>
    (\<forall>up. accepts R stream up \<and> up r \<longrightarrow>
       (\<forall>ob \<in> set batch. \<exists>now. get_outbox (ob_id ob) d' = Some (ob\<lparr>ob_status := ''published'', ob_published_at := Some now\<rparr>))) \<and>
    (\<forall>ob \<in> set (outbox_events d) - set batch. get_outbox (ob_id ob) d' = Some ob) \<and>
    (\<exists>ms. undelivered stream g r' = undelivered stream g r @ ms) \<and> pending stream g r' = pending stream g r"
proof -
  define batch where "batch = select_batch scan locked n d"
  note rows = publish_batch_rows [OF assms(5), folded batch_def]
  have cur: "\<forall>ob \<in> set batch. get_outbox (ob_id ob) d = Some ob"
    using batch_rows_current [OF assms(2,3)] by (simp add: batch_def)
  have dist: "distinct (map ob_id batch)" using select_batch_distinct [OF assms(3,2)] by (simp add: batch_def)
  note outbox = publish_rows_outbox [OF rows(2) dist cur]
  from redis_broker.publish_rows_log [OF assms(1) rows(2) dist cur assms(4)] obtain ms where ms:
    "undelivered stream g r' = undelivered stream g r @ ms" "pending stream g r' = pending stream g r"
    "\<forall>ob \<in> set batch. is_published (ob_id ob) d' \<longrightarrow> outbox_fields ob \<in> msg_fields ` set ms" by blast
  have pubd: "is_published (ob_id ob) d'" if "get_outbox (ob_id ob) d' = Some (published_row now ob)" for ob now
    using that by (simp add: is_published_def published_row_def)
  have msg: "\<exists>m \<in> set (undelivered stream g r'). msg_fields m = outbox_fields ob"
    "left_received (ob_event_id ob) d'"
    if "ob \<in> set batch" "get_outbox (ob_id ob) d' = Some (published_row now ob)" for ob now
  proof -
    from ms(1,3) that(1) pubd [OF that(2)] show "\<exists>m \<in> set (undelivered stream g r'). msg_fields m = outbox_fields ob"
      by fastforce
    show "left_received (ob_event_id ob) d'"
      using publish_rows_left [OF rows(2) dist cur] that(1) pubd [OF that(2)] by blast
  qed
  show ?thesis
  proof (intro exI [of _ batch] conjI)
    show "distinct batch" using dist by (simp add: distinct_map)
    show "length batch = k" using rows(1) by simp
    show "k = min n (length (filter (\<lambda>ob. ob_status ob = ''pending'' \<and> \<not> locked (ob_id ob)) (outbox_events d)))"
      using rows(1) select_batch_length [OF assms(3), of locked n d] by (simp add: batch_def candidates_def)
    show "\<forall>ob \<in> set batch. ob \<in> set (outbox_events d) \<and> ob_status ob = ''pending'' \<and> \<not> locked (ob_id ob) \<and>
       (\<forall>x \<in> set (outbox_events d) - set batch. ob_status x = ''pending'' \<and> \<not> locked (ob_id x) \<longrightarrow>
          ob_created_at ob \<le> ob_created_at x)"
      using select_batch_mem [OF assms(3), of locked n d] select_batch_oldest [OF assms(3), of _ locked n d]
      by (auto simp: batch_def candidates_def subset_iff)
    show "\<forall>ob \<in> set batch.
       get_outbox (ob_id ob) d' = Some (ob\<lparr>ob_attempts := ob_attempts ob + 1,
         ob_status := (if ob_attempts ob + 1 \<ge> 10 then ''failed'' else ''pending'')\<rparr>) \<or>
       (\<exists>now. get_outbox (ob_id ob) d' = Some (ob\<lparr>ob_status := ''published'', ob_published_at := Some now\<rparr>)) \<and>
       (\<exists>m \<in> set (undelivered stream g r').
          msg_fields m = [(''outbox_id'', str_uuid (ob_id ob)), (''payload'', json_dumps (JObj (ob_payload ob)))]) \<and>
       (\<forall>ev. get_event_row (ob_event_id ob) d' = Some ev \<longrightarrow> ev_status ev \<noteq> ''received'')"
    proof
      fix ob assume ob: "ob \<in> set batch"
      with outbox consider "get_outbox (ob_id ob) d' = Some (failed_row ob)"
        | now where "get_outbox (ob_id ob) d' = Some (published_row now ob)" by blast
      then show "get_outbox (ob_id ob) d' = Some (ob\<lparr>ob_attempts := ob_attempts ob + 1,
         ob_status := (if ob_attempts ob + 1 \<ge> 10 then ''failed'' else ''pending'')\<rparr>) \<or>
       (\<exists>now. get_outbox (ob_id ob) d' = Some (ob\<lparr>ob_status := ''published'', ob_published_at := Some now\<rparr>)) \<and>
       (\<exists>m \<in> set (undelivered stream g r').
          msg_fields m = [(''outbox_id'', str_uuid (ob_id ob)), (''payload'', json_dumps (JObj (ob_payload ob)))]) \<and>
       (\<forall>ev. get_event_row (ob_event_id ob) d' = Some ev \<longrightarrow> ev_status ev \<noteq> ''received'')"
      proof cases
        case 1
        then show ?thesis unfolding batch_rows_spelled by blast
      next
        case (2 now)
        from msg [OF ob 2] 2 show ?thesis
          unfolding batch_rows_spelled outbox_fields_def left_received_def event_status_value.simps by blast
      qed
    qed
    show "\<forall>up. accepts R stream up \<and> up r \<longrightarrow>
       (\<forall>ob \<in> set batch. \<exists>now. get_outbox (ob_id ob) d' = Some (ob\<lparr>ob_status := ''published'', ob_published_at := Some now\<rparr>))"
    proof (intro allI impI ballI)
      fix up ob assume up: "accepts R stream up \<and> up r" and ob: "ob \<in> set batch"
      with publish_rows_accepted [OF _ _ rows(2) dist cur, of up] have "is_published (ob_id ob) d'" by blast
      with outbox ob failed_row_not_published [of ob] show "\<exists>now. get_outbox (ob_id ob) d' =
          Some (ob\<lparr>ob_status := ''published'', ob_published_at := Some now\<rparr>)"
        unfolding batch_rows_spelled(1) [symmetric] is_published_def by (metis option.inject)
    qed
    show "\<forall>ob \<in> set (outbox_events d) - set batch. get_outbox (ob_id ob) d' = Some ob"
      using outbox outbox_not_pending [OF _ assms(2,3)] db_ok_get(4) [OF assms(2)] by (simp add: batch_def)
    show "\<exists>ms. undelivered stream g r' = undelivered stream g r @ ms" using ms(1) by blast
    show "pending stream g r' = pending stream g r" by (rule ms(2))
  qed
qed

theorem publish_batch_outcome_witness:
  "\<exists>d' r' ob. publish_batch reference_redis ''s'' 50 (\<lambda>xs. xs) (\<lambda>_. False) (\<lambda>_. 7) 7
       (sample_db, \<lparr>rd_streams = (\<lambda>_. []), rd_groups = (\<lambda>_. Some \<lparr>cg_delivered = 0, cg_pel = []\<rparr>), rd_now = 0, rd_up = True\<rparr>) =
       (1, (d', r')) \<and>
     get_outbox (ob_id sample_outbox) d' = Some ob \<and> ob_status ob = ''published''"
proof -
  let ?r = "\<lparr>rd_streams = (\<lambda>_. []), rd_groups = (\<lambda>_. Some \<lparr>cg_delivered = 0, cg_pel = []\<rparr>), rd_now = 0, rd_up = True\<rparr>"
  obtain k d' r' where p: "publish_batch reference_redis ''s'' 50 (\<lambda>xs. xs) (\<lambda>_. False) (\<lambda>_. 7) 7 (sample_db, ?r) = (k, (d', r'))"
    by (metis prod_cases3)
  have ready: "rs_ready ''s'' ''g'' ?r" by (simp add: rs_ready_def)
  have up: "accepts reference_redis ''s'' rd_up \<and> rd_up ?r" using reference_accepts by simp
  have rows: "outbox_events sample_db = [sample_outbox]" "ob_status sample_outbox = ''pending''"
    by (simp_all add: sample_db_def sample_outbox_def)
  from publish_batch_outcome [OF reference.redis_broker_axioms sample_db_ok is_scan_id ready p] obtain batch where b:
    "length batch = k" "k = 1" "\<forall>ob \<in> set batch. ob \<in> set (outbox_events sample_db)"
    "\<forall>ob \<in> set batch. \<exists>now. get_outbox (ob_id ob) d' = Some (ob\<lparr>ob_status := ''published'', ob_published_at := Some now\<rparr>)"
    using up by (auto simp: rows)
  from b(1,2) obtain ob where ob: "batch = [ob]" by (cases batch) auto
  with b(3) rows have "ob = sample_outbox" by simp
  with b(4) ob have "\<exists>ob'. get_outbox (ob_id sample_outbox) d' = Some ob' \<and> ob_status ob' = ''published''" by auto
  with p b(2) show ?thesis by blast
qed

text \<open>
  The publisher's task dies at once: \<open>run_forever\<close> raises TypeError before its first batch.
\<close>

lemma publisher_task_dies: "\<exists>m. run_forever p = (Inl (TypeError m), p\<lparr>pb_running := True\<rparr>)"
  by (simp add: run_forever_def await_def)

end
