(* ===== verification/Retry.thy ===== *)
theory Retry
  imports Prelude
begin

text \<open>
  The retry policies of \<open>packages/common/eventmesh_common/retry.py\<close>: the abstract
  \<open>RetryPolicy\<close> as a locale, its three subclasses as records with their
  \<open>next_delay_seconds\<close>, and the contract the abstract class documents.
\<close>

section \<open>The abstract policy\<close>

text \<open>
  \<open>RetryPolicy\<close>: \<open>next_delay_seconds n\<close> is the delay before attempt \<open>n + 1\<close>, or \<open>None\<close>
  when attempt \<open>n\<close> was the last one.
\<close>

locale retry_policy =
  fixes next_delay :: "int \<Rightarrow> real option result"
    and max_att :: int
  assumes exhausted: "max_att \<le> n \<Longrightarrow> next_delay n = Inr None"
    and not_exhausted: "n < max_att \<Longrightarrow> next_delay n \<noteq> Inr None"
begin

lemma None_iff: "next_delay n = Inr None \<longleftrightarrow> max_att \<le> n"
  using exhausted not_exhausted by (meson not_le)

end

text \<open>A policy that grants a non-negative delay to every attempt but the last, and never raises.\<close>

locale total_retry_policy = retry_policy +
  assumes delay: "1 \<le> n \<Longrightarrow> n < max_att \<Longrightarrow> \<exists>d. next_delay n = Inr (Some d) \<and> 0 \<le> d"
begin

lemma answers: "1 \<le> n \<Longrightarrow> \<exists>r. next_delay n = Inr r"
  using delay [of n] exhausted [of n] by force

end

section \<open>Exponential backoff\<close>

record exponential_backoff_policy =
  base_seconds :: real
  max_delay_seconds :: real
  max_attempts :: int
  jitter_ratio :: real

definition exponential_default :: exponential_backoff_policy where
  "exponential_default =
     \<lparr>base_seconds = 1, max_delay_seconds = 32, max_attempts = 6, jitter_ratio = 1/5\<rparr>"

text \<open>\<open>random.uniform(a, b)\<close> is \<open>a + (b - a) * random()\<close>; \<open>u\<close> is the value of \<open>random()\<close>.\<close>

definition uniform :: "real \<Rightarrow> real \<Rightarrow> real \<Rightarrow> real" where
  "uniform u a b = a + (b - a) * u"

text \<open>
  \<open>base * 2 ** k\<close> with \<open>base\<close> a float and \<open>k\<close> an int: a negative power is a float, a
  non-negative one an exact integer, converted to float for the product, which raises
  OverflowError from \<open>2 ** 1024\<close> on.
\<close>

definition float_mul_pow2 :: "real \<Rightarrow> int \<Rightarrow> real result" where
  "float_mul_pow2 b k =
     (if k \<ge> 1024 then Inl (OverflowError ''int too large to convert to float'')
      else Inr (b * 2 powi k))"

definition exp_raw_delay :: "exponential_backoff_policy \<Rightarrow> int \<Rightarrow> real" where
  "exp_raw_delay p n = min (max_delay_seconds p) (base_seconds p * 2 powi (n - 1))"

definition exp_next_delay_seconds ::
    "exponential_backoff_policy \<Rightarrow> real \<Rightarrow> int \<Rightarrow> real option result" where
  "exp_next_delay_seconds p u attempt_number =
     (if attempt_number \<ge> max_attempts p then Inr None
      else rbind (float_mul_pow2 (base_seconds p) (attempt_number - 1)) (\<lambda>x.
        let raw = min (max_delay_seconds p) x in
        if jitter_ratio p \<le> 0 then Inr (Some raw)
        else let low = raw * (1 - jitter_ratio p);
                 high = raw * (1 + jitter_ratio p)
             in Inr (Some (max 0 (uniform u low high)))))"

section \<open>Fixed and linear backoff\<close>

record fixed_backoff_policy =
  fx_delay_seconds :: real
  fx_max_attempts :: int

definition fixed_next_delay_seconds :: "fixed_backoff_policy \<Rightarrow> int \<Rightarrow> real option result" where
  "fixed_next_delay_seconds p n =
     (if n \<ge> fx_max_attempts p then Inr None else Inr (Some (fx_delay_seconds p)))"

record linear_backoff_policy =
  ln_base_seconds :: real
  ln_max_attempts :: int

definition linear_next_delay_seconds :: "linear_backoff_policy \<Rightarrow> int \<Rightarrow> real option result" where
  "linear_next_delay_seconds p n =
     (if n \<ge> ln_max_attempts p then Inr None else Inr (Some (ln_base_seconds p * of_int n)))"

definition fixed_default :: fixed_backoff_policy where
  "fixed_default = \<lparr>fx_delay_seconds = 5, fx_max_attempts = 6\<rparr>"

definition linear_default :: linear_backoff_policy where
  "linear_default = \<lparr>ln_base_seconds = 2, ln_max_attempts = 6\<rparr>"

section \<open>Every policy implements the abstract one\<close>

lemma exp_next_delay_cases:
  "exp_next_delay_seconds p u n =
     (if n \<ge> max_attempts p then Inr None
      else if n \<ge> 1025 then Inl (OverflowError ''int too large to convert to float'')
      else if jitter_ratio p \<le> 0 then Inr (Some (exp_raw_delay p n))
      else Inr (Some (max 0 (uniform u (exp_raw_delay p n * (1 - jitter_ratio p))
                                       (exp_raw_delay p n * (1 + jitter_ratio p))))))"
  by (simp add: exp_next_delay_seconds_def float_mul_pow2_def exp_raw_delay_def Let_def)

interpretation exponential: retry_policy "exp_next_delay_seconds p u" "max_attempts p"
  for p u
  by unfold_locales (auto simp: exp_next_delay_cases)

interpretation fixed: retry_policy "fixed_next_delay_seconds p" "fx_max_attempts p" for p
  by unfold_locales (auto simp: fixed_next_delay_seconds_def)

interpretation linear: retry_policy "linear_next_delay_seconds p" "ln_max_attempts p" for p
  by unfold_locales (auto simp: linear_next_delay_seconds_def)

lemma exp_raw_delay_nonneg:
  "0 \<le> base_seconds p \<Longrightarrow> 0 \<le> max_delay_seconds p \<Longrightarrow> 0 \<le> exp_raw_delay p n"
  by (simp add: exp_raw_delay_def)

lemma total_exponentialI:
  assumes "0 \<le> base_seconds p" "0 \<le> max_delay_seconds p" "max_attempts p \<le> 1025"
  shows "total_retry_policy (exp_next_delay_seconds p u) (max_attempts p)"
  using assms exp_raw_delay_nonneg [OF assms(1,2)]
  by unfold_locales (auto simp: exp_next_delay_cases)

interpretation exponential_dflt:
  total_retry_policy "exp_next_delay_seconds exponential_default u" 6 for u
  using total_exponentialI [of exponential_default u] by (simp add: exponential_default_def)

interpretation fixed_dflt: total_retry_policy "fixed_next_delay_seconds fixed_default" 6
  by unfold_locales (auto simp: fixed_next_delay_seconds_def fixed_default_def)

interpretation linear_dflt: total_retry_policy "linear_next_delay_seconds linear_default" 6
  by unfold_locales (auto simp: linear_next_delay_seconds_def linear_default_def)

section \<open>Properties\<close>

lemma exp_raw_delay_mono:
  assumes "0 \<le> base_seconds p"
  shows "exp_raw_delay p n \<le> exp_raw_delay p (n + 1)"
proof -
  have "2 powi (n + 1 - 1) = 2 * (2 powi (n - 1) :: real)"
    using power_int_add_1' [of "2::real" "n - 1"] by (simp add: algebra_simps)
  moreover have "0 \<le> (2 powi (n - 1) :: real)" by simp
  ultimately have "base_seconds p * 2 powi (n - 1) \<le> base_seconds p * 2 powi (n + 1 - 1)"
    using assms by (intro mult_left_mono) linarith+
  then show ?thesis by (simp add: exp_raw_delay_def min.coboundedI2 min_le_iff_disj)
qed

lemma uniform_bounds:
  assumes "0 \<le> u" "u \<le> 1" "a \<le> b"
  shows "a \<le> uniform u a b" "uniform u a b \<le> b"
proof -
  have "0 \<le> (b - a) * u" "(b - a) * u \<le> (b - a) * 1"
    using assms mult_left_mono [OF assms(2), of "b - a"] by simp_all
  then show "a \<le> uniform u a b" "uniform u a b \<le> b" by (simp_all add: uniform_def)
qed

text \<open>
  All three policies grant a further attempt exactly while the configured number of
  attempts is not used up, whatever the random number.
\<close>

lemma retry_policies_stop_at_max:
  "(exp_next_delay_seconds pe u n = Inr None \<longleftrightarrow> max_attempts pe \<le> n) \<and>
   (fixed_next_delay_seconds pf n = Inr None \<longleftrightarrow> fx_max_attempts pf \<le> n) \<and>
   (linear_next_delay_seconds pl n = Inr None \<longleftrightarrow> ln_max_attempts pl \<le> n)"
  by (simp add: exponential.None_iff fixed.None_iff linear.None_iff)

text \<open>
  A delay of the exponential policy lies within the jitter band around the capped
  exponential value, which never exceeds the configured maximum and never decreases from one
  attempt to the next.
\<close>

lemma exponential_delay_in_band:
  assumes "0 \<le> u" "u \<le> 1" "0 \<le> base_seconds p" "0 \<le> max_delay_seconds p"
    "0 \<le> jitter_ratio p" "jitter_ratio p \<le> 1"
    and "exp_next_delay_seconds p u n = Inr (Some d)"
  shows "exp_raw_delay p n * (1 - jitter_ratio p) \<le> d \<and> d \<le> exp_raw_delay p n * (1 + jitter_ratio p) \<and>
    exp_raw_delay p n \<le> max_delay_seconds p \<and> exp_raw_delay p n \<le> exp_raw_delay p (n + 1) \<and> 0 \<le> d"
proof -
  let ?raw = "exp_raw_delay p n"
  have raw: "0 \<le> ?raw" using assms by (simp add: exp_raw_delay_nonneg)
  have low: "0 \<le> ?raw * (1 - jitter_ratio p)" using raw assms by simp
  have le: "?raw * (1 - jitter_ratio p) \<le> ?raw * (1 + jitter_ratio p)"
    using raw assms by (intro mult_left_mono) auto
  have "?raw * (1 - jitter_ratio p) \<le> d \<and> d \<le> ?raw * (1 + jitter_ratio p) \<and> 0 \<le> d"
    using assms(5,7) raw low uniform_bounds [OF assms(1,2) le]
    by (auto simp: exp_next_delay_cases split: if_splits)
  moreover have "?raw \<le> max_delay_seconds p" by (simp add: exp_raw_delay_def)
  ultimately show ?thesis using exp_raw_delay_mono [OF assms(3)] by blast
qed

text \<open>
  C36. The delays of the exponential policy, for a base and a cap that are not negative, a jitter of at most the delay itself and
  a limit on attempts below the range where Python's float conversion overflows: after attempt \<open>n\<close>
  there is no further attempt exactly if the limit is reached; otherwise the delay is, within the jitter
  to both sides, the base doubled \<open>n - 1\<close> times, and no more than the cap.
\<close>

theorem exponential_delay_bounds:
  assumes "1 \<le> n" "0 \<le> base_seconds p" "0 \<le> max_delay_seconds p" "0 \<le> jitter_ratio p" "jitter_ratio p \<le> 1"
    "max_attempts p \<le> 1025" "0 \<le> u" "u \<le> 1"
  shows "(n \<ge> max_attempts p \<longrightarrow> exp_next_delay_seconds p u n = Inr None) \<and>
    (n < max_attempts p \<longrightarrow> (\<exists>d. exp_next_delay_seconds p u n = Inr (Some d) \<and>
       min (max_delay_seconds p) (base_seconds p * 2 ^ nat (n - 1)) * (1 - jitter_ratio p) \<le> d \<and>
       d \<le> min (max_delay_seconds p) (base_seconds p * 2 ^ nat (n - 1)) * (1 + jitter_ratio p)))"
proof (intro conjI impI)
  assume "n < max_attempts p"
  with total_retry_policy.delay [OF total_exponentialI [OF assms(2,3,6)] assms(1), of u]
  obtain d where d: "exp_next_delay_seconds p u n = Inr (Some d)" by blast
  have raw: "exp_raw_delay p n = min (max_delay_seconds p) (base_seconds p * 2 ^ nat (n - 1))"
    using assms(1) by (simp add: exp_raw_delay_def power_int_def)
  from exponential_delay_in_band [OF assms(7,8,2,3,4,5) d] d
  show "\<exists>d. exp_next_delay_seconds p u n = Inr (Some d) \<and>
       min (max_delay_seconds p) (base_seconds p * 2 ^ nat (n - 1)) * (1 - jitter_ratio p) \<le> d \<and>
       d \<le> min (max_delay_seconds p) (base_seconds p * 2 ^ nat (n - 1)) * (1 + jitter_ratio p)"
    unfolding raw by blast
qed (simp add: exponential.exhausted)

theorem exponential_delay_bounds_witness:
  "\<exists>d. exp_next_delay_seconds exponential_default (3/4) 3 = Inr (Some d) \<and> 16/5 \<le> d \<and> d \<le> 24/5"
  using exponential_delay_bounds [of 3 exponential_default "3/4"] by (simp add: exponential_default_def)

text \<open>
  With jitter switched off the default policy waits 1, 2, 4, 8 and 16 seconds and then
  gives up: the cap of 32 seconds is never reached within six attempts.
\<close>

lemma exponential_default_delays:
  "map (exp_next_delay_seconds (exponential_default\<lparr>jitter_ratio := 0\<rparr>) u) [1, 2, 3, 4, 5, 6] =
     [Inr (Some 1), Inr (Some 2), Inr (Some 4), Inr (Some 8), Inr (Some 16), Inr None]"
  by (simp add: exp_next_delay_cases exponential_default_def exp_raw_delay_def)

end
