(* ===== verification/Circuit_Breaker.thy ===== *)
theory Circuit_Breaker
  imports Enums
begin

text \<open>
  The circuit breaker of \<open>packages/common/eventmesh_common/circuit_breaker.py\<close>. The clock is
  an argument of the operations that read it.
\<close>

section \<open>State and operations\<close>

record circuit_breaker_state =
  state :: circuit_state
  consecutive_failures :: int
  opened_at :: "real option"
  half_open_probe_in_flight :: bool

definition initial_state :: circuit_breaker_state where
  "initial_state =
     \<lparr>state = CLOSED, consecutive_failures = 0, opened_at = None,
      half_open_probe_in_flight = False\<rparr>"

record circuit_breaker =
  failure_threshold :: int
  open_duration_seconds :: real
  half_open_max_requests :: int
  cb_state :: circuit_breaker_state

definition circuit_breaker_default :: circuit_breaker where
  "circuit_breaker_default =
     \<lparr>failure_threshold = 5, open_duration_seconds = 30, half_open_max_requests = 1,
      cb_state = initial_state\<rparr>"

definition transition_to_open :: "real \<Rightarrow> circuit_breaker_state \<Rightarrow> circuit_breaker_state" where
  "transition_to_open now s =
     s\<lparr>state := OPEN, opened_at := Some now, half_open_probe_in_flight := False\<rparr>"

definition transition_to_half_open :: "circuit_breaker_state \<Rightarrow> circuit_breaker_state" where
  "transition_to_half_open s = s\<lparr>state := HALF_OPEN, half_open_probe_in_flight := False\<rparr>"

definition transition_to_closed :: "circuit_breaker_state \<Rightarrow> circuit_breaker_state" where
  "transition_to_closed s =
     s\<lparr>state := CLOSED, consecutive_failures := 0, opened_at := None,
       half_open_probe_in_flight := False\<rparr>"

text \<open>
  \<open>allow_request\<close> calls itself after moving from OPEN to HALF_OPEN; the state is never OPEN
  again in that call.
\<close>

function allow_request :: "real \<Rightarrow> real \<Rightarrow> circuit_breaker_state \<Rightarrow>
    bool \<times> circuit_breaker_state" where
  "allow_request dur now s =
     (case state s of
        CLOSED \<Rightarrow> (True, s)
      | OPEN \<Rightarrow>
          (case opened_at s of
             None \<Rightarrow> (False, s)
           | Some t \<Rightarrow>
               if now - t \<ge> dur then allow_request dur now (transition_to_half_open s)
               else (False, s))
      | HALF_OPEN \<Rightarrow>
          if half_open_probe_in_flight s then (False, s)
          else (True, s\<lparr>half_open_probe_in_flight := True\<rparr>))"
  by pat_completeness auto
termination
  by (relation "measure (\<lambda>(dur, now, s). if state s = OPEN then 1 else 0)")
    (auto simp: transition_to_half_open_def)

declare allow_request.simps [simp del]

definition record_success :: "circuit_breaker_state \<Rightarrow> circuit_breaker_state" where
  "record_success s =
     (if state s = HALF_OPEN then transition_to_closed s
      else s\<lparr>consecutive_failures := 0, state := CLOSED\<rparr>)"

definition record_failure :: "int \<Rightarrow> real \<Rightarrow> circuit_breaker_state \<Rightarrow> circuit_breaker_state" where
  "record_failure threshold now s =
     (if state s = HALF_OPEN then transition_to_open now s
      else let s' = s\<lparr>consecutive_failures := consecutive_failures s + 1\<rparr> in
        if consecutive_failures s' \<ge> threshold then transition_to_open now s' else s')"

text \<open>The methods on the breaker object.\<close>

definition cb_allow_request :: "real \<Rightarrow> circuit_breaker \<Rightarrow> bool \<times> circuit_breaker" where
  "cb_allow_request now cb =
     (case allow_request (open_duration_seconds cb) now (cb_state cb) of
        (ok, s) \<Rightarrow> (ok, cb\<lparr>cb_state := s\<rparr>))"

definition cb_record_success :: "circuit_breaker \<Rightarrow> circuit_breaker" where
  "cb_record_success cb = cb\<lparr>cb_state := record_success (cb_state cb)\<rparr>"

definition cb_record_failure :: "real \<Rightarrow> circuit_breaker \<Rightarrow> circuit_breaker" where
  "cb_record_failure now cb =
     cb\<lparr>cb_state := record_failure (failure_threshold cb) now (cb_state cb)\<rparr>"

section \<open>Case equations\<close>

lemmas transition_defs =
  transition_to_open_def transition_to_half_open_def transition_to_closed_def

lemma allow_request_closed: "state s = CLOSED \<Longrightarrow> allow_request dur now s = (True, s)"
  by (simp add: allow_request.simps)

lemma allow_request_half_open:
  "state s = HALF_OPEN \<Longrightarrow>
     allow_request dur now s =
       (if half_open_probe_in_flight s then (False, s)
        else (True, s\<lparr>half_open_probe_in_flight := True\<rparr>))"
  by (simp add: allow_request.simps)

lemma allow_request_open:
  "state s = OPEN \<Longrightarrow>
     allow_request dur now s =
       (case opened_at s of
          None \<Rightarrow> (False, s)
        | Some t \<Rightarrow>
            if now - t \<ge> dur
            then (True, s\<lparr>state := HALF_OPEN, half_open_probe_in_flight := True\<rparr>)
            else (False, s))"
  by (subst allow_request.simps)
    (auto simp: allow_request_half_open transition_to_half_open_def split: option.split)

lemmas allow_request_cases = allow_request_closed allow_request_half_open allow_request_open

section \<open>Well-formed states\<close>

text \<open>
  What the operations keep true of a breaker with threshold \<open>th\<close> at time \<open>now\<close>: an open
  breaker knows since when, in the past; only a half-open one has a probe in flight; the
  breaker is closed exactly while it has fewer failures in a row than the threshold.
\<close>

definition cb_wf :: "int \<Rightarrow> real \<Rightarrow> circuit_breaker_state \<Rightarrow> bool" where
  "cb_wf th now s \<longleftrightarrow>
     (state s = OPEN \<longrightarrow> opened_at s \<noteq> None) \<and>
     (\<forall>t. opened_at s = Some t \<longrightarrow> t \<le> now) \<and>
     (half_open_probe_in_flight s \<longrightarrow> state s = HALF_OPEN) \<and>
     0 \<le> consecutive_failures s \<and>
     (state s = CLOSED \<longleftrightarrow> consecutive_failures s < th)"

datatype cb_op = Allow | Success | Failure

text \<open>One call at time \<open>now\<close>; the answer of \<open>allow_request\<close> is the label's result.\<close>

fun cb_apply :: "int \<Rightarrow> real \<Rightarrow> cb_op \<Rightarrow> real \<Rightarrow> circuit_breaker_state \<Rightarrow>
    bool option \<times> circuit_breaker_state" where
  "cb_apply th dur Allow now s =
     (case allow_request dur now s of (ok, s') \<Rightarrow> (Some ok, s'))"
| "cb_apply th dur Success now s = (None, record_success s)"
| "cb_apply th dur Failure now s = (None, record_failure th now s)"

text \<open>Runs: calls in time order, with the answers of the \<open>allow_request\<close> calls.\<close>

inductive cb_run :: "int \<Rightarrow> real \<Rightarrow> real \<Rightarrow> circuit_breaker_state \<Rightarrow>
    (cb_op \<times> real \<times> bool option) list \<Rightarrow> real \<Rightarrow> circuit_breaker_state \<Rightarrow> bool"
  for th dur where
  run_nil: "cb_run th dur t s [] t s"
| run_step: "cb_run th dur t s tr t' s' \<Longrightarrow> t' \<le> now \<Longrightarrow>
    cb_apply th dur op now s' = (ans, s'') \<Longrightarrow>
    cb_run th dur t s (tr @ [(op, now, ans)]) now s''"

inductive_cases cb_run_NilE: "cb_run th dur t s [] t' s'"
inductive_cases cb_run_snocE: "cb_run th dur t s (tr @ [x]) t' s'"

lemma cb_wf_initial: "0 < th \<Longrightarrow> cb_wf th now initial_state"
  by (simp add: cb_wf_def initial_state_def)

lemma cb_wf_later: "cb_wf th now s \<Longrightarrow> now \<le> now' \<Longrightarrow> cb_wf th now' s"
  by (force simp: cb_wf_def)

lemma cb_wf_allow: "cb_wf th now s \<Longrightarrow> cb_wf th now (snd (allow_request dur now s))"
  by (cases "state s")
    (auto simp: allow_request_cases cb_wf_def split: option.split)

lemma cb_wf_success: "0 < th \<Longrightarrow> cb_wf th now s \<Longrightarrow> cb_wf th now (record_success s)"
  by (auto simp: record_success_def cb_wf_def transition_defs)

lemma cb_wf_failure: "cb_wf th now s \<Longrightarrow> cb_wf th now (record_failure th now s)"
  by (cases "state s") (auto simp: record_failure_def cb_wf_def transition_defs Let_def)

lemma cb_wf_apply:
  assumes "0 < th" "cb_wf th now s"
  shows "cb_wf th now (snd (cb_apply th dur op now s))"
  using assms cb_wf_allow [OF assms(2), of dur]
  by (cases op) (auto simp: cb_wf_success cb_wf_failure split: prod.splits)

lemma cb_run_wf:
  assumes "cb_run th dur t s tr t' s'" "0 < th" "cb_wf th t s"
  shows "cb_wf th t' s' \<and> t \<le> t'"
  using assms
proof (induction rule: cb_run.induct)
  case (run_step t s tr t' s' now op ans s'')
  then have "cb_wf th now s'" using cb_wf_later by blast
  from cb_wf_apply [OF _ this, of dur op] run_step show ?case by simp
qed simp

section \<open>Abstract specification\<close>

text \<open>
  The three-state machine the design documents describe: closed with a count of failures in
  a row, open since a time, half-open with or without its one probe.
\<close>

datatype breaker = Closed int | Open_since real | Half_open bool

fun spec_allow :: "real \<Rightarrow> real \<Rightarrow> breaker \<Rightarrow> bool \<times> breaker" where
  "spec_allow dur now (Closed n) = (True, Closed n)"
| "spec_allow dur now (Open_since t) =
     (if t + dur \<le> now then (True, Half_open True) else (False, Open_since t))"
| "spec_allow dur now (Half_open probe) = (\<not> probe, Half_open True)"

fun spec_success :: "breaker \<Rightarrow> breaker" where
  "spec_success b = Closed 0"

fun spec_failure :: "int \<Rightarrow> real \<Rightarrow> breaker \<Rightarrow> breaker" where
  "spec_failure th now (Closed n) = (if n + 1 \<ge> th then Open_since now else Closed (n + 1))"
| "spec_failure th now (Half_open probe) = Open_since now"
| "spec_failure th now (Open_since t) = Open_since now"

definition abs_breaker :: "circuit_breaker_state \<Rightarrow> breaker" where
  "abs_breaker s =
     (case state s of
        CLOSED \<Rightarrow> Closed (consecutive_failures s)
      | OPEN \<Rightarrow> Open_since (the (opened_at s))
      | HALF_OPEN \<Rightarrow> Half_open (half_open_probe_in_flight s))"

lemma abs_allow:
  "cb_wf th now s \<Longrightarrow>
     spec_allow dur now (abs_breaker s) =
       (fst (allow_request dur now s), abs_breaker (snd (allow_request dur now s)))"
  by (cases "state s") (auto simp: abs_breaker_def allow_request_cases cb_wf_def)

lemma abs_failure:
  "cb_wf th now s \<Longrightarrow> abs_breaker (record_failure th now s) = spec_failure th now (abs_breaker s)"
  by (cases "state s")
    (auto simp: abs_breaker_def record_failure_def cb_wf_def transition_defs Let_def)

lemma abs_success: "abs_breaker (record_success s) = spec_success (abs_breaker s)"
  by (simp add: record_success_def abs_breaker_def transition_to_closed_def)

text \<open>The abstract machine replays a trace and checks the answers on the way.\<close>

fun spec_replay :: "int \<Rightarrow> real \<Rightarrow> breaker \<Rightarrow> (cb_op \<times> real \<times> bool option) list \<Rightarrow> breaker option" where
  "spec_replay th dur b [] = Some b"
| "spec_replay th dur b ((Allow, now, ans) # tr) =
     (case spec_allow dur now b of
        (ok, b') \<Rightarrow> if ans = Some ok then spec_replay th dur b' tr else None)"
| "spec_replay th dur b ((Success, now, ans) # tr) =
     (if ans = None then spec_replay th dur (spec_success b) tr else None)"
| "spec_replay th dur b ((Failure, now, ans) # tr) =
     (if ans = None then spec_replay th dur (spec_failure th now b) tr else None)"

lemma spec_replay_snoc:
  "spec_replay th dur b (tr @ [x]) =
     (case spec_replay th dur b tr of None \<Rightarrow> None | Some b' \<Rightarrow> spec_replay th dur b' [x])"
  by (induction th dur b tr rule: spec_replay.induct) (auto split: prod.splits)

lemma spec_replay_step:
  assumes "cb_wf th now s" "cb_apply th dur op now s = (ans, s')"
  shows "spec_replay th dur (abs_breaker s) [(op, now, ans)] = Some (abs_breaker s')"
  using assms abs_allow [OF assms(1), of dur] abs_failure [OF assms(1)] abs_success [of s]
  by (cases op) (auto split: prod.splits)

lemma cb_run_refines:
  assumes "cb_run th dur t s tr t' s'" "0 < th" "cb_wf th t s"
  shows "spec_replay th dur (abs_breaker s) tr = Some (abs_breaker s')"
  using assms
proof (induction rule: cb_run.induct)
  case (run_step t s tr t' s' now op ans s'')
  have "cb_wf th now s'" using cb_run_wf [OF run_step.hyps(1)] run_step cb_wf_later by blast
  with spec_replay_step run_step show ?case by (simp add: spec_replay_snoc)
qed simp

text \<open>Runs that only ask.\<close>

definition only_asks :: "(cb_op \<times> real \<times> bool option) list \<Rightarrow> bool" where
  "only_asks tr = list_all (\<lambda>(op, _). op = Allow) tr"

definition admitted_times :: "(cb_op \<times> real \<times> bool option) list \<Rightarrow> real list" where
  "admitted_times tr = map (\<lambda>(_, now, _). now) (filter (\<lambda>(_, _, ans). ans = Some True) tr)"

definition times_from :: "real \<Rightarrow> (cb_op \<times> real \<times> bool option) list \<Rightarrow> real list" where
  "times_from t tr = filter (\<lambda>now. t \<le> now) (map (\<lambda>(_, now, _). now) tr)"

lemma times_from_snoc:
  "times_from t (tr @ [(op, now, ans)]) = times_from t tr @ (if t \<le> now then [now] else [])"
  by (simp add: times_from_def)

lemma admitted_times_snoc:
  "admitted_times (tr @ [(op, now, ans)]) = admitted_times tr @ (if ans = Some True then [now] else [])"
  by (simp add: admitted_times_def)

lemma open_run_state:
  assumes "cb_run th dur t s tr t' s'" "state s = OPEN" "opened_at s = Some t0" "only_asks tr"
  shows "(if times_from (t0 + dur) tr = [] then s' = s
      else s' = s\<lparr>state := HALF_OPEN, half_open_probe_in_flight := True\<rparr>) \<and>
    admitted_times tr = take 1 (times_from (t0 + dur) tr)"
  using assms
proof (induction rule: cb_run.induct)
  case (run_step t s tr t' s' now op ans s'')
  then have op: "op = Allow" and asks: "only_asks tr" by (simp_all add: only_asks_def)
  note IH = run_step.IH [OF run_step.prems(1,2) asks]
  have late: "t0 + dur \<le> now \<longleftrightarrow> dur \<le> now - t0" by auto
  show ?case
  proof (cases "times_from (t0 + dur) tr = []")
    case True
    with IH run_step op show ?thesis
      by (auto simp: allow_request_open times_from_snoc admitted_times_snoc late split: if_splits)
  next
    case False
    then obtain x xs where tf: "times_from (t0 + dur) tr = x # xs"
      by (cases "times_from (t0 + dur) tr") auto
    with IH have s': "s' = s\<lparr>state := HALF_OPEN, half_open_probe_in_flight := True\<rparr>"
      and adm: "admitted_times tr = [x]" by simp_all
    from s' run_step.hyps op have "ans = Some False" "s'' = s'"
      by (simp_all add: allow_request_half_open)
    with s' adm tf show ?thesis by (simp add: times_from_snoc admitted_times_snoc)
  qed
qed (simp_all add: times_from_def admitted_times_def)

lemma failures_in_a_row:
  assumes "0 < th" "state s = CLOSED" "consecutive_failures s < th"
    "s' = foldl (\<lambda>s now. record_failure th now s) s ts"
  shows "consecutive_failures s' = consecutive_failures s + int (length ts) \<and>
    (if consecutive_failures s + int (length ts) < th then state s' = CLOSED
     else state s' = OPEN \<and> opened_at s' = Some (last ts))"
  using assms(4)
proof (induction ts arbitrary: s' rule: rev_induct)
  case Nil
  with assms show ?case by simp
next
  case (snoc now ts)
  define m where "m = foldl (\<lambda>s now. record_failure th now s) s ts"
  from snoc.IH [OF m_def] have IH:
    "consecutive_failures m = consecutive_failures s + int (length ts)"
    "state m \<noteq> HALF_OPEN"
    "consecutive_failures s + int (length ts) < th \<Longrightarrow> state m = CLOSED"
    "\<not> consecutive_failures s + int (length ts) < th \<Longrightarrow> state m = OPEN"
    by (auto split: if_splits)
  from snoc.prems have "s' = record_failure th now m" by (simp add: m_def)
  with IH show ?case by (auto simp: record_failure_def transition_to_open_def Let_def)
qed

section \<open>Properties\<close>

text \<open>
  C16. Refinement: for every run of a fresh breaker with a positive threshold, the abstract
  three-state machine gives the same answers to the same calls and ends in the
  corresponding state.
\<close>

theorem breaker_refines_machine:
  assumes "cb_run th dur t initial_state tr t' s'" "0 < th"
  shows "spec_replay th dur (Closed 0) tr = Some (abs_breaker s')"
proof -
  have "abs_breaker initial_state = Closed 0" by (simp add: abs_breaker_def initial_state_def)
  with cb_run_refines [OF assms cb_wf_initial [OF assms(2)]] show ?thesis by simp
qed

theorem breaker_refines_machine_witness:
  "spec_replay 1 30 (Closed 0) [(Failure, 2, None), (Allow, 5, Some False)] = Some (Open_since 2)"
proof -
  let ?s = "transition_to_open 2 (initial_state\<lparr>consecutive_failures := 1\<rparr>)"
  have f: "cb_apply 1 30 Failure 2 initial_state = (None, ?s)"
    by (simp add: record_failure_def initial_state_def transition_to_open_def)
  have a: "cb_apply 1 30 Allow 5 ?s = (Some False, ?s)"
    by (simp add: allow_request_open transition_to_open_def)
  have "cb_run 1 30 0 initial_state ([] @ [(Failure, 2, None)]) 2 ?s"
    by (rule run_step [OF run_nil]) (use f in auto)
  then have "cb_run 1 30 0 initial_state (([] @ [(Failure, 2, None)]) @ [(Allow, 5, Some False)]) 5 ?s"
    by (rule run_step) (use a in auto)
  from breaker_refines_machine [OF this] show ?thesis by (simp add: abs_breaker_def transition_to_open_def)
qed

text \<open>
  Invariant of every run of a fresh breaker: an open breaker knows since when it is open,
  and that is not in the future; only a half-open breaker has a probe in flight; the breaker
  is closed exactly while it has fewer failures in a row than the threshold.
\<close>

lemma breaker_invariant:
  assumes "cb_run th dur t initial_state tr t' s'" "0 < th"
  shows "cb_wf th t' s'"
  using cb_run_wf [OF assms cb_wf_initial [OF assms(2)]] by simp

text \<open>
  Starting closed with no failures, the breaker opens exactly when the number of failures
  in a row reaches the threshold, and remembers the time of the last of them.
\<close>

lemma breaker_opens_at_threshold:
  assumes "0 < th" "s' = foldl (\<lambda>s now. record_failure th now s) initial_state ts"
  shows "(state s' = OPEN \<longleftrightarrow> th \<le> int (length ts)) \<and> state s' \<noteq> HALF_OPEN \<and>
    (th \<le> int (length ts) \<longrightarrow> opened_at s' = Some (last ts))"
  using failures_in_a_row [of th initial_state s' ts] assms
  by (auto simp: initial_state_def split: if_splits)

lemma closed_run_admits:
  assumes "cb_run th dur t s tr t' s'" "state s = CLOSED" "only_asks tr"
  shows "s' = s \<and> admitted_times tr = map (\<lambda>(_, now, _). now) tr"
  using assms
proof (induction rule: cb_run.induct)
  case (run_step t s tr t' s' now op ans s'')
  then have "op = Allow" "only_asks tr" by (simp_all add: only_asks_def)
  with run_step show ?case by (auto simp: allow_request_closed admitted_times_snoc)
qed (simp add: admitted_times_def)

text \<open>
  C17. Shedding load: after any failures in a row of a fresh breaker with threshold \<open>th\<close>, while it is only asked, it admits
  every request if they are fewer than \<open>th\<close>; otherwise it refuses all until \<open>dur\<close> seconds after the last failure, admits
  the first request from then on, and refuses all others as long as the outcome of that one is not reported.
\<close>

theorem breaker_sheds_load:
  assumes "0 < th" "s = foldl (\<lambda>s now. record_failure th now s) initial_state ts" "cb_run th dur t s tr t' s'"
    "\<forall>x \<in> set tr. fst x = Allow"
  shows "map (\<lambda>(_, now, _). now) (filter (\<lambda>(_, _, ans). ans = Some True) tr) =
    (if int (length ts) < th then map (\<lambda>(_, now, _). now) tr
     else take 1 (filter (\<lambda>now. last ts + dur \<le> now) (map (\<lambda>(_, now, _). now) tr)))"
proof -
  have asks: "only_asks tr" using assms(4) by (auto simp: only_asks_def list_all_iff)
  have s: "if int (length ts) < th then state s = CLOSED else state s = OPEN \<and> opened_at s = Some (last ts)"
    using failures_in_a_row [OF assms(1) _ _ assms(2)] assms(1) by (simp add: initial_state_def)
  have "admitted_times tr = (if int (length ts) < th then map (\<lambda>(_, now, _). now) tr else take 1 (times_from (last ts + dur) tr))"
    using closed_run_admits [OF assms(3)] open_run_state [OF assms(3)] s asks by (simp split: if_splits)
  then show ?thesis by (simp only: admitted_times_def times_from_def)
qed

definition sample_open_state :: circuit_breaker_state where
  "sample_open_state = \<lparr>state = OPEN, consecutive_failures = 2, opened_at = Some 2, half_open_probe_in_flight = False\<rparr>"

theorem breaker_sheds_load_witness:
  "sample_open_state = foldl (\<lambda>s now. record_failure 2 now s) initial_state [1, 2] \<and>
   map (\<lambda>now. fst (cb_apply 2 30 Allow now sample_open_state)) [31, 33] = [Some False, Some True] \<and>
   map (\<lambda>(_, now, _). now) (filter (\<lambda>(_, _, ans). ans = Some True)
     [(Allow, 31, Some False), (Allow, 33, Some True), (Allow, 40, Some False)]) = [33 :: real]"
proof -
  let ?s = sample_open_state
  let ?s' = "?s\<lparr>state := HALF_OPEN, half_open_probe_in_flight := True\<rparr>"
  have s: "?s = foldl (\<lambda>s now. record_failure 2 now s) initial_state [1, 2]"
    by (simp add: sample_open_state_def record_failure_def initial_state_def transition_to_open_def)
  have a: "cb_apply 2 30 Allow 31 ?s = (Some False, ?s)" "cb_apply 2 30 Allow 33 ?s = (Some True, ?s')"
    "cb_apply 2 30 Allow 40 ?s' = (Some False, ?s')"
    by (simp_all add: allow_request_open allow_request_half_open sample_open_state_def)
  have "cb_run 2 30 2 ?s ([] @ [(Allow, 31, Some False)]) 31 ?s" by (rule run_step [OF run_nil _ a(1)]) simp
  from run_step [OF this _ a(2)] have "cb_run 2 30 2 ?s (([] @ [(Allow, 31, Some False)]) @ [(Allow, 33, Some True)]) 33 ?s'" by simp
  from run_step [OF this _ a(3)] have run: "cb_run 2 30 2 ?s [(Allow, 31, Some False), (Allow, 33, Some True), (Allow, 40, Some False)] 40 ?s'"
    by simp
  from breaker_sheds_load [OF _ s run] a(1,2) s show ?thesis by simp
qed

end
