(* ===== verification/Classify.thy ===== *)
theory Classify
  imports Enums
begin

text \<open>
  Response classification, \<open>packages/common/eventmesh_common/classify.py\<close>: the outcome of a
  delivery attempt as a function of the HTTP status and of the two network failures.
\<close>

datatype outcome = SUCCESS | RETRY | PERMANENT_FAILURE

primrec outcome_value :: "outcome \<Rightarrow> string" where
  "outcome_value SUCCESS = ''success''"
| "outcome_value RETRY = ''retry''"
| "outcome_value PERMANENT_FAILURE = ''permanent_failure''"

record classification_result =
  cl_outcome :: outcome
  cl_reason :: string

abbreviation classified :: "outcome \<Rightarrow> string \<Rightarrow> classification_result" where
  "classified out why \<equiv> \<lparr>cl_outcome = out, cl_reason = why\<rparr>"

definition classify_response :: "int option \<Rightarrow> bool \<Rightarrow> bool \<Rightarrow> classification_result" where
  "classify_response status_code timed_out connection_error =
    (if timed_out then classified RETRY ''request timed out''
     else if connection_error then classified RETRY ''connection error''
     else case status_code of
       None \<Rightarrow> classified RETRY ''no response received''
     | Some c \<Rightarrow>
        (if 200 \<le> c \<and> c < 300 then classified SUCCESS (''HTTP '' @ str_int c)
         else if 300 \<le> c \<and> c < 400 then
           classified PERMANENT_FAILURE
             (''HTTP '' @ str_int c @ '' redirect not followed (max_redirects=0)'')
         else if 400 \<le> c \<and> c < 500 then
           (if c \<in> RETRYABLE_4XX then
              classified RETRY (''HTTP '' @ str_int c @ '' treated as retryable'')
            else if c \<in> PERMANENT_4XX then
              classified PERMANENT_FAILURE (''HTTP '' @ str_int c @ '' treated as permanent'')
            else
              classified PERMANENT_FAILURE
                (''HTTP '' @ str_int c @ '' undeclared 4xx, default permanent''))
         else if 500 \<le> c \<and> c < 600 then
           classified RETRY (''HTTP '' @ str_int c @ '' server error'')
         else classified RETRY (''unexpected status '' @ str_int c)))"

text \<open>
  The documented table as a specification: success is exactly a 2xx answer, a permanent
  failure exactly a redirect or a client error that is not declared retryable, and every
  other way an attempt can end is retried.
\<close>

definition success_spec :: "int option \<Rightarrow> bool \<Rightarrow> bool \<Rightarrow> bool" where
  "success_spec s t e \<longleftrightarrow> \<not> t \<and> \<not> e \<and> (case s of None \<Rightarrow> False | Some c \<Rightarrow> c div 100 = 2)"

definition permanent_spec :: "int option \<Rightarrow> bool \<Rightarrow> bool \<Rightarrow> bool" where
  "permanent_spec s t e \<longleftrightarrow> \<not> t \<and> \<not> e \<and>
     (case s of None \<Rightarrow> False
      | Some c \<Rightarrow> c div 100 = 3 \<or> c div 100 = 4 \<and> c \<notin> {408, 409, 425, 429})"

lemma div_100_iff: "(c::int) div 100 = k \<longleftrightarrow> 100 * k \<le> c \<and> c < 100 * k + 100"
  by (auto simp: div_pos_geq)

lemma classify_outcome:
  "cl_outcome (classify_response s t e) =
     (if success_spec s t e then SUCCESS
      else if permanent_spec s t e then PERMANENT_FAILURE else RETRY)"
  by (auto simp: classify_response_def success_spec_def permanent_spec_def div_100_iff
      RETRYABLE_4XX_def PERMANENT_4XX_def split: option.split)

lemma classify_SUCCESS_iff:
  "cl_outcome (classify_response s t e) = SUCCESS \<longleftrightarrow>
     (\<exists>c. s = Some c \<and> 200 \<le> c \<and> c < 300) \<and> \<not> t \<and> \<not> e"
  by (auto simp: classify_outcome success_spec_def permanent_spec_def div_100_iff
      split: option.splits)

end
