(* ===== verification/Ssrf.thy ===== *)
theory Ssrf
  imports Json
begin

text \<open>
  SSRF validation, \<open>packages/common/eventmesh_common/ssrf.py\<close>, over the parts of
  \<open>urllib.parse\<close> and \<open>ipaddress\<close> (Python 3.12) it uses. Name resolution
  (\<open>socket.getaddrinfo\<close>) is an argument: it answers with addresses, with \<open>gaierror\<close>, or
  raises something else. An address travels as the number it denotes, not as the text
  that \<open>getaddrinfo\<close> prints and \<open>ip_address\<close> reads back. Whether the text between
  brackets is an IPv6 literal (\<open>urlsplit\<close> raises ValueError if not) is an argument too.
\<close>

section \<open>IP addresses\<close>

datatype ip_address = IPv4 "32 word" | IPv6 "128 word"

text \<open>A network is its base address and prefix length.\<close>

definition in_net :: "'a::len word \<Rightarrow> 'a word \<times> nat \<Rightarrow> bool" where
  "in_net a net \<longleftrightarrow>
     drop_bit (LENGTH('a) - snd net) a = drop_bit (LENGTH('a) - snd net) (fst net)"

definition private4 :: "(32 word \<times> nat) list" where
  "private4 =
     [(0x00000000, 8), (0x0A000000, 8), (0x7F000000, 8), (0xA9FE0000, 16), (0xAC100000, 12),
      (0xC0000000, 24), (0xC00000AA, 31), (0xC0000200, 24), (0xC0A80000, 16), (0xC6120000, 15),
      (0xC6336400, 24), (0xCB007100, 24), (0xF0000000, 4), (0xFFFFFFFF, 32)]"

definition private4_exceptions :: "(32 word \<times> nat) list" where
  "private4_exceptions = [(0xC0000009, 32), (0xC000000A, 32)]"

definition private6 :: "(128 word \<times> nat) list" where
  "private6 =
     [(0x1, 128), (0x0, 128), (0xFFFF00000000, 96),
      (0x0064FF9B000100000000000000000000, 48), (0x01000000000000000000000000000000, 64),
      (0x20010000000000000000000000000000, 23), (0x20010DB8000000000000000000000000, 32),
      (0x20020000000000000000000000000000, 16), (0xFC000000000000000000000000000000, 7),
      (0xFE800000000000000000000000000000, 10)]"

definition private6_exceptions :: "(128 word \<times> nat) list" where
  "private6_exceptions =
     [(0x20010001000000000000000000000001, 128), (0x20010001000000000000000000000002, 128),
      (0x20010003000000000000000000000000, 32), (0x20010004011200000000000000000000, 48),
      (0x20010020000000000000000000000000, 28), (0x20010030000000000000000000000000, 28)]"

definition reserved6 :: "(128 word \<times> nat) list" where
  "reserved6 =
     [(0x00000000000000000000000000000000, 8), (0x01000000000000000000000000000000, 8),
      (0x02000000000000000000000000000000, 7), (0x04000000000000000000000000000000, 6),
      (0x08000000000000000000000000000000, 5), (0x10000000000000000000000000000000, 4),
      (0x40000000000000000000000000000000, 3), (0x60000000000000000000000000000000, 3),
      (0x80000000000000000000000000000000, 3), (0xA0000000000000000000000000000000, 3),
      (0xC0000000000000000000000000000000, 3), (0xE0000000000000000000000000000000, 4),
      (0xF0000000000000000000000000000000, 5), (0xF8000000000000000000000000000000, 6),
      (0xFE000000000000000000000000000000, 9)]"

definition is_private4 :: "32 word \<Rightarrow> bool" where
  "is_private4 a \<longleftrightarrow>
     list_ex (in_net a) private4 \<and> list_all (\<lambda>n. \<not> in_net a n) private4_exceptions"

definition ipv4_mapped :: "128 word \<Rightarrow> 32 word option" where
  "ipv4_mapped a = (if drop_bit 32 a \<noteq> 0xFFFF then None else Some (ucast a))"

definition is_private :: "ip_address \<Rightarrow> bool" where
  "is_private ip =
     (case ip of
        IPv4 a \<Rightarrow> is_private4 a
      | IPv6 a \<Rightarrow>
          (case ipv4_mapped a of
             Some m \<Rightarrow> is_private4 m
           | None \<Rightarrow> list_ex (in_net a) private6 \<and>
                      list_all (\<lambda>n. \<not> in_net a n) private6_exceptions))"

definition is_loopback :: "ip_address \<Rightarrow> bool" where
  "is_loopback ip = (case ip of IPv4 a \<Rightarrow> in_net a (0x7F000000, 8) | IPv6 a \<Rightarrow> a = 1)"

definition is_link_local :: "ip_address \<Rightarrow> bool" where
  "is_link_local ip =
     (case ip of IPv4 a \<Rightarrow> in_net a (0xA9FE0000, 16)
      | IPv6 a \<Rightarrow> in_net a (0xFE800000000000000000000000000000, 10))"

definition is_multicast :: "ip_address \<Rightarrow> bool" where
  "is_multicast ip =
     (case ip of IPv4 a \<Rightarrow> in_net a (0xE0000000, 4)
      | IPv6 a \<Rightarrow> in_net a (0xFF000000000000000000000000000000, 8))"

definition is_reserved :: "ip_address \<Rightarrow> bool" where
  "is_reserved ip =
     (case ip of IPv4 a \<Rightarrow> in_net a (0xF0000000, 4) | IPv6 a \<Rightarrow> list_ex (in_net a) reserved6)"

definition is_unspecified :: "ip_address \<Rightarrow> bool" where
  "is_unspecified ip = (case ip of IPv4 a \<Rightarrow> a = 0 | IPv6 a \<Rightarrow> a = 0)"

text \<open>\<open>str(ip)\<close>: dotted decimal, or hextets with the first longest run of zeros compressed.\<close>

fun str_hex :: "nat \<Rightarrow> string" where
  "str_hex n = (if n < 16 then [digit_char n] else str_hex (n div 16) @ [digit_char (n mod 16)])"

declare str_hex.simps [simp del]

definition hextets :: "128 word \<Rightarrow> nat list" where
  "hextets a = map (\<lambda>i. unat (drop_bit (112 - 16 * i) a) mod 65536) [0..<8]"

definition longest_zero_run :: "nat list \<Rightarrow> nat \<times> nat" where
  "longest_zero_run hs =
     foldl (\<lambda>(s, l) i. let k = length (takeWhile (\<lambda>h. h = 0) (drop i hs))
                       in if k > l then (i, k) else (s, l)) (0, 0) [0..<length hs]"

definition str_ip :: "ip_address \<Rightarrow> string" where
  "str_ip ip =
     (case ip of
        IPv4 a \<Rightarrow> join ''.'' (map (\<lambda>i. str_nat (unat (drop_bit (24 - 8 * i) a) mod 256)) [0..<4])
      | IPv6 a \<Rightarrow>
          (let hs = hextets a; (s, l) = longest_zero_run hs in
           if l > 1 then join '':'' (map str_hex (take s hs)) @ ''::'' @
                         join '':'' (map str_hex (drop (s + l) hs))
           else join '':'' (map str_hex hs)))"

section \<open>URL splitting\<close>

definition is_ascii_alpha :: "char \<Rightarrow> bool" where
  "is_ascii_alpha c \<longleftrightarrow> (let k = ord c in 65 \<le> k \<and> k \<le> 90 \<or> 97 \<le> k \<and> k \<le> 122)"

definition is_scheme_char :: "char \<Rightarrow> bool" where
  "is_scheme_char c \<longleftrightarrow>
     is_ascii_alpha c \<or> (48 \<le> ord c \<and> ord c \<le> 57) \<or> c \<in> set ''+-.''"

text \<open>The scheme (lower case, empty if there is none) and what follows it.\<close>

definition split_scheme :: "string \<Rightarrow> string \<times> string" where
  "split_scheme url =
     (case partition1 (CHR '':'') url of
        (s, found, rest) \<Rightarrow>
          if found \<and> s \<noteq> [] \<and> is_ascii_alpha (hd s) \<and> list_all is_scheme_char s
          then (str_lower s, rest) else ([], url))"

text \<open>\<open>urlparse(url)\<close>: the scheme and the network location.\<close>

definition urlparse :: "(string \<Rightarrow> bool) \<Rightarrow> string \<Rightarrow> (string \<times> string) result" where
  "urlparse ip6_literal url =
     (let u = filter (\<lambda>c. ord c \<noteq> 9 \<and> ord c \<noteq> 10 \<and> ord c \<noteq> 13) (dropWhile (\<lambda>c. ord c \<le> 32) url);
          (scheme, rest) = split_scheme u;
          netloc = (if startswith rest ''//'' then takeWhile (\<lambda>c. c \<notin> set ''/?#'') (drop 2 rest)
                    else []);
          op = CHR ''['' \<in> set netloc; cl = CHR '']'' \<in> set netloc
      in if op \<noteq> cl then Inl (ValueError ''Invalid IPv6 URL'')
         else if op \<and> \<not> ip6_literal (fst (partition1 (CHR '']'') (snd (snd (partition1 (CHR ''['') netloc)))))
         then Inl (ValueError ''Invalid IPv6 URL'')
         else Inr (scheme, netloc))"

text \<open>\<open>result.hostname\<close>: \<open>None\<close> if empty; lower case up to a zone identifier.\<close>

definition hostname :: "string \<Rightarrow> string option" where
  "hostname netloc =
     (let hostinfo = rpartition_last (CHR ''@'') netloc;
          (_, have_open_br, bracketed) = partition1 (CHR ''['') hostinfo;
          host = (if have_open_br then fst (partition1 (CHR '']'') bracketed)
                  else fst (partition1 (CHR '':'') hostinfo))
      in if host = [] then None
         else case partition1 (CHR ''%'') host of
                (h, percent, zone) \<Rightarrow> Some (str_lower h @ (if percent then ''%'' else []) @ zone))"

section \<open>The validator\<close>

datatype resolution = Addresses "ip_address list" | Gaierror string | Raises exn

record net_env =
  getaddrinfo :: "string \<Rightarrow> resolution"
  ip6_literal :: "string \<Rightarrow> bool"

definition BLOCKED_HOSTS :: "string set" where
  "BLOCKED_HOSTS = {''metadata.google.internal''}"

definition METADATA_IPS :: "ip_address set" where
  "METADATA_IPS = {IPv4 0xA9FEA9FE}"

definition reject_if_unsafe :: "ip_address \<Rightarrow> unit result" where
  "reject_if_unsafe ip =
     (if ip \<in> METADATA_IPS then
        Inl (SSRFValidationError (str_ip ip @ '' is a cloud metadata address''))
      else if is_private ip \<or> is_loopback ip \<or> is_link_local ip \<or> is_multicast ip \<or>
              is_reserved ip \<or> is_unspecified ip then
        Inl (SSRFValidationError (str_ip ip @ '' resolves to a private/internal address range''))
      else Inr ())"

fun reject_any_unsafe :: "ip_address list \<Rightarrow> unit result" where
  "reject_any_unsafe [] = Inr ()"
| "reject_any_unsafe (ip # ips) = rbind (reject_if_unsafe ip) (\<lambda>_. reject_any_unsafe ips)"

definition validate_webhook_url :: "net_env \<Rightarrow> string \<Rightarrow> int \<Rightarrow> unit result" where
  "validate_webhook_url env url max_length =
     (if int (length url) > max_length then
        Inl (SSRFValidationError (''URL exceeds max length of '' @ str_int max_length))
      else rbind (urlparse (ip6_literal env) url) (\<lambda>(scheme, netloc).
        if scheme \<notin> {''http'', ''https''} then
          Inl (SSRFValidationError ''only http/https schemes are allowed'')
        else (case hostname netloc of
          None \<Rightarrow> Inl (SSRFValidationError ''URL must include a hostname'')
        | Some host \<Rightarrow>
            if str_lower host \<in> BLOCKED_HOSTS then
              Inl (SSRFValidationError ''this hostname is blocked'')
            else (case getaddrinfo env host of
              Raises e \<Rightarrow> Inl e
            | Gaierror e \<Rightarrow> Inl (SSRFValidationError (''could not resolve hostname: '' @ e))
            | Addresses ips \<Rightarrow>
                if ips = [] then
                  Inl (SSRFValidationError ''hostname did not resolve to any address'')
                else reject_any_unsafe ips))))"

section \<open>What the validator accepts\<close>

definition safe_ip :: "ip_address \<Rightarrow> bool" where
  "safe_ip ip \<longleftrightarrow> reject_if_unsafe ip = Inr ()"

lemma reject_any_unsafe_Inr: "reject_any_unsafe ips = Inr () \<longleftrightarrow> (\<forall>ip \<in> set ips. safe_ip ip)"
  by (induction ips) (auto simp: rbind_Inr_iff safe_ip_def)

lemma reject_any_unsafe_Inl:
  "reject_any_unsafe ips = Inl e \<Longrightarrow> \<exists>m. e = SSRFValidationError m"
  by (induction ips) (auto simp: rbind_Inl_iff reject_if_unsafe_def split: if_splits)

lemma validate_Inr_iff:
  "validate_webhook_url env url n = Inr () \<longleftrightarrow>
     int (length url) \<le> n \<and>
     (\<exists>scheme netloc host ips.
        urlparse (ip6_literal env) url = Inr (scheme, netloc) \<and> scheme \<in> {''http'', ''https''} \<and>
        hostname netloc = Some host \<and> str_lower host \<notin> BLOCKED_HOSTS \<and>
        getaddrinfo env host = Addresses ips \<and> ips \<noteq> [] \<and> (\<forall>ip \<in> set ips. safe_ip ip))"
proof (cases "urlparse (ip6_literal env) url")
  case (Inl e)
  then show ?thesis by (simp add: validate_webhook_url_def)
next
  case (Inr p)
  obtain scheme netloc where p: "p = (scheme, netloc)" by (cases p)
  show ?thesis
  proof (cases "hostname netloc")
    case None
    with Inr p show ?thesis by (simp add: validate_webhook_url_def)
  next
    case (Some host)
    with Inr p show ?thesis
      by (cases "getaddrinfo env host")
        (auto simp: validate_webhook_url_def reject_any_unsafe_Inr)
  qed
qed

subsection \<open>Networks as intervals\<close>

lemma in_net_unat:
  "in_net (a :: 'a::len word) (b, p) \<longleftrightarrow>
     unat a div 2 ^ (LENGTH('a) - p) = unat b div 2 ^ (LENGTH('a) - p)"
proof -
  have "unat (drop_bit k x) = unat x div 2 ^ k" for k and x :: "'a word"
    unfolding unat_drop_bit_eq by (simp add: drop_bit_eq_div)
  then show ?thesis unfolding in_net_def by (metis fst_conv snd_conv unsigned_word_eqI)
qed

lemma div_eq_interval:
  "(0::nat) < d \<Longrightarrow> n div d = q \<longleftrightarrow> q * d \<le> n \<and> n < q * d + d"
  by (metis add.commute div_nat_eqI div_times_less_eq_dividend dividend_less_div_times
      mult.commute mult_Suc_right)

lemma in_net_interval:
  assumes "p \<le> LENGTH('a)" "unat b mod 2 ^ (LENGTH('a) - p) = 0"
  shows "in_net (a :: 'a::len word) (b, p) \<longleftrightarrow>
     unat b \<le> unat a \<and> unat a < unat b + 2 ^ (LENGTH('a) - p)"
proof -
  let ?d = "2 ^ (LENGTH('a) - p) :: nat"
  from assms(2) have "unat b div ?d * ?d = unat b" by auto
  with div_eq_interval [of ?d "unat a" "unat b div ?d"] show ?thesis
    by (simp add: in_net_unat)
qed

subsection \<open>IPv4\<close>

text \<open>The address ranges that must not be reached, in dotted notation.\<close>

definition quad :: "nat \<Rightarrow> nat \<Rightarrow> nat \<Rightarrow> nat \<Rightarrow> nat" where
  "quad a b c d = ((a * 256 + b) * 256 + c) * 256 + d"

definition internal4 :: "nat \<Rightarrow> bool" where
  "internal4 n \<longleftrightarrow>
     n < quad 1 0 0 0 \<or>
     quad 10 0 0 0 \<le> n \<and> n < quad 11 0 0 0 \<or>
     quad 127 0 0 0 \<le> n \<and> n < quad 128 0 0 0 \<or>
     quad 169 254 0 0 \<le> n \<and> n < quad 169 255 0 0 \<or>
     quad 172 16 0 0 \<le> n \<and> n < quad 172 32 0 0 \<or>
     quad 192 0 0 0 \<le> n \<and> n < quad 192 0 1 0 \<and> n \<noteq> quad 192 0 0 9 \<and> n \<noteq> quad 192 0 0 10 \<or>
     quad 192 0 2 0 \<le> n \<and> n < quad 192 0 3 0 \<or>
     quad 192 168 0 0 \<le> n \<and> n < quad 192 169 0 0 \<or>
     quad 198 18 0 0 \<le> n \<and> n < quad 198 20 0 0 \<or>
     quad 198 51 100 0 \<le> n \<and> n < quad 198 51 101 0 \<or>
     quad 203 0 113 0 \<le> n \<and> n < quad 203 0 114 0 \<or>
     quad 224 0 0 0 \<le> n"

lemma in_private4_iff:
  "list_ex (in_net a) private4 \<longleftrightarrow>
     unat a < quad 1 0 0 0 \<or>
     quad 10 0 0 0 \<le> unat a \<and> unat a < quad 11 0 0 0 \<or>
     quad 127 0 0 0 \<le> unat a \<and> unat a < quad 128 0 0 0 \<or>
     quad 169 254 0 0 \<le> unat a \<and> unat a < quad 169 255 0 0 \<or>
     quad 172 16 0 0 \<le> unat a \<and> unat a < quad 172 32 0 0 \<or>
     quad 192 0 0 0 \<le> unat a \<and> unat a < quad 192 0 1 0 \<or>
     quad 192 0 0 170 \<le> unat a \<and> unat a < quad 192 0 0 172 \<or>
     quad 192 0 2 0 \<le> unat a \<and> unat a < quad 192 0 3 0 \<or>
     quad 192 168 0 0 \<le> unat a \<and> unat a < quad 192 169 0 0 \<or>
     quad 198 18 0 0 \<le> unat a \<and> unat a < quad 198 20 0 0 \<or>
     quad 198 51 100 0 \<le> unat a \<and> unat a < quad 198 51 101 0 \<or>
     quad 203 0 113 0 \<le> unat a \<and> unat a < quad 203 0 114 0 \<or>
     quad 240 0 0 0 \<le> unat a \<and> unat a < 2 ^ 32 \<or>
     quad 255 255 255 255 \<le> unat a \<and> unat a < 2 ^ 32"
  by (simp add: private4_def in_net_interval quad_def)

lemma is_private4_iff:
  "is_private4 a \<longleftrightarrow> internal4 (unat a) \<and> \<not> (quad 224 0 0 0 \<le> unat a \<and> unat a < quad 240 0 0 0)"
proof -
  define n where "n = unat a"
  have n: "n < 4294967296" using unsigned_less [of a, where 'a = nat] by (simp add: n_def)
  have exc: "list_all (\<lambda>m. \<not> in_net a m) private4_exceptions \<longleftrightarrow>
      n \<noteq> quad 192 0 0 9 \<and> n \<noteq> quad 192 0 0 10"
    by (auto simp: private4_exceptions_def in_net_interval quad_def n_def)
  show ?thesis
    unfolding is_private4_def in_private4_iff exc n_def [symmetric]
    by (rule iffI; (elim conjE)?; unfold internal4_def; (elim disjE conjE)?; simp add: n quad_def)
qed

lemma safe_ip4_iff: "safe_ip (IPv4 a) \<longleftrightarrow> \<not> internal4 (unat a)"
proof -
  have n: "unat a < 2 ^ 32" using unsigned_less [of a, where 'a = nat] by simp
  have meta: "a = 0xA9FEA9FE \<Longrightarrow> internal4 (unat a)" by (simp add: internal4_def quad_def)
  have zero: "a = 0 \<Longrightarrow> internal4 (unat a)" by (simp add: internal4_def quad_def)
  have "safe_ip (IPv4 a) \<longleftrightarrow> \<not> (is_private4 a \<or> is_multicast (IPv4 a) \<or> is_loopback (IPv4 a) \<or>
      is_link_local (IPv4 a) \<or> is_reserved (IPv4 a) \<or> a = 0 \<or> a = 0xA9FEA9FE)"
    by (simp add: safe_ip_def reject_if_unsafe_def METADATA_IPS_def is_private_def
        is_unspecified_def)
  also have "\<dots> \<longleftrightarrow> \<not> internal4 (unat a)"
    using n meta zero
    by (auto simp: is_private4_iff is_multicast_def is_loopback_def is_link_local_def
        is_reserved_def in_net_interval) (auto simp: internal4_def quad_def)
  finally show ?thesis .
qed

subsection \<open>IPv6\<close>

text \<open>The first 16 bits of an address.\<close>

definition top16 :: "128 word \<Rightarrow> nat" where
  "top16 a = unat a div 2 ^ 112"

lemma in_net_top16:
  assumes "p \<le> 16"
  shows "in_net a (b, p) \<longleftrightarrow> top16 a div 2 ^ (16 - p) = top16 b div 2 ^ (16 - p)"
proof -
  have "128 - p = 112 + (16 - p)" using assms by simp
  then have "(2::nat) ^ (128 - p) = 2 ^ 112 * 2 ^ (16 - p)" by (metis power_add)
  then show ?thesis by (simp only: in_net_unat len_of_numeral_defs) (simp add: top16_def div_mult2_eq)
qed

lemma in_net_top16_eq:
  assumes "16 \<le> p" "p \<le> 128" "in_net a (b, p)"
  shows "top16 a = top16 b"
proof -
  have "112 = (128 - p) + (p - 16)" using assms by simp
  then have "(2::nat) ^ 112 = 2 ^ (128 - p) * 2 ^ (p - 16)" by (metis power_add)
  then have "top16 x = unat x div 2 ^ (128 - p) div 2 ^ (p - 16)" for x
    by (simp only: top16_def div_mult2_eq)
  with assms(3) show ?thesis by (simp add: in_net_unat)
qed

lemma top16_less: "top16 a < 65536"
  using unsigned_less [of a, where 'a = nat] by (simp add: top16_def less_mult_imp_div_less)

lemma mapped_top16: "ipv4_mapped a = Some m \<Longrightarrow> top16 a = 0"
proof -
  assume "ipv4_mapped a = Some m"
  then have "unat (drop_bit 32 a) = unat (0xFFFF :: 128 word)"
    by (simp add: ipv4_mapped_def split: if_splits)
  then have "unat a div 2 ^ 32 = 0xFFFF" unfolding unat_drop_bit_eq by (simp add: drop_bit_eq_div)
  then have "unat a div 2 ^ 32 div 2 ^ 80 = 0" by simp
  then show ?thesis by (simp add: top16_def flip: div_mult2_eq)
qed

lemma unique_local_private:
  assumes "top16 a div 512 = 126"
  shows "is_private (IPv6 a)"
proof -
  from assms have "top16 a \<noteq> 0" "top16 a \<noteq> 0x2001" by auto
  then have "ipv4_mapped a = None" using mapped_top16 by (cases "ipv4_mapped a") auto
  moreover have "in_net a (0xFC000000000000000000000000000000, 7)"
    using assms by (simp add: in_net_top16 top16_def)
  moreover have "\<not> in_net a n" if "n \<in> set private6_exceptions" for n
  proof -
    from that have "16 \<le> snd n" "snd n \<le> 128" "top16 (fst n) = 0x2001"
      by (auto simp: private6_exceptions_def top16_def)
    with in_net_top16_eq [of "snd n" a "fst n"] \<open>top16 a \<noteq> 0x2001\<close> show ?thesis by auto
  qed
  ultimately show ?thesis by (simp add: is_private_def private6_def list_all_iff)
qed

lemma not_in_net_top16:
  assumes "\<not> in_net a (b, p)" "p \<le> 16" "top16 b = q * 2 ^ (16 - p)"
  shows "top16 a < q * 2 ^ (16 - p) \<or> q * 2 ^ (16 - p) + 2 ^ (16 - p) \<le> top16 a"
proof -
  from assms have "top16 a div 2 ^ (16 - p) \<noteq> q" by (simp add: in_net_top16)
  with div_eq_interval [of "2 ^ (16 - p)" "top16 a" q] show ?thesis by auto
qed

lemma out_of_reserved:
  assumes "\<not> is_reserved (IPv6 a)" "(b, p) \<in> set reserved6" "p \<le> 16" "top16 b = q * 2 ^ (16 - p)"
  shows "top16 a < q * 2 ^ (16 - p) \<or> q * 2 ^ (16 - p) + 2 ^ (16 - p) \<le> top16 a"
proof -
  from assms(1,2) have "\<not> in_net a (b, p)" by (auto simp: is_reserved_def list_ex_iff)
  from not_in_net_top16 [OF this assms(3,4)] show ?thesis .
qed

lemma not_reserved_low:
  assumes "\<not> is_reserved (IPv6 a)"
  shows "0x2000 \<le> top16 a"
proof -
  note out = out_of_reserved [OF assms]
  have "256 \<le> top16 a" using out [of 0 8 0] by (simp add: reserved6_def top16_def [of 0])
  then have "512 \<le> top16 a"
    using out [of "0x01000000000000000000000000000000" 8 1] by (auto simp: reserved6_def top16_def [of "numeral _"])
  then have "1024 \<le> top16 a"
    using out [of "0x02000000000000000000000000000000" 7 1] by (auto simp: reserved6_def top16_def [of "numeral _"])
  then have "2048 \<le> top16 a"
    using out [of "0x04000000000000000000000000000000" 6 1] by (auto simp: reserved6_def top16_def [of "numeral _"])
  then have "4096 \<le> top16 a"
    using out [of "0x08000000000000000000000000000000" 5 1] by (auto simp: reserved6_def top16_def [of "numeral _"])
  then show ?thesis
    using out [of "0x10000000000000000000000000000000" 4 1] by (auto simp: reserved6_def top16_def [of "numeral _"])
qed

lemma not_reserved_high:
  assumes "\<not> is_reserved (IPv6 a)" "0x4000 \<le> top16 a"
  shows "0xFC00 \<le> top16 a \<and> (0xFE00 \<le> top16 a \<longrightarrow> 0xFE80 \<le> top16 a)"
proof -
  note out = out_of_reserved [OF assms(1)]
  from assms(2) have "0x6000 \<le> top16 a"
    using out [of "0x40000000000000000000000000000000" 3 2] by (auto simp: reserved6_def top16_def [of "numeral _"])
  then have "0x8000 \<le> top16 a"
    using out [of "0x60000000000000000000000000000000" 3 3] by (auto simp: reserved6_def top16_def [of "numeral _"])
  then have "0xA000 \<le> top16 a"
    using out [of "0x80000000000000000000000000000000" 3 4] by (auto simp: reserved6_def top16_def [of "numeral _"])
  then have "0xC000 \<le> top16 a"
    using out [of "0xA0000000000000000000000000000000" 3 5] by (auto simp: reserved6_def top16_def [of "numeral _"])
  then have "0xE000 \<le> top16 a"
    using out [of "0xC0000000000000000000000000000000" 3 6] by (auto simp: reserved6_def top16_def [of "numeral _"])
  then have "0xF000 \<le> top16 a"
    using out [of "0xE0000000000000000000000000000000" 4 14] by (auto simp: reserved6_def top16_def [of "numeral _"])
  then have "0xF800 \<le> top16 a"
    using out [of "0xF0000000000000000000000000000000" 5 30] by (auto simp: reserved6_def top16_def [of "numeral _"])
  then have "0xFC00 \<le> top16 a"
    using out [of "0xF8000000000000000000000000000000" 6 62] by (auto simp: reserved6_def top16_def [of "numeral _"])
  moreover have "0xFE00 \<le> top16 a \<longrightarrow> 0xFE80 \<le> top16 a"
    using out [of "0xFE000000000000000000000000000000" 9 508] by (auto simp: reserved6_def top16_def [of "numeral _"])
  ultimately show ?thesis by simp
qed

lemma safe_ip6_top:
  assumes "safe_ip (IPv6 a)"
  shows "0x2000 \<le> top16 a \<and> top16 a < 0x4000 \<or> 0xFEC0 \<le> top16 a \<and> top16 a < 0xFF00"
proof -
  from assms have safe: "\<not> is_reserved (IPv6 a)" "\<not> is_multicast (IPv6 a)"
    "\<not> is_link_local (IPv6 a)" "\<not> is_private (IPv6 a)"
    by (auto simp: safe_ip_def reject_if_unsafe_def split: if_splits)
  have "0xFEC0 \<le> top16 a \<and> top16 a < 0xFF00" if t: "0x4000 \<le> top16 a"
  proof -
    have "top16 a div 512 \<noteq> 126" using unique_local_private safe(4) by auto
    with not_reserved_high [OF safe(1) t] have "0xFE80 \<le> top16 a" by (auto simp: div_eq_interval)
    moreover have "top16 a < 0xFE80 \<or> 0xFEC0 \<le> top16 a"
      using safe(3) not_in_net_top16 [of a "0xFE800000000000000000000000000000" 10 1018]
      by (auto simp: is_link_local_def top16_def [of "numeral _"])
    moreover have "top16 a < 0xFF00"
      using safe(2) top16_less [of a] not_in_net_top16 [of a "0xFF000000000000000000000000000000" 8 255]
      by (auto simp: is_multicast_def top16_def [of "numeral _"])
    ultimately show ?thesis by auto
  qed
  with not_reserved_low [OF safe(1)] show ?thesis by linarith
qed

text \<open>
  The IPv6 addresses that must not be reached, as numbers: all outside 2000::/3 and fec0::/10, and in 2000::/3
  those of 2001::/23 (but for its public parts), 2001:db8::/32 and 2002::/16.
\<close>

definition internal6 :: "nat \<Rightarrow> bool" where
  "internal6 n \<longleftrightarrow>
     n < 0x2000 * 2 ^ 112 \<or>
     0x4000 * 2 ^ 112 \<le> n \<and> n < 0xFEC0 * 2 ^ 112 \<or>
     0xFF00 * 2 ^ 112 \<le> n \<or>
     0x20010000 * 2 ^ 96 \<le> n \<and> n < 0x20010200 * 2 ^ 96 \<and>
       n \<noteq> 0x20010001 * 2 ^ 96 + 1 \<and> n \<noteq> 0x20010001 * 2 ^ 96 + 2 \<and>
       \<not> (0x20010003 * 2 ^ 96 \<le> n \<and> n < 0x20010004 * 2 ^ 96) \<and>
       \<not> (0x200100040112 * 2 ^ 80 \<le> n \<and> n < 0x200100040113 * 2 ^ 80) \<and>
       \<not> (0x20010020 * 2 ^ 96 \<le> n \<and> n < 0x20010040 * 2 ^ 96) \<or>
     0x20010DB8 * 2 ^ 96 \<le> n \<and> n < 0x20010DB9 * 2 ^ 96 \<or>
     0x2002 * 2 ^ 112 \<le> n \<and> n < 0x2003 * 2 ^ 112"

lemma top16_bounds:
  "k \<le> top16 a \<longleftrightarrow> k * 2 ^ 112 \<le> unat a" "top16 a < k \<longleftrightarrow> unat a < k * 2 ^ 112"
  by (simp_all only: top16_def less_eq_div_iff_mult_less_eq div_less_iff_less_mult zero_less_numeral zero_less_power)

lemma private6_exceptions_iff:
  "list_all (\<lambda>m. \<not> in_net a m) private6_exceptions \<longleftrightarrow>
     unat a \<noteq> 0x20010001 * 2 ^ 96 + 1 \<and> unat a \<noteq> 0x20010001 * 2 ^ 96 + 2 \<and>
     \<not> (0x20010003 * 2 ^ 96 \<le> unat a \<and> unat a < 0x20010004 * 2 ^ 96) \<and>
     \<not> (0x200100040112 * 2 ^ 80 \<le> unat a \<and> unat a < 0x200100040113 * 2 ^ 80) \<and>
     \<not> (0x20010020 * 2 ^ 96 \<le> unat a \<and> unat a < 0x20010040 * 2 ^ 96)"
  by (simp add: private6_exceptions_def in_net_interval) linarith

lemma private6_public:
  assumes "0x2000 * 2 ^ 112 \<le> unat a" "unat a < 0x4000 * 2 ^ 112 \<or> 0xFEC0 * 2 ^ 112 \<le> unat a"
  shows "list_ex (in_net a) private6 \<longleftrightarrow>
     0x20010000 * 2 ^ 96 \<le> unat a \<and> unat a < 0x20010200 * 2 ^ 96 \<or>
     0x20010DB8 * 2 ^ 96 \<le> unat a \<and> unat a < 0x20010DB9 * 2 ^ 96 \<or>
     0x2002 * 2 ^ 112 \<le> unat a \<and> unat a < 0x2003 * 2 ^ 112"
  using assms by (simp add: private6_def in_net_interval) linarith

lemma public_not_reserved:
  assumes "0x2000 * 2 ^ 112 \<le> unat a" "unat a < 0x4000 * 2 ^ 112 \<or> 0xFEC0 * 2 ^ 112 \<le> unat a" "unat a < 0xFF00 * 2 ^ 112"
  shows "\<not> is_reserved (IPv6 a)" "\<not> is_multicast (IPv6 a)" "\<not> is_link_local (IPv6 a)" "\<not> is_loopback (IPv6 a)"
    "a \<noteq> 0" "ipv4_mapped a = None"
proof -
  show "\<not> is_reserved (IPv6 a)"
    using assms by (simp add: is_reserved_def reserved6_def in_net_interval) linarith
  show "\<not> is_multicast (IPv6 a)" "\<not> is_link_local (IPv6 a)"
    using assms by (auto simp: is_multicast_def is_link_local_def in_net_interval)
  show "\<not> is_loopback (IPv6 a)" "a \<noteq> 0" using assms(1) by (auto simp: is_loopback_def)
  have "top16 a \<noteq> 0" using assms(1) top16_bounds(1) [of 1 a] by auto
  with mapped_top16 show "ipv4_mapped a = None" by (cases "ipv4_mapped a") auto
qed

lemma safe_ip6_iff: "safe_ip (IPv6 a) \<longleftrightarrow> \<not> internal6 (unat a)"
proof (cases "0x2000 * 2 ^ 112 \<le> unat a \<and> (unat a < 0x4000 * 2 ^ 112 \<or> 0xFEC0 * 2 ^ 112 \<le> unat a) \<and> unat a < 0xFF00 * 2 ^ 112")
  case True
  then have r: "0x2000 * 2 ^ 112 \<le> unat a" "unat a < 0x4000 * 2 ^ 112 \<or> 0xFEC0 * 2 ^ 112 \<le> unat a"
    "unat a < 0xFF00 * 2 ^ 112" by blast+
  note public = public_not_reserved [OF r]
  have "safe_ip (IPv6 a) \<longleftrightarrow> \<not> (list_ex (in_net a) private6 \<and> list_all (\<lambda>m. \<not> in_net a m) private6_exceptions)"
    using public by (simp add: safe_ip_def reject_if_unsafe_def METADATA_IPS_def is_private_def is_unspecified_def)
  also have "\<dots> \<longleftrightarrow> \<not> internal6 (unat a)"
    unfolding private6_public [OF r(1,2)] private6_exceptions_iff internal6_def using r by (simp; linarith)
  finally show ?thesis .
next
  case False
  then have "internal6 (unat a)" unfolding internal6_def by linarith
  moreover have "\<not> safe_ip (IPv6 a)"
  proof
    assume "safe_ip (IPv6 a)"
    from safe_ip6_top [OF this] False show False unfolding top16_bounds by auto
  qed
  ultimately show ?thesis by simp
qed

section \<open>Properties\<close>

text \<open>
  C18. Exactly which URLs the validator lets through: at most the given number of characters, scheme http or https,
  with a host name other than that of the Google metadata service, in any case, that resolves to at least one
  address, every one of which lies outside the loopback, private, link-local, metadata, multicast, reserved and
  unspecified ranges, given as numbers for IPv4 and for IPv6.
\<close>

theorem validate_accepts_iff:
  "validate_webhook_url env url n = Inr () \<longleftrightarrow>
     int (length url) \<le> n \<and>
     (\<exists>scheme netloc host ips.
        urlparse (ip6_literal env) url = Inr (scheme, netloc) \<and> scheme \<in> {''http'', ''https''} \<and>
        hostname netloc = Some host \<and> str_lower host \<noteq> ''metadata.google.internal'' \<and>
        getaddrinfo env host = Addresses ips \<and> ips \<noteq> [] \<and>
        list_all (\<lambda>ip. case ip of IPv4 a \<Rightarrow> \<not> internal4 (unat a) | IPv6 a \<Rightarrow> \<not> internal6 (unat a)) ips)"
proof -
  have "safe_ip ip \<longleftrightarrow> (case ip of IPv4 a \<Rightarrow> \<not> internal4 (unat a) | IPv6 a \<Rightarrow> \<not> internal6 (unat a))" for ip
    by (cases ip) (simp_all add: safe_ip4_iff safe_ip6_iff)
  then show ?thesis unfolding validate_Inr_iff list_all_iff BLOCKED_HOSTS_def by simp
qed


text \<open>
  A safe IPv6 address lies in the global unicast block 2000::/3 or in the deprecated
  site-local block fec0::/10; in particular loopback, IPv4-mapped, unique local and
  link-local addresses are refused.
\<close>

lemma ipv6_safe_block:
  assumes "reject_if_unsafe (IPv6 a) = Inr ()"
  shows "0x2000 \<le> top16 a \<and> top16 a < 0x4000 \<or> 0xFEC0 \<le> top16 a \<and> top16 a < 0xFF00"
  using safe_ip6_top [of a] assms by (simp add: safe_ip_def)

end
