(* ===== verification/Sha256.thy ===== *)
theory Sha256
  imports Py_String
begin

text \<open>
  The hash functions behind \<open>hashlib.sha256\<close> and \<open>hmac.new(..., hashlib.sha256)\<close>: SHA-256
  (FIPS 180-4) and HMAC (RFC 2104) on byte strings, \<open>str.encode()\<close> (UTF-8) and
  \<open>hexdigest()\<close>.
\<close>

unbundle bit_operations_syntax

type_synonym byte = "8 word"
type_synonym bytes = "byte list"
type_synonym u32 = "32 word"

section \<open>Bytes\<close>

definition utf8_char :: "char \<Rightarrow> bytes" where
  "utf8_char c =
     (let k = ord c in
      if k < 128 then [word_of_nat k]
      else [word_of_nat (192 + k div 64), word_of_nat (128 + k mod 64)])"

definition encode :: "string \<Rightarrow> bytes" where
  "encode s = concat (map utf8_char s)"

definition hex_bytes :: "bytes \<Rightarrow> string" where
  "hex_bytes bs = concat (map (\<lambda>b. hex_digits 2 (unat b)) bs)"

section \<open>SHA-256\<close>

definition rotr :: "nat \<Rightarrow> u32 \<Rightarrow> u32" where
  "rotr n x = drop_bit n x OR push_bit (32 - n) x"

definition Ch :: "u32 \<Rightarrow> u32 \<Rightarrow> u32 \<Rightarrow> u32" where
  "Ch x y z = (x AND y) XOR (NOT x AND z)"

definition Maj :: "u32 \<Rightarrow> u32 \<Rightarrow> u32 \<Rightarrow> u32" where
  "Maj x y z = (x AND y) XOR (x AND z) XOR (y AND z)"

definition Sigma0 :: "u32 \<Rightarrow> u32" where
  "Sigma0 x = rotr 2 x XOR rotr 13 x XOR rotr 22 x"

definition Sigma1 :: "u32 \<Rightarrow> u32" where
  "Sigma1 x = rotr 6 x XOR rotr 11 x XOR rotr 25 x"

definition sigma0 :: "u32 \<Rightarrow> u32" where
  "sigma0 x = rotr 7 x XOR rotr 18 x XOR drop_bit 3 x"

definition sigma1 :: "u32 \<Rightarrow> u32" where
  "sigma1 x = rotr 17 x XOR rotr 19 x XOR drop_bit 10 x"

definition K256 :: "u32 list" where
  "K256 =
    [1116352408, 1899447441, 3049323471, 3921009573, 961987163, 1508970993, 2453635748, 2870763221,
     3624381080, 310598401, 607225278, 1426881987, 1925078388, 2162078206, 2614888103, 3248222580,
     3835390401, 4022224774, 264347078, 604807628, 770255983, 1249150122, 1555081692, 1996064986,
     2554220882, 2821834349, 2952996808, 3210313671, 3336571891, 3584528711, 113926993, 338241895,
     666307205, 773529912, 1294757372, 1396182291, 1695183700, 1986661051, 2177026350, 2456956037,
     2730485921, 2820302411, 3259730800, 3345764771, 3516065817, 3600352804, 4094571909, 275423344,
     430227734, 506948616, 659060556, 883997877, 958139571, 1322822218, 1537002063, 1747873779,
     1955562222, 2024104815, 2227730452, 2361852424, 2428436474, 2756734187, 3204031479, 3329325298]"

definition H256 :: "u32 list" where
  "H256 = [1779033703, 3144134277, 1013904242, 2773480762,
           1359893119, 2600822924, 528734635, 1541459225]"

text \<open>The message schedule, extended one word at a time at the front.\<close>

fun schedule_rev :: "nat \<Rightarrow> u32 list \<Rightarrow> u32 list" where
  "schedule_rev 0 ws = ws"
| "schedule_rev (Suc n) ws =
     schedule_rev n ((sigma1 (ws ! 1) + ws ! 6 + sigma0 (ws ! 14) + ws ! 15) # ws)"

fun round256 :: "u32 list \<Rightarrow> u32 \<times> u32 \<Rightarrow> u32 list" where
  "round256 [a, b, c, d, e, f, g, h] (k, w) =
     (let t1 = h + Sigma1 e + Ch e f g + k + w;
          t2 = Sigma0 a + Maj a b c
      in [t1 + t2, a, b, c, d + t1, e, f, g])"
| "round256 st kw = st"

fun word_of_bytes :: "bytes \<Rightarrow> u32" where
  "word_of_bytes bs = fold (\<lambda>b acc. acc * 256 + ucast b) bs 0"

fun chunks :: "nat \<Rightarrow> nat \<Rightarrow> 'a list \<Rightarrow> 'a list list" where
  "chunks k 0 xs = []"
| "chunks k (Suc n) xs = take k xs # chunks k n (drop k xs)"

definition compress :: "u32 list \<Rightarrow> bytes \<Rightarrow> u32 list" where
  "compress H block =
     (let ws = rev (schedule_rev 48 (rev (map word_of_bytes (chunks 4 16 block))))
      in map2 (+) H (foldl round256 H (zip K256 ws)))"

definition be_bytes :: "nat \<Rightarrow> nat \<Rightarrow> bytes" where
  "be_bytes k n = map (\<lambda>i. word_of_nat (n div 256 ^ (k - 1 - i))) [0..<k]"

definition pad256 :: "bytes \<Rightarrow> bytes" where
  "pad256 m =
     m @ [0x80] @ replicate ((119 - length m mod 64) mod 64) 0 @ be_bytes 8 (8 * length m)"

definition sha256 :: "bytes \<Rightarrow> bytes" where
  "sha256 m =
     (let p = pad256 m in
      concat (map (\<lambda>w. be_bytes 4 (unat w))
        (foldl compress H256 (chunks 64 (length p div 64) p))))"

section \<open>HMAC-SHA-256\<close>

definition hmac_key :: "bytes \<Rightarrow> bytes" where
  "hmac_key key = (let k = (if length key > 64 then sha256 key else key)
                   in k @ replicate (64 - length k) 0)"

definition hmac_sha256 :: "bytes \<Rightarrow> bytes \<Rightarrow> bytes" where
  "hmac_sha256 key msg =
     (let k = hmac_key key in
      sha256 (map (\<lambda>b. b XOR 0x5c) k @ sha256 (map (\<lambda>b. b XOR 0x36) k @ msg)))"

section \<open>Shapes\<close>

lemma length_be_bytes [simp]: "length (be_bytes k n) = k"
  by (simp add: be_bytes_def)

lemma length_chunks [simp]: "length (chunks k n xs) = n"
  by (induction k n xs rule: chunks.induct) auto

lemma length_schedule_rev [simp]: "length (schedule_rev n ws) = n + length ws"
  by (induction n ws rule: schedule_rev.induct) auto

lemma length_round256 [simp]: "length (round256 st kw) = length st"
  by (induction st kw rule: round256.induct) (auto simp: Let_def)

lemma length_foldl_round256 [simp]: "length (foldl round256 st kws) = length st"
  by (induction kws arbitrary: st) auto

lemma length_compress [simp]: "length (compress H block) = length H"
  by (simp add: compress_def Let_def)

lemma length_foldl_compress [simp]: "length (foldl compress H bs) = length H"
  by (induction bs arbitrary: H) auto

lemma length_concat_const: "(\<And>x. x \<in> set xs \<Longrightarrow> length (f x) = k) \<Longrightarrow>
    length (concat (map f xs)) = k * length xs"
  by (induction xs) auto

lemma length_sha256 [simp]: "length (sha256 m) = 32"
proof -
  have "length H256 = 8" by (simp add: H256_def)
  then show ?thesis
    unfolding sha256_def Let_def by (subst length_concat_const [where k = 4]) auto
qed

lemma length_pad256: "64 dvd length (pad256 m)"
proof -
  define r where "r = length m mod 64"
  have "length (pad256 m) = 64 * (length m div 64) + (r + (119 - r) mod 64 + 9)"
    by (simp add: pad256_def r_def)
  moreover have "r < 64" by (simp add: r_def)
  then have "64 dvd r + (119 - r) mod 64 + 9"
    by (cases "r \<le> 55") (auto simp: mod_if)
  ultimately show ?thesis by simp
qed

lemma length_hmac_sha256 [simp]: "length (hmac_sha256 key msg) = 32"
  by (simp add: hmac_sha256_def Let_def)

lemma length_hex_bytes [simp]: "length (hex_bytes bs) = 2 * length bs"
  unfolding hex_bytes_def by (subst length_concat_const [where k = 2]) (auto simp del: hex_digits.simps)

lemma set_hex_bytes: "set (hex_bytes bs) \<subseteq> digit_char ` {..<16}"
  using set_hex_digits unfolding hex_bytes_def by fastforce

lemma encode_append [simp]: "encode (s @ t) = encode s @ encode t"
  by (simp add: encode_def)

end
