(* ===== verification/Signature.thy ===== *)
theory Signature
  imports Sha256
begin

text \<open>
  \<open>packages/auth/eventmesh_auth/signature.py\<close>: webhook signatures and API keys. The clock
  (\<open>time.time()\<close>) and the random token (\<open>secrets.token_urlsafe\<close>) are arguments.
\<close>

section \<open>Comparison\<close>

text \<open>\<open>hmac.compare_digest\<close> on two strings: TypeError unless both are ASCII.\<close>

definition compare_digest :: "string \<Rightarrow> string \<Rightarrow> bool result" where
  "compare_digest a b =
     (if isascii a \<and> isascii b then Inr (a = b)
      else Inl (TypeError ''comparing strings with non-ASCII characters is not supported''))"

section \<open>Webhook signatures\<close>

definition sign_payload :: "string \<Rightarrow> int \<Rightarrow> bytes \<Rightarrow> string" where
  "sign_payload secret timestamp raw_body =
     hex_bytes (hmac_sha256 (encode secret) (encode (str_int timestamp @ ''.'') @ raw_body))"

definition build_signature_header :: "real \<Rightarrow> string \<Rightarrow> bytes \<Rightarrow> int option \<Rightarrow> string" where
  "build_signature_header time secret raw_body timestamp =
     (let ts = (case timestamp of Some t \<Rightarrow> t | None \<Rightarrow> trunc time);
          sig = sign_payload secret ts raw_body
      in ''t='' @ str_int ts @ '',v1='' @ sig)"

text \<open>\<open>dict(p.split("=", 1) for p in header_value.split(",") if "=" in p)\<close>: the last value wins.\<close>

definition header_parts :: "string \<Rightarrow> (string \<rightharpoonup> string)" where
  "header_parts header_value =
     map_of (rev (map (\<lambda>p. case partition1 (CHR ''='') p of (k, _, v) \<Rightarrow> (k, v))
       (filter (\<lambda>p. CHR ''='' \<in> set p) (split_on (CHR '','') header_value))))"

text \<open>
  \<open>int(s)\<close> refuses, with ValueError, more than 4300 digits; a float and an int are subtracted as floats, which
  raises OverflowError if the int is too large for one. \<open>max_float\<close> is the largest float.
\<close>

definition int_text :: "string \<Rightarrow> int option" where
  "int_text s = (if 4300 < length (filter (\<lambda>c. 48 \<le> ord c \<and> ord c \<le> 57) s) then None else py_int 10 s)"

definition max_float :: real where
  "max_float = 2 ^ 1024 - 2 ^ 971"

definition float_sub_int :: "real \<Rightarrow> int \<Rightarrow> real result" where
  "float_sub_int x n =
     (if \<bar>n\<bar> < 2 ^ 1024 - 2 ^ 970 then Inr (x - of_int n) else Inl (OverflowError ''int too large to convert to float''))"

definition verify_signature_header ::
    "real \<Rightarrow> string \<Rightarrow> bytes \<Rightarrow> string \<Rightarrow> int \<Rightarrow> bool result" where
  "verify_signature_header time secret raw_body header_value tolerance_seconds =
     (let parts = header_parts header_value in
      case (parts ''t'', parts ''v1'') of
        (Some t, Some v1) \<Rightarrow>
          (case int_text t of
             None \<Rightarrow> Inr False
           | Some ts \<Rightarrow>
               rbind (float_sub_int time ts) (\<lambda>age.
               if \<bar>age\<bar> > of_int tolerance_seconds then Inr False
               else compare_digest (sign_payload secret ts raw_body) v1))
      | _ \<Rightarrow> Inr False)"

section \<open>API keys\<close>

definition API_KEY_PREFIX_LEN :: nat where
  "API_KEY_PREFIX_LEN = 12"

definition hash_api_key :: "string \<Rightarrow> string" where
  "hash_api_key raw_key = hex_bytes (sha256 (encode raw_key))"

definition generate_api_key :: "bool \<Rightarrow> string \<Rightarrow> string \<times> string \<times> string" where
  "generate_api_key live token =
     (let env = (if live then ''live'' else ''test'');
          raw_key = ''em_'' @ env @ ''_'' @ token;
          key_prefix = take API_KEY_PREFIX_LEN raw_key;
          key_hash = hash_api_key raw_key
      in (raw_key, key_prefix, key_hash))"

definition verify_api_key :: "string \<Rightarrow> string \<Rightarrow> bool result" where
  "verify_api_key raw_key key_hash = compare_digest (hash_api_key raw_key) key_hash"

section \<open>Hexadecimal digests\<close>

lemma isascii_hex_bytes [simp]: "isascii (hex_bytes bs)"
proof -
  have "ord c < 128" if "c \<in> set (hex_bytes bs)" for c
    using subsetD [OF set_hex_bytes that] by (auto simp: ord_digit_char split: if_splits)
  then show ?thesis by (simp add: isascii_def list_all_iff)
qed

lemma isascii_sign_payload [simp]: "isascii (sign_payload secret ts body)"
  by (simp add: sign_payload_def)

lemma isascii_hash_api_key [simp]: "isascii (hash_api_key k)"
  by (simp add: hash_api_key_def)

lemma hex_digits2_inject:
  fixes a b :: byte
  assumes "hex_digits 2 (unat a) = hex_digits 2 (unat b)"
  shows "a = b"
proof -
  have lt: "unat w < 16 ^ 2" for w :: byte using unsigned_less [of w] by simp
  from assms int_digits_hex_digits [of 2 "unat a"] int_digits_hex_digits [of 2 "unat b"]
  have "unat a mod 16 ^ 2 = unat b mod 16 ^ 2" by simp
  with lt [of a] lt [of b] have "unat a = unat b" by simp
  then show ?thesis by (rule unsigned_word_eqI)
qed

lemma hex_bytes_inject: "hex_bytes a = hex_bytes b \<longleftrightarrow> a = b"
proof
  show "hex_bytes a = hex_bytes b \<Longrightarrow> a = b"
  proof (induction a arbitrary: b)
    case Nil
    then have "length (hex_bytes b) = 0" by (metis length_hex_bytes list.size(3) mult_0_right)
    then show ?case by simp
  next
    case (Cons x a)
    from Cons.prems have "length (hex_bytes b) = 2 * Suc (length a)"
      by (metis length_hex_bytes length_Cons)
    then obtain y b' where b: "b = y # b'" by (cases b) auto
    with Cons.prems have "hex_digits 2 (unat x) = hex_digits 2 (unat y) \<and> hex_bytes a = hex_bytes b'"
      by (simp add: hex_bytes_def del: hex_digits.simps)
    with Cons.IH hex_digits2_inject b show ?case by blast
  qed
qed simp

lemma sign_payload_eq_iff:
  "sign_payload secret ts body = sign_payload secret' ts' body' \<longleftrightarrow>
     hmac_sha256 (encode secret) (encode (str_int ts @ ''.'') @ body) =
     hmac_sha256 (encode secret') (encode (str_int ts' @ ''.'') @ body')"
  by (simp only: sign_payload_def hex_bytes_inject)

section \<open>Reading back a built header\<close>

lemma sign_payload_not_mem:
  "ord c < 48 \<or> 57 < ord c \<and> ord c < 97 \<or> 122 < ord c \<Longrightarrow> c \<notin> set (sign_payload secret ts body)"
  using notin_digits [of "sign_payload secret ts body" c] set_hex_bytes digits_sub [of 16]
  unfolding sign_payload_def by fastforce

lemma header_parts_built:
  "header_parts (''t='' @ str_int ts @ '',v1='' @ sign_payload secret ts' body) =
     [''t'' \<mapsto> str_int ts, ''v1'' \<mapsto> sign_payload secret ts' body]"
proof -
  let ?sig = "sign_payload secret ts' body"
  have t: "CHR '','' \<notin> set (''t='' @ str_int ts)" by (simp add: str_int_chars)
  have v: "CHR '','' \<notin> set (''v1='' @ ?sig)" by (simp add: sign_payload_not_mem)
  have "split_on (CHR '','') (''t='' @ str_int ts @ '',v1='' @ ?sig) =
      [''t='' @ str_int ts, ''v1='' @ ?sig]"
    using split_on_append [OF t, of "''v1='' @ ?sig"] split_on_none [OF v] by simp
  then show ?thesis by (auto simp: header_parts_def)
qed

subsection \<open>Timestamps within the range of floats\<close>

lemma length_str_nat: "n < 10 ^ k \<Longrightarrow> 0 < k \<Longrightarrow> length (str_nat n) \<le> k"
proof (induction k arbitrary: n)
  case (Suc k)
  show ?case
  proof (cases "k = 0")
    case True
    with Suc.prems show ?thesis by (subst str_nat.simps) simp
  next
    case False
    from Suc.prems have "n div 10 < 10 ^ k" by (simp add: div_less_iff_less_mult mult.commute)
    with Suc.IH [of "n div 10"] False show ?thesis by (subst str_nat.simps) simp
  qed
qed simp

lemma int_text_str_int:
  assumes "\<bar>n\<bar> < 2 ^ k" "0 < k" "k < 4300"
  shows "int_text (str_int n) = Some n"
proof -
  have "nat \<bar>n\<bar> < 2 ^ k" using assms(1) by (simp add: nat_less_iff)
  also have "\<dots> \<le> 10 ^ k" by (rule power_mono) simp_all
  finally have "length (str_nat (nat \<bar>n\<bar>)) \<le> k" using length_str_nat assms(2) by blast
  then have "length (str_int n) \<le> Suc k" by (auto simp: str_int_def)
  with length_filter_le [of "\<lambda>c. 48 \<le> ord c \<and> ord c \<le> 57" "str_int n"] assms(3)
  have "length (filter (\<lambda>c. 48 \<le> ord c \<and> ord c \<le> 57) (str_int n)) \<le> 4300" by linarith
  then show ?thesis by (simp add: int_text_def)
qed

lemma int_text_iff:
  "int_text s = Some n \<longleftrightarrow> length (filter (\<lambda>c. 48 \<le> ord c \<and> ord c \<le> 57) s) \<le> 4300 \<and> py_int 10 s = Some n"
  by (auto simp: int_text_def)

lemma trunc_in_float_range:
  assumes "\<bar>x\<bar> \<le> max_float"
  shows "\<bar>trunc x\<bar> < 2 ^ 1024 - 2 ^ 970"
proof -
  have "of_int \<bar>trunc x\<bar> \<le> \<bar>x\<bar>" by (cases "0 \<le> x") (simp_all add: trunc_def)
  with assms have "of_int \<bar>trunc x\<bar> \<le> (of_int (2 ^ 1024 - 2 ^ 971) :: real)" by (simp add: max_float_def)
  then have "\<bar>trunc x\<bar> \<le> 2 ^ 1024 - 2 ^ 971" by (simp only: of_int_le_iff)
  then show ?thesis by simp
qed

lemma verify_built:
  assumes "\<bar>ts\<bar> < 2 ^ 1024 - 2 ^ 970"
  shows "verify_signature_header time secret body
     (build_signature_header time' secret' body' (Some ts)) tol =
     Inr (\<bar>time - of_int ts\<bar> \<le> of_int tol \<and>
          sign_payload secret ts body = sign_payload secret' ts body')"
proof -
  have "int_text (str_int ts) = Some ts" using assms by (intro int_text_str_int [of _ 1024]) simp_all
  with assms show ?thesis
    by (auto simp: verify_signature_header_def build_signature_header_def Let_def float_sub_int_def
        header_parts_built [simplified] compare_digest_def)
qed

lemma verify_Inr_True_iff:
  "verify_signature_header time secret body hdr tol = Inr True \<longleftrightarrow>
     (\<exists>t ts. header_parts hdr ''t'' = Some t \<and> int_text t = Some ts \<and> \<bar>ts\<bar> < 2 ^ 1024 - 2 ^ 970 \<and>
        \<bar>time - of_int ts\<bar> \<le> of_int tol \<and>
        header_parts hdr ''v1'' = Some (sign_payload secret ts body))"
  by (auto simp: verify_signature_header_def Let_def compare_digest_def float_sub_int_def rbind_Inr_iff
      split: option.splits if_splits)

lemma verify_built_now:
  assumes "\<bar>signed_at\<bar> \<le> max_float"
  shows "verify_signature_header now secret body (build_signature_header signed_at secret body None) tol =
     Inr (\<bar>now - of_int (trunc signed_at)\<bar> \<le> of_int tol)"
proof -
  have "build_signature_header signed_at secret body None =
      build_signature_header signed_at secret body (Some (trunc signed_at))"
    by (simp add: build_signature_header_def)
  then show ?thesis by (simp add: verify_built [OF trunc_in_float_range [OF assms]])
qed

section \<open>Properties\<close>

text \<open>
  A header built for a body verifies, under the same secret and body, exactly as long as
  the verifier's clock is within the tolerance of the signing time, which is a float.
\<close>

lemma signature_round_trip:
  assumes "\<bar>signed_at\<bar> \<le> max_float"
  shows "verify_signature_header now secret body (build_signature_header signed_at secret body None) tol =
     Inr (\<bar>now - of_int (trunc signed_at)\<bar> \<le> of_int tol)"
  using assms by (rule verify_built_now)

text \<open>A header with a timestamp beyond the range of floats makes the verifier raise, whatever its signature.\<close>

lemma huge_timestamp_raises:
  assumes "header_parts hdr ''t'' = Some t" "int_text t = Some ts" "2 ^ 1024 - 2 ^ 970 \<le> \<bar>ts\<bar>"
    "header_parts hdr ''v1'' = Some v"
  shows "\<exists>m. verify_signature_header now secret body hdr tol = Inl (OverflowError m)"
  using assms by (simp add: verify_signature_header_def float_sub_int_def)

text \<open>
  C20. What acceptance means: a header is accepted exactly if it carries a timestamp, of at most 4300 digits and in the range
  of floats, within the tolerance and, as \<open>v1\<close>, the hexadecimal HMAC-SHA256 of the timestamp and the body under the
  secret.
\<close>

theorem signature_accept_iff:
  "verify_signature_header now secret body hdr tol = Inr True \<longleftrightarrow>
     (\<exists>t ts. header_parts hdr ''t'' = Some t \<and> length (filter (\<lambda>c. 48 \<le> ord c \<and> ord c \<le> 57) t) \<le> 4300 \<and>
        py_int 10 t = Some ts \<and> \<bar>ts\<bar> < 2 ^ 1024 - 2 ^ 970 \<and> \<bar>now - of_int ts\<bar> \<le> of_int tol \<and>
        header_parts hdr ''v1'' =
          Some (hex_bytes (hmac_sha256 (encode secret) (encode (str_int ts @ ''.'') @ body))))"
  unfolding verify_Inr_True_iff sign_payload_def int_text_iff conj_assoc by (rule refl)

text \<open>
  A generated API key verifies against its own stored hash, and against another key only
  on a SHA-256 collision; the stored prefix is the first twelve characters of the key and the
  stored hash has the 64 characters the column holds.
\<close>

lemma generated_api_key_verifies:
  assumes "generate_api_key live token = (raw_key, key_prefix, key_hash)"
  shows "verify_api_key raw_key key_hash = Inr True \<and>
    (verify_api_key other key_hash = Inr True \<longleftrightarrow> sha256 (encode other) = sha256 (encode raw_key)) \<and>
    raw_key = (if live then ''em_live_'' else ''em_test_'') @ token \<and>
    key_prefix = take 12 raw_key \<and> length key_hash = 64"
  using assms
  by (auto simp: generate_api_key_def Let_def verify_api_key_def compare_digest_def hash_api_key_def
      hex_bytes_inject API_KEY_PREFIX_LEN_def)

end
