(* ===== verification/Delivery_Engine.thy ===== *)
theory Delivery_Engine
  imports Database Settings Retry Circuit_Breaker Classify Ssrf Signature
begin

text \<open>
  The delivery engine, \<open>apps/worker/eventmesh_worker/delivery_engine.py\<close>. One call of a method
  takes the engine's state (the database as committed, the HTTP requests sent so far, the
  metrics log) and returns the result or exception with the new state. What the code reads
  from outside is in \<open>delivery_env\<close>: the resolver, the HTTP client (\<open>httpx\<close>), the decryption
  of the stored secret (\<open>cryptography\<close>), the fresh identifier, the clocks and the random
  number.
\<close>

section \<open>State and environment\<close>

record http_request =
  rq_url :: string
  rq_content :: bytes
  rq_headers :: "(string \<times> string) list"

datatype http_result = HttpResponse int | HttpTimeout | HttpTransportError | HttpRaises exn

record delivery_env =
  de_net :: net_env
  de_http :: "http_request \<Rightarrow> http_result"
  de_decrypt :: "string \<Rightarrow> string result"
  de_new_id :: uuid
  de_rand :: real
  de_time :: real
  de_mono_allow :: real
  de_mono_start :: real
  de_mono_end :: real
  de_mono_record :: real
  de_started :: datetime
  de_completed :: datetime
  de_retry_now :: datetime
  de_db_now :: datetime

record engine_state =
  es_db :: db
  es_sent :: "http_request list"
  es_metrics :: "metric list"

record delivery_outcome_summary =
  sm_endpoint_id :: uuid
  sm_outcome :: outcome
  sm_http_status :: "int option"

definition add_metric :: "metric \<Rightarrow> engine_state \<Rightarrow> engine_state" where
  "add_metric m st = st\<lparr>es_metrics := es_metrics st @ [m]\<rparr>"

text \<open>\<open>__init__\<close>: the retry policy from the settings.\<close>

definition engine_retry_policy :: "settings \<Rightarrow> exponential_backoff_policy" where
  "engine_retry_policy s =
     \<lparr>base_seconds = retry_base_seconds s, max_delay_seconds = retry_max_delay_seconds s,
      max_attempts = retry_max_attempts s, jitter_ratio = retry_jitter_ratio s\<rparr>"

section \<open>Circuit breaker persistence\<close>

definition load_circuit_breaker :: "settings \<Rightarrow> endpoint \<Rightarrow> circuit_breaker result" where
  "load_circuit_breaker s ep =
     (let cb = \<lparr>failure_threshold = circuit_failure_threshold s,
                open_duration_seconds = circuit_open_duration_seconds s,
                half_open_max_requests = circuit_half_open_max_requests s,
                cb_state = initial_state\<rparr>
      in rbind (circuit_state_of (ep_circuit_state ep)) (\<lambda>c.
           Inr (cb\<lparr>cb_state := (cb_state cb)\<lparr>state := c\<rparr>\<rparr>)))"

text \<open>The ORM writes a column only when the value differs from the one it loaded.\<close>

definition save_circuit_breaker :: "datetime \<Rightarrow> endpoint \<Rightarrow> circuit_breaker \<Rightarrow> db \<Rightarrow> db" where
  "save_circuit_breaker now ep cb d =
     (let v = circuit_state_value (state (cb_state cb)) in
      if v = ep_circuit_state ep then d
      else modify_endpoint (ep_id ep) (\<lambda>e. e\<lparr>ep_circuit_state := v, ep_updated_at := now\<rparr>) d)"

section \<open>Delivery rows\<close>

definition new_delivery :: "uuid \<Rightarrow> uuid \<Rightarrow> uuid \<Rightarrow> int \<Rightarrow> delivery_status \<Rightarrow> datetime \<Rightarrow> delivery" where
  "new_delivery i event_id endpoint_id n status now =
     \<lparr>dl_id = i, dl_event_id = event_id, dl_endpoint_id = endpoint_id, dl_attempt_number = n,
      dl_status = delivery_status_value status, dl_http_status = None, dl_latency_ms = None,
      dl_error_code = None, dl_error_message = None, dl_started_at = None,
      dl_completed_at = None, dl_next_retry_at = None, dl_is_replay = False,
      dl_created_at = now\<rparr>"

definition schedule_retry ::
    "delivery_env \<Rightarrow> uuid \<Rightarrow> uuid \<Rightarrow> int \<Rightarrow> real \<Rightarrow> db \<Rightarrow> db result" where
  "schedule_retry env event_id endpoint_id attempt_number delay_seconds d =
     insert_delivery
       ((new_delivery (de_new_id env) event_id endpoint_id attempt_number DL_RETRYING (de_db_now env))
          \<lparr>dl_next_retry_at := Some (de_retry_now env + timedelta_seconds delay_seconds)\<rparr>) d"

definition terminal_statuses :: "string set" where
  "terminal_statuses = {delivery_status_value DL_DELIVERED, delivery_status_value DL_DLQ}"

definition delivery_statuses :: "uuid \<Rightarrow> db \<Rightarrow> string set" where
  "delivery_statuses event_id d =
     dl_status ` set (filter (\<lambda>r. dl_event_id r = event_id) (deliveries d))"

definition maybe_complete_event :: "datetime \<Rightarrow> event \<Rightarrow> db \<Rightarrow> db" where
  "maybe_complete_event now ev d =
     (let statuses = delivery_statuses (ev_id ev) d in
      if statuses \<noteq> {} \<and> statuses \<subseteq> terminal_statuses \<and>
         ev_status ev \<noteq> event_status_value EV_COMPLETED
      then modify_event (ev_id ev)
             (\<lambda>e. e\<lparr>ev_status := event_status_value EV_COMPLETED, ev_updated_at := now\<rparr>) d
      else d)"

section \<open>One attempt\<close>

text \<open>The signed request.\<close>

definition delivery_body :: "event \<Rightarrow> uuid \<Rightarrow> int \<Rightarrow> bytes" where
  "delivery_body ev delivery_id attempt_number =
     encode (json_dumps (JObj
       [(''event_id'', JStr (str_uuid (ev_id ev))),
        (''delivery_id'', JStr (str_uuid delivery_id)),
        (''attempt_number'', JInt attempt_number),
        (''type'', JStr (ev_event_type ev)),
        (''data'', ev_payload ev)]))"

definition delivery_request ::
    "delivery_env \<Rightarrow> string \<Rightarrow> event \<Rightarrow> endpoint \<Rightarrow> int \<Rightarrow> http_request" where
  "delivery_request env secret ev ep attempt_number =
     (let body = delivery_body ev (de_new_id env) attempt_number in
      \<lparr>rq_url = ep_url ep, rq_content = body,
       rq_headers =
         [(''Content-Type'', ''application/json''),
          (''X-EventMesh-Signature'', build_signature_header (de_time env) secret body None),
          (''X-EventMesh-Event-Id'', str_uuid (ev_id ev)),
          (''X-EventMesh-Delivery-Id'', str_uuid (de_new_id env))]\<rparr>)"

text \<open>After the answer: classify it, update the row, the breaker and the event, commit.\<close>

definition latency_ms :: "delivery_env \<Rightarrow> int" where
  "latency_ms env = trunc ((de_mono_end env - de_mono_start env) * 1000)"

definition finish_success ::
    "delivery_env \<Rightarrow> event \<Rightarrow> endpoint \<Rightarrow> circuit_breaker \<Rightarrow> int option \<Rightarrow>
     engine_state \<Rightarrow> engine_state" where
  "finish_success env ev ep cb status_code st =
     (let d1 = modify_delivery (de_new_id env)
                 (\<lambda>r. r\<lparr>dl_http_status := status_code, dl_latency_ms := Some (latency_ms env),
                       dl_completed_at := Some (de_completed env),
                       dl_status := delivery_status_value DL_DELIVERED\<rparr>) (es_db st);
          d2 = maybe_complete_event (de_db_now env) ev d1;
          d3 = save_circuit_breaker (de_db_now env) ep (cb_record_success cb) d2
      in add_metric (Delivery_success_total (ev_event_type ev)) (st\<lparr>es_db := d3\<rparr>))"

text \<open>The status and the retry time a failed attempt gets.\<close>

definition failure_disposition ::
    "settings \<Rightarrow> delivery_env \<Rightarrow> outcome \<Rightarrow> int \<Rightarrow> (delivery_status \<times> datetime option) result" where
  "failure_disposition s env out attempt_number =
     (if out = PERMANENT_FAILURE then Inr (DL_DLQ, None)
      else rbind (exp_next_delay_seconds (engine_retry_policy s) (de_rand env) attempt_number)
        (\<lambda>delay. case delay of
             None \<Rightarrow> Inr (DL_DLQ, None)
           | Some x \<Rightarrow> Inr (DL_RETRYING, Some (de_retry_now env + timedelta_seconds x))))"

definition finish_failure ::
    "settings \<Rightarrow> delivery_env \<Rightarrow> event \<Rightarrow> endpoint \<Rightarrow> circuit_breaker \<Rightarrow> int option \<Rightarrow>
     classification_result \<Rightarrow> int \<Rightarrow> engine_state \<Rightarrow> unit result \<times> engine_state" where
  "finish_failure s env ev ep cb status_code result attempt_number st =
     (let cb' = cb_record_failure (de_mono_record env) cb;
          st1 = (if state (cb_state cb') = OPEN then add_metric Circuit_breaker_open_total st else st);
          st2 = add_metric (Delivery_failure_total (ev_event_type ev)
                  (outcome_value (cl_outcome result))) st1
      in case failure_disposition s env (cl_outcome result) attempt_number of
           Inl e \<Rightarrow> (Inl e, st2)
         | Inr (status, retry_at) \<Rightarrow>
             let d1 = modify_delivery (de_new_id env)
                        (\<lambda>r. r\<lparr>dl_http_status := status_code, dl_latency_ms := Some (latency_ms env),
                              dl_completed_at := Some (de_completed env),
                              dl_error_message := Some (cl_reason result),
                              dl_status := delivery_status_value status,
                              dl_next_retry_at := retry_at\<rparr>) (es_db st2);
                 d2 = save_circuit_breaker (de_db_now env) ep cb' d1;
                 st3 = (if status = DL_RETRYING
                        then add_metric (Delivery_retry_total (ev_event_type ev)) st2 else st2)
             in (Inr (), st3\<lparr>es_db := d2\<rparr>))"

definition finish_delivery ::
    "settings \<Rightarrow> delivery_env \<Rightarrow> event \<Rightarrow> endpoint \<Rightarrow> circuit_breaker \<Rightarrow> int \<Rightarrow>
     int option \<Rightarrow> bool \<Rightarrow> bool \<Rightarrow> engine_state \<Rightarrow>
     delivery_outcome_summary result \<times> engine_state" where
  "finish_delivery s env ev ep cb attempt_number status_code timed_out connection_error st =
     (let st1 = add_metric (Delivery_latency_seconds (ev_event_type ev)
                  (of_int (latency_ms env) / 1000)) st;
          result = classify_response status_code timed_out connection_error;
          summary = \<lparr>sm_endpoint_id = ep_id ep, sm_outcome = cl_outcome result,
                     sm_http_status = status_code\<rparr>
      in if cl_outcome result = SUCCESS
         then (Inr summary, finish_success env ev ep cb status_code st1)
         else case finish_failure s env ev ep cb status_code result attempt_number st1 of
                (Inl e, st2) \<Rightarrow> (Inl e, st2)
              | (Inr _, st2) \<Rightarrow> (Inr summary, st2))"

text \<open>Sending; the answer's status or the kind of network failure.\<close>

definition send_and_finish ::
    "settings \<Rightarrow> delivery_env \<Rightarrow> string \<Rightarrow> event \<Rightarrow> endpoint \<Rightarrow> circuit_breaker \<Rightarrow> int \<Rightarrow>
     engine_state \<Rightarrow> delivery_outcome_summary result \<times> engine_state" where
  "send_and_finish s env secret ev ep cb attempt_number st =
     (let rq = delivery_request env secret ev ep attempt_number;
          st1 = st\<lparr>es_sent := es_sent st @ [rq]\<rparr>
      in case de_http env rq of
           HttpRaises e \<Rightarrow> (Inl e, st1)
         | HttpResponse c \<Rightarrow>
             finish_delivery s env ev ep cb attempt_number (Some c) False False st1
         | HttpTimeout \<Rightarrow> finish_delivery s env ev ep cb attempt_number None True False st1
         | HttpTransportError \<Rightarrow> finish_delivery s env ev ep cb attempt_number None False True st1)"

text \<open>
  The attempt once the breaker lets it through: commit a DELIVERING row, validate the
  destination again, decrypt the secret, send.
\<close>

definition attempt_delivery ::
    "settings \<Rightarrow> delivery_env \<Rightarrow> event \<Rightarrow> endpoint \<Rightarrow> circuit_breaker \<Rightarrow> int \<Rightarrow>
     engine_state \<Rightarrow> delivery_outcome_summary result \<times> engine_state" where
  "attempt_delivery s env ev ep cb attempt_number st =
     (let row = (new_delivery (de_new_id env) (ev_id ev) (ep_id ep) attempt_number DL_DELIVERING
                   (de_db_now env))\<lparr>dl_started_at := Some (de_started env)\<rparr>
      in case insert_delivery row (es_db st) of
           Inl e \<Rightarrow> (Inl e, st)
         | Inr d1 \<Rightarrow>
             let st1 = add_metric (Deliveries_total (ev_event_type ev)) (st\<lparr>es_db := d1\<rparr>) in
             (case validate_webhook_url (de_net env) (ep_url ep) (max_endpoint_url_length s) of
                Inl (SSRFValidationError m) \<Rightarrow>
                  (Inr \<lparr>sm_endpoint_id = ep_id ep, sm_outcome = PERMANENT_FAILURE,
                        sm_http_status = None\<rparr>,
                   st1\<lparr>es_db := modify_delivery (de_new_id env)
                     (\<lambda>r. r\<lparr>dl_status := delivery_status_value DL_DLQ,
                           dl_error_message := Some (''SSRF validation failed at send-time: '' @ m),
                           dl_completed_at := Some (de_completed env)\<rparr>) d1\<rparr>)
              | Inl e \<Rightarrow> (Inl e, st1)
              | Inr _ \<Rightarrow>
                  (case de_decrypt env (ep_secret_encrypted ep) of
                     Inl e \<Rightarrow> (Inl e, st1)
                   | Inr secret \<Rightarrow> send_and_finish s env secret ev ep cb attempt_number st1)))"

definition deliver_to_endpoint ::
    "settings \<Rightarrow> delivery_env \<Rightarrow> uuid \<Rightarrow> uuid \<Rightarrow> int \<Rightarrow> engine_state \<Rightarrow>
     delivery_outcome_summary result \<times> engine_state" where
  "deliver_to_endpoint s env event_id endpoint_id attempt_number st =
     (case (get_event_row event_id (es_db st), get_endpoint endpoint_id (es_db st)) of
        (Some ev, Some ep) \<Rightarrow>
          (case load_circuit_breaker s ep of
             Inl e \<Rightarrow> (Inl e, st)
           | Inr cb0 \<Rightarrow>
               (case cb_allow_request (de_mono_allow env) cb0 of
                  (False, cb) \<Rightarrow>
                    (case schedule_retry env event_id endpoint_id attempt_number
                            (circuit_open_duration_seconds s) (es_db st) of
                       Inl e \<Rightarrow> (Inl e, st)
                     | Inr d1 \<Rightarrow>
                         (Inr \<lparr>sm_endpoint_id = endpoint_id, sm_outcome = RETRY,
                               sm_http_status = None\<rparr>, st\<lparr>es_db := d1\<rparr>))
                | (True, cb) \<Rightarrow> attempt_delivery s env ev ep cb attempt_number st))
      | _ \<Rightarrow> (Inr \<lparr>sm_endpoint_id = endpoint_id, sm_outcome = PERMANENT_FAILURE,
                    sm_http_status = None\<rparr>, st))"

section \<open>One message\<close>

definition json_uuid :: "json \<Rightarrow> uuid result" where
  "json_uuid j =
     (case j of
        JStr t \<Rightarrow> (case uuid_of_str t of
                    None \<Rightarrow> Inl (ValueError ''badly formed hexadecimal UUID string'')
                  | Some u \<Rightarrow> Inr u)
      | _ \<Rightarrow> Inl (TypeError ''UUID''))"

text \<open>A value bound to a text column; \<open>None\<close> becomes \<open>IS NULL\<close>, and no other type is accepted.\<close>

definition json_text :: "json \<Rightarrow> string result" where
  "json_text j = (case j of JStr t \<Rightarrow> Inr t | _ \<Rightarrow> Inl (DataError ''event_type''))"

text \<open>Python's truth value of \<open>payload.get("target_endpoint_id")\<close>, the value itself if true.\<close>

definition truthy :: "json option \<Rightarrow> json option" where
  "truthy j =
     (case j of
        None \<Rightarrow> None
      | Some JNull \<Rightarrow> None
      | Some (JBool b) \<Rightarrow> if b then j else None
      | Some (JInt n) \<Rightarrow> if n \<noteq> 0 then j else None
      | Some (JStr t) \<Rightarrow> if t \<noteq> [] then j else None
      | Some (JList xs) \<Rightarrow> if xs \<noteq> [] then j else None
      | Some (JObj xs) \<Rightarrow> if xs \<noteq> [] then j else None
      | Some (JFloat r) \<Rightarrow> if r \<notin> {''0.0'', ''-0.0''} then j else None)"

definition subscribed_endpoints :: "uuid \<Rightarrow> string \<Rightarrow> db \<Rightarrow> uuid list" where
  "subscribed_endpoints tenant_id event_type d =
     [ep_id e. e \<leftarrow> endpoints d, sb \<leftarrow> subscriptions d,
        sub_endpoint_id sb = ep_id e \<and> ep_tenant_id e = tenant_id \<and>
        ep_status e = endpoint_status_value EP_ACTIVE \<and> sub_event_type sb = event_type]"

definition resolve_endpoints ::
    "(uuid list \<Rightarrow> uuid list) \<Rightarrow> uuid \<Rightarrow> json \<Rightarrow> json option \<Rightarrow> db \<Rightarrow> uuid list result" where
  "resolve_endpoints scan tenant_id event_type target_endpoint_id d =
     (case truthy target_endpoint_id of
        Some j \<Rightarrow>
          rbind (json_uuid j) (\<lambda>i.
            case get_endpoint i d of
              Some ep \<Rightarrow> Inr (if ep_status ep = endpoint_status_value EP_ACTIVE then [ep_id ep] else [])
            | None \<Rightarrow> Inr [])
      | None \<Rightarrow>
          if event_type = JNull then Inr []
          else rbind (json_text event_type) (\<lambda>et. Inr (scan (subscribed_endpoints tenant_id et d))))"

text \<open>The loop over the endpoints, each with its own environment; an exception ends it.\<close>

fun deliver_all ::
    "settings \<Rightarrow> (nat \<Rightarrow> delivery_env) \<Rightarrow> nat \<Rightarrow> uuid \<Rightarrow> uuid list \<Rightarrow> engine_state \<Rightarrow>
     delivery_outcome_summary list result \<times> engine_state" where
  "deliver_all s envs k event_id [] st = (Inr [], st)"
| "deliver_all s envs k event_id (ep # eps) st =
     (case deliver_to_endpoint s (envs k) event_id ep 1 st of
        (Inl e, st1) \<Rightarrow> (Inl e, st1)
      | (Inr sm, st1) \<Rightarrow>
          (case deliver_all s envs (Suc k) event_id eps st1 of
             (Inl e, st2) \<Rightarrow> (Inl e, st2)
           | (Inr sms, st2) \<Rightarrow> (Inr (sm # sms), st2)))"

definition set_processing :: "datetime \<Rightarrow> event \<Rightarrow> db \<Rightarrow> db" where
  "set_processing now ev d =
     (if ev_status ev = event_status_value EV_PROCESSING then d
      else modify_event (ev_id ev)
             (\<lambda>e. e\<lparr>ev_status := event_status_value EV_PROCESSING, ev_updated_at := now\<rparr>) d)"

definition parse_payload :: "(string \<times> json) list \<Rightarrow> (uuid \<times> uuid \<times> json \<times> json option) result" where
  "parse_payload p =
     rbind (rbind (dict_item p ''event_id'') json_uuid) (\<lambda>event_id.
     rbind (rbind (dict_item p ''tenant_id'') json_uuid) (\<lambda>tenant_id.
     rbind (dict_item p ''type'') (\<lambda>event_type.
       Inr (event_id, tenant_id, event_type, dict_get p ''target_endpoint_id''))))"

definition process_outbox_payload ::
    "settings \<Rightarrow> (uuid list \<Rightarrow> uuid list) \<Rightarrow> datetime \<Rightarrow> (nat \<Rightarrow> delivery_env) \<Rightarrow>
     (string \<times> json) list \<Rightarrow> engine_state \<Rightarrow>
     delivery_outcome_summary list result \<times> engine_state" where
  "process_outbox_payload s scan now envs payload st =
     (case parse_payload payload of
        Inl e \<Rightarrow> (Inl e, st)
      | Inr (event_id, tenant_id, event_type, target) \<Rightarrow>
          (case get_event_row event_id (es_db st) of
             None \<Rightarrow> (Inr [], st)
           | Some ev \<Rightarrow>
               (case resolve_endpoints scan tenant_id event_type target (es_db st) of
                  Inl e \<Rightarrow> (Inl e, st)
                | Inr eps \<Rightarrow>
                    if eps = [] then (Inr [], st)
                    else deliver_all s envs 0 event_id eps
                           (st\<lparr>es_db := set_processing now ev (es_db st)\<rparr>))))"

section \<open>The database stays consistent\<close>

lemma es_db_add_metric [simp]:
  "es_db (add_metric m st) = es_db st" "es_sent (add_metric m st) = es_sent st"
  by (simp_all add: add_metric_def)

lemma db_ok_save_circuit_breaker [db_ok_intros]:
  "db_ok d \<Longrightarrow> db_ok (save_circuit_breaker now ep cb d)"
  by (simp add: save_circuit_breaker_def Let_def db_ok_modify_endpoint)

lemma db_ok_maybe_complete_event [db_ok_intros]:
  "db_ok d \<Longrightarrow> db_ok (maybe_complete_event now ev d)"
  by (simp add: maybe_complete_event_def Let_def db_ok_modify_event)

lemma db_ok_set_processing [db_ok_intros]: "db_ok d \<Longrightarrow> db_ok (set_processing now ev d)"
  by (simp add: set_processing_def db_ok_modify_event)

lemma db_ok_finish_success:
  "db_ok (es_db st) \<Longrightarrow> db_ok (es_db (finish_success env ev ep cb c st))"
  by (simp add: finish_success_def Let_def db_ok_intros)

lemma db_ok_finish_failure:
  assumes "finish_failure s env ev ep cb c res n st = (r, st')" "db_ok (es_db st)"
  shows "db_ok (es_db st')"
proof (cases "failure_disposition s env (cl_outcome res) n")
  case (Inl e)
  with assms show ?thesis by (auto simp: finish_failure_def Let_def split: if_splits)
next
  case (Inr p)
  then obtain status retry_at where "failure_disposition s env (cl_outcome res) n = Inr (status, retry_at)"
    by (cases p) simp
  with assms show ?thesis
    by (auto simp: finish_failure_def Let_def intro!: db_ok_save_circuit_breaker db_ok_modify_delivery)
qed

lemma db_ok_finish_delivery:
  "finish_delivery s env ev ep cb n c t x st = (r, st') \<Longrightarrow> db_ok (es_db st) \<Longrightarrow> db_ok (es_db st')"
  by (auto simp: finish_delivery_def Let_def db_ok_finish_success split: sum.splits prod.splits if_splits
      dest!: db_ok_finish_failure)

lemma db_ok_send_and_finish:
  "send_and_finish s env sec ev ep cb n st = (r, st') \<Longrightarrow> db_ok (es_db st) \<Longrightarrow> db_ok (es_db st')"
  by (auto simp: send_and_finish_def Let_def split: http_result.splits dest!: db_ok_finish_delivery)

lemma new_delivery_sel [simp]:
  "dl_id (new_delivery i eid epid n status now) = i"
  "dl_event_id (new_delivery i eid epid n status now) = eid"
  "dl_endpoint_id (new_delivery i eid epid n status now) = epid"
  "dl_attempt_number (new_delivery i eid epid n status now) = n"
  "dl_status (new_delivery i eid epid n status now) = delivery_status_value status"
  by (simp_all add: new_delivery_def)

text \<open>The branches of an attempt, one equation each.\<close>

abbreviation started_row :: "delivery_env \<Rightarrow> event \<Rightarrow> endpoint \<Rightarrow> int \<Rightarrow> delivery" where
  "started_row env ev ep n \<equiv>
     (new_delivery (de_new_id env) (ev_id ev) (ep_id ep) n DL_DELIVERING (de_db_now env))
       \<lparr>dl_started_at := Some (de_started env)\<rparr>"

abbreviation started_state :: "event \<Rightarrow> db \<Rightarrow> engine_state \<Rightarrow> engine_state" where
  "started_state ev d1 st \<equiv> add_metric (Deliveries_total (ev_event_type ev)) (st\<lparr>es_db := d1\<rparr>)"

lemma attempt_insert_fails:
  "insert_delivery (started_row env ev ep n) (es_db st) = Inl e \<Longrightarrow>
     attempt_delivery s env ev ep cb n st = (Inl e, st)"
  by (simp add: attempt_delivery_def Let_def)

lemma attempt_ssrf:
  "insert_delivery (started_row env ev ep n) (es_db st) = Inr d1 \<Longrightarrow>
   validate_webhook_url (de_net env) (ep_url ep) (max_endpoint_url_length s) =
     Inl (SSRFValidationError m) \<Longrightarrow>
   attempt_delivery s env ev ep cb n st =
     (Inr \<lparr>sm_endpoint_id = ep_id ep, sm_outcome = PERMANENT_FAILURE, sm_http_status = None\<rparr>,
      (started_state ev d1 st)\<lparr>es_db := modify_delivery (de_new_id env)
        (\<lambda>r. r\<lparr>dl_status := delivery_status_value DL_DLQ,
              dl_error_message := Some (''SSRF validation failed at send-time: '' @ m),
              dl_completed_at := Some (de_completed env)\<rparr>) d1\<rparr>)"
  by (simp add: attempt_delivery_def Let_def)

lemma attempt_raises:
  "insert_delivery (started_row env ev ep n) (es_db st) = Inr d1 \<Longrightarrow>
   validate_webhook_url (de_net env) (ep_url ep) (max_endpoint_url_length s) = Inl e \<Longrightarrow>
   \<forall>m. e \<noteq> SSRFValidationError m \<Longrightarrow>
   attempt_delivery s env ev ep cb n st = (Inl e, started_state ev d1 st)"
  by (cases e) (simp_all add: attempt_delivery_def Let_def)

lemma attempt_valid:
  "insert_delivery (started_row env ev ep n) (es_db st) = Inr d1 \<Longrightarrow>
   validate_webhook_url (de_net env) (ep_url ep) (max_endpoint_url_length s) = Inr u \<Longrightarrow>
   attempt_delivery s env ev ep cb n st =
     (case de_decrypt env (ep_secret_encrypted ep) of
        Inl e \<Rightarrow> (Inl e, started_state ev d1 st)
      | Inr secret \<Rightarrow> send_and_finish s env secret ev ep cb n (started_state ev d1 st))"
  by (simp add: attempt_delivery_def Let_def)

lemma attempt_delivery_cases:
  obtains (no_insert) e where "insert_delivery (started_row env ev ep n) (es_db st) = Inl e"
  | (ssrf) d1 m where "insert_delivery (started_row env ev ep n) (es_db st) = Inr d1"
      "validate_webhook_url (de_net env) (ep_url ep) (max_endpoint_url_length s) =
         Inl (SSRFValidationError m)"
  | (raises) d1 e where "insert_delivery (started_row env ev ep n) (es_db st) = Inr d1"
      "validate_webhook_url (de_net env) (ep_url ep) (max_endpoint_url_length s) = Inl e"
      "\<forall>m. e \<noteq> SSRFValidationError m"
  | (valid) d1 where "insert_delivery (started_row env ev ep n) (es_db st) = Inr d1"
      "validate_webhook_url (de_net env) (ep_url ep) (max_endpoint_url_length s) = Inr ()"
proof (cases "insert_delivery (started_row env ev ep n) (es_db st)")
  case (Inr d1)
  show thesis
  proof (cases "validate_webhook_url (de_net env) (ep_url ep) (max_endpoint_url_length s)")
    case (Inl e)
    then show thesis using Inr ssrf raises by (cases "\<exists>m. e = SSRFValidationError m") blast+
  qed (use Inr valid in simp)
qed (use no_insert in simp)

lemma db_ok_attempt_delivery:
  assumes "attempt_delivery s env ev ep cb n st = (r, st')" "db_ok (es_db st)"
  shows "db_ok (es_db st')"
proof (cases rule: attempt_delivery_cases [where env = env and ev = ev and ep = ep and n = n and st = st and s = s])
  case (no_insert e)
  with assms show ?thesis by (simp add: attempt_insert_fails)
next
  case (ssrf d1 m)
  have "db_ok d1" using db_ok_insert_delivery [OF ssrf(1) assms(2)] .
  with ssrf assms show ?thesis by (auto simp: attempt_ssrf intro!: db_ok_modify_delivery)
next
  case (raises d1 e)
  have "db_ok d1" using db_ok_insert_delivery [OF raises(1) assms(2)] .
  with raises assms show ?thesis by (auto simp: attempt_raises)
next
  case (valid d1)
  have "db_ok d1" using db_ok_insert_delivery [OF valid(1) assms(2)] .
  with valid assms show ?thesis
    by (auto simp: attempt_valid split: sum.splits dest!: db_ok_send_and_finish)
qed

lemma db_ok_deliver_to_endpoint:
  assumes "deliver_to_endpoint s env eid epid n st = (r, st')" "db_ok (es_db st)"
  shows "db_ok (es_db st')"
  using assms
  by (auto simp: deliver_to_endpoint_def schedule_retry_def split: option.splits sum.splits prod.splits
      bool.splits dest: db_ok_attempt_delivery db_ok_insert_delivery)

lemma db_ok_deliver_all:
  "deliver_all s envs k eid eps st = (r, st') \<Longrightarrow> db_ok (es_db st) \<Longrightarrow> db_ok (es_db st')"
proof (induction s envs k eid eps st arbitrary: r st' rule: deliver_all.induct)
  case (2 s envs k eid ep eps st)
  obtain r1 st1 where d: "deliver_to_endpoint s (envs k) eid ep 1 st = (r1, st1)" by fastforce
  with 2 have "db_ok (es_db st1)" using db_ok_deliver_to_endpoint by blast
  with 2 d show ?case by (auto split: sum.splits prod.splits)
qed simp

lemma db_ok_process_outbox_payload:
  assumes "process_outbox_payload s scan now envs payload st = (r, st')" "db_ok (es_db st)"
  shows "db_ok (es_db st')"
  using assms
  by (auto simp: process_outbox_payload_def split: sum.splits prod.splits option.splits if_splits
      dest!: db_ok_deliver_all intro: db_ok_set_processing)

section \<open>What an attempt records\<close>

lemma deliveries_frame [simp]:
  "deliveries (save_circuit_breaker now ep cb d) = deliveries d"
  "deliveries (maybe_complete_event now ev d) = deliveries d"
  "deliveries (set_processing now ev d) = deliveries d"
  by (simp_all add: save_circuit_breaker_def maybe_complete_event_def set_processing_def Let_def
      modify_defs)

lemma modify_last:
  "deliveries d = ds @ [row] \<Longrightarrow> dl_id row = i \<Longrightarrow> i \<notin> tab_keys dl_id ds \<Longrightarrow>
     deliveries (modify_delivery i f d) = ds @ [f row]"
  by (simp add: modify_delivery_def tab_upd_absent tab_upd_Cons)

text \<open>
  How the recorded status reflects the outcome: a success is DELIVERED, a permanent failure
  is in the dead-letter queue, a retryable failure waits for its retry time unless the
  policy grants no further attempt.
\<close>

definition status_matches :: "settings \<Rightarrow> delivery_env \<Rightarrow> int \<Rightarrow> outcome \<Rightarrow> delivery \<Rightarrow> bool" where
  "status_matches s env n out row \<longleftrightarrow>
     (case out of
        SUCCESS \<Rightarrow> dl_status row = delivery_status_value DL_DELIVERED
      | PERMANENT_FAILURE \<Rightarrow> dl_status row = delivery_status_value DL_DLQ
      | RETRY \<Rightarrow>
          dl_status row = delivery_status_value DL_RETRYING \<and>
            (\<exists>x. dl_next_retry_at row = Some (de_retry_now env + timedelta_seconds x)) \<or>
          dl_status row = delivery_status_value DL_DLQ \<and>
            exp_next_delay_seconds (engine_retry_policy s) (de_rand env) n = Inr None)"

lemma finish_success_row:
  assumes "deliveries (es_db st) = ds @ [row]" "dl_id row = de_new_id env"
    "de_new_id env \<notin> tab_keys dl_id ds"
  shows "deliveries (es_db (finish_success env ev ep cb c st)) =
    ds @ [row\<lparr>dl_http_status := c, dl_latency_ms := Some (latency_ms env),
              dl_completed_at := Some (de_completed env),
              dl_status := delivery_status_value DL_DELIVERED\<rparr>]"
  using assms by (simp add: finish_success_def Let_def modify_last)

lemma finish_failure_row:
  assumes "finish_failure s env ev ep cb c res n st = (Inr u, st')"
    "deliveries (es_db st) = ds @ [row]" "dl_id row = de_new_id env"
    "de_new_id env \<notin> tab_keys dl_id ds"
  shows "\<exists>status retry_at.
    failure_disposition s env (cl_outcome res) n = Inr (status, retry_at) \<and>
    deliveries (es_db st') =
      ds @ [row\<lparr>dl_http_status := c, dl_latency_ms := Some (latency_ms env),
                dl_completed_at := Some (de_completed env), dl_error_message := Some (cl_reason res),
                dl_status := delivery_status_value status, dl_next_retry_at := retry_at\<rparr>]"
proof (cases "failure_disposition s env (cl_outcome res) n")
  case (Inl e)
  with assms(1) show ?thesis by (auto simp: finish_failure_def Let_def)
next
  case (Inr p)
  then obtain status retry_at where
    "failure_disposition s env (cl_outcome res) n = Inr (status, retry_at)" by (cases p) simp
  with assms show ?thesis by (auto simp: finish_failure_def Let_def modify_last)
qed

lemma failure_disposition_matches:
  assumes "failure_disposition s env out n = Inr (status, retry_at)" "out \<noteq> SUCCESS"
    "dl_status row = delivery_status_value status" "dl_next_retry_at row = retry_at"
  shows "status_matches s env n out row"
  using assms
  by (cases out) (auto simp: failure_disposition_def status_matches_def rbind_Inr_iff
      split: option.splits if_splits, (metis)+)

text \<open>The row's columns that identify the attempt.\<close>

definition same_attempt :: "delivery \<Rightarrow> delivery \<Rightarrow> bool" where
  "same_attempt r r' \<longleftrightarrow> dl_id r' = dl_id r \<and> dl_event_id r' = dl_event_id r \<and>
     dl_endpoint_id r' = dl_endpoint_id r \<and> dl_attempt_number r' = dl_attempt_number r \<and>
     dl_created_at r' = dl_created_at r"

lemma finish_delivery_row:
  assumes "finish_delivery s env ev ep cb n c t x st = (Inr sm, st')"
    and row: "deliveries (es_db st) = ds @ [row]" "dl_id row = de_new_id env"
    "de_new_id env \<notin> tab_keys dl_id ds"
  shows "\<exists>row'. deliveries (es_db st') = ds @ [row'] \<and> same_attempt row row' \<and>
    status_matches s env n (sm_outcome sm) row' \<and> dl_http_status row' = c \<and>
    sm_outcome sm = cl_outcome (classify_response c t x) \<and> sm_http_status sm = c \<and>
    sm_endpoint_id sm = ep_id ep"
proof (cases "cl_outcome (classify_response c t x) = SUCCESS")
  case True
  with assms finish_success_row [of "add_metric m st" ds row env ev ep cb c for m] show ?thesis
    by (auto simp: finish_delivery_def Let_def same_attempt_def status_matches_def)
next
  case False
  let ?st1 = "add_metric (Delivery_latency_seconds (ev_event_type ev)
    (of_int (latency_ms env) / 1000)) st"
  from assms(1) False have f: "finish_failure s env ev ep cb c (classify_response c t x) n ?st1 =
      (Inr (), st')"
    and sm: "sm = \<lparr>sm_endpoint_id = ep_id ep, sm_outcome = cl_outcome (classify_response c t x),
      sm_http_status = c\<rparr>"
    by (auto simp: finish_delivery_def Let_def split: sum.splits prod.splits)
  from finish_failure_row [OF f, of ds row] row obtain status retry_at where
    "failure_disposition s env (cl_outcome (classify_response c t x)) n = Inr (status, retry_at)"
    "deliveries (es_db st') =
      ds @ [row\<lparr>dl_http_status := c, dl_latency_ms := Some (latency_ms env),
                dl_completed_at := Some (de_completed env),
                dl_error_message := Some (cl_reason (classify_response c t x)),
                dl_status := delivery_status_value status, dl_next_retry_at := retry_at\<rparr>]"
    by auto
  with False sm show ?thesis
    by (auto simp: same_attempt_def intro!: failure_disposition_matches)
qed

lemma finish_delivery_error_row:
  assumes "finish_delivery s env ev ep cb n c t x st = (Inl e, st')"
  shows "deliveries (es_db st') = deliveries (es_db st)"
  using assms
  by (auto simp: finish_delivery_def finish_failure_def Let_def split: if_splits sum.splits prod.splits)

lemma send_and_finish_row:
  assumes "send_and_finish s env sec ev ep cb n st = (r, st')"
    and row: "deliveries (es_db st) = ds @ [row]" "dl_id row = de_new_id env"
    "de_new_id env \<notin> tab_keys dl_id ds"
  shows "\<exists>row'. deliveries (es_db st') = ds @ [row'] \<and> same_attempt row row' \<and>
    (case r of
       Inl e \<Rightarrow> row' = row
     | Inr sm \<Rightarrow> status_matches s env n (sm_outcome sm) row' \<and> sm_endpoint_id sm = ep_id ep)"
proof -
  let ?rq = "delivery_request env sec ev ep n"
  let ?st1 = "st\<lparr>es_sent := es_sent st @ [?rq]\<rparr>"
  have fin: ?thesis if "finish_delivery s env ev ep cb n c t x ?st1 = (r, st')" for c t x
  proof (cases r)
    case (Inl e)
    with that row finish_delivery_error_row show ?thesis by (fastforce simp: same_attempt_def)
  next
    case (Inr sm)
    with that have "finish_delivery s env ev ep cb n c t x ?st1 = (Inr sm, st')" by simp
    from finish_delivery_row [OF this, of ds row] row Inr show ?thesis by auto
  qed
  show ?thesis
  proof (cases "de_http env ?rq")
    case (HttpRaises e)
    with assms show ?thesis by (auto simp: send_and_finish_def Let_def same_attempt_def)
  qed (use assms(1) fin in \<open>auto simp: send_and_finish_def Let_def\<close>)
qed

lemma insert_delivery_rows:
  assumes "insert_delivery row d = Inr d'"
  shows "deliveries d' = deliveries d @ [row]" "dl_id row \<notin> tab_keys dl_id (deliveries d)"
  using assms delivery_table.ins_rows delivery_table.ins_fresh by blast+

lemma attempt_delivery_row:
  assumes "attempt_delivery s env ev ep cb n st = (r, st')"
  shows "st' = st \<and> (\<exists>e. r = Inl e) \<or>
    (\<exists>row'. deliveries (es_db st') = deliveries (es_db st) @ [row'] \<and>
       same_attempt (started_row env ev ep n) row' \<and>
       (case r of
          Inl e \<Rightarrow> row' = started_row env ev ep n
        | Inr sm \<Rightarrow> status_matches s env n (sm_outcome sm) row' \<and> sm_endpoint_id sm = ep_id ep))"
proof (cases rule: attempt_delivery_cases [where env = env and ev = ev and ep = ep and n = n and st = st and s = s])
  case (no_insert e)
  with assms show ?thesis by (auto simp: attempt_insert_fails)
next
  case (ssrf d1 m)
  note rows = insert_delivery_rows [OF ssrf(1)]
  from assms ssrf modify_last [OF rows(1) _ rows(2)] show ?thesis
    by (auto simp: attempt_ssrf same_attempt_def status_matches_def new_delivery_def)
next
  case (raises d1 e)
  with assms insert_delivery_rows [OF raises(1)] show ?thesis
    by (auto simp: attempt_raises same_attempt_def)
next
  case (valid d1)
  note rows = insert_delivery_rows [OF valid(1)]
  show ?thesis
  proof (cases "de_decrypt env (ep_secret_encrypted ep)")
    case (Inl e)
    with assms valid rows show ?thesis by (auto simp: attempt_valid same_attempt_def)
  next
    case (Inr sec)
    with assms valid have "send_and_finish s env sec ev ep cb n (started_state ev d1 st) = (r, st')"
      by (simp add: attempt_valid)
    from send_and_finish_row [OF this, of "deliveries (es_db st)" "started_row env ev ep n"] rows
    show ?thesis by simp
  qed
qed

section \<open>The persisted breaker\<close>

lemma load_circuit_breaker_Inr:
  assumes "load_circuit_breaker s ep = Inr cb"
  shows "ep_circuit_state ep = circuit_state_value (state (cb_state cb)) \<and>
    cb_state cb = initial_state\<lparr>state := state (cb_state cb)\<rparr> \<and>
    failure_threshold cb = circuit_failure_threshold s"
  using assms
  by (auto simp: load_circuit_breaker_def Let_def rbind_Inr_iff circuit_state_of_Inr_iff
      initial_state_def)

text \<open>A breaker loaded as OPEN has forgotten when it opened, so it never lets a request through.\<close>

lemma loaded_open_blocks:
  assumes "load_circuit_breaker s ep = Inr cb" "state (cb_state cb) = OPEN"
  shows "cb_allow_request now cb = (False, cb)"
proof -
  from load_circuit_breaker_Inr [OF assms(1)] assms(2) have "opened_at (cb_state cb) = None"
    by (metis (no_types, lifting) initial_state_def circuit_breaker_state.select_convs(3)
        circuit_breaker_state.surjective circuit_breaker_state.update_convs(1))
  with assms(2) show ?thesis by (simp add: cb_allow_request_def allow_request_open)
qed

lemma loaded_closed_allows:
  "state (cb_state cb) = CLOSED \<Longrightarrow> cb_allow_request now cb = (True, cb)"
  by (simp add: cb_allow_request_def allow_request_closed)

text \<open>
  A breaker loaded as CLOSED has forgotten its failures, so one more failure cannot reach a
  threshold above one.
\<close>

lemma loaded_closed_stays_closed:
  assumes "load_circuit_breaker s ep = Inr cb" "state (cb_state cb) = CLOSED"
    "1 < circuit_failure_threshold s"
  shows "state (cb_state (cb_record_failure now cb)) = CLOSED"
    "state (cb_state (cb_record_success cb)) = CLOSED"
proof -
  from load_circuit_breaker_Inr [OF assms(1)]
  have "consecutive_failures (cb_state cb) = 0" "failure_threshold cb = circuit_failure_threshold s"
    by (metis (no_types, lifting) initial_state_def circuit_breaker_state.select_convs(2)
        circuit_breaker_state.surjective circuit_breaker_state.update_convs(1), simp)
  with assms(2,3) show "state (cb_state (cb_record_failure now cb)) = CLOSED"
    "state (cb_state (cb_record_success cb)) = CLOSED"
    by (simp_all add: cb_record_failure_def record_failure_def cb_record_success_def
        record_success_def Let_def)
qed

lemma save_unchanged:
  "circuit_state_value (state (cb_state cb)) = ep_circuit_state ep \<Longrightarrow>
     save_circuit_breaker now ep cb d = d"
  by (simp add: save_circuit_breaker_def)

lemma endpoints_frame [simp]:
  "endpoints (modify_delivery i f d) = endpoints d"
  "endpoints (maybe_complete_event now ev d) = endpoints d"
  "endpoints (set_processing now ev d) = endpoints d"
  by (simp_all add: maybe_complete_event_def set_processing_def Let_def modify_defs)

lemma finish_delivery_endpoints:
  assumes "finish_delivery s env ev ep cb n c t x st = (r, st')"
    and same: "\<And>d. save_circuit_breaker (de_db_now env) ep (cb_record_success cb) d = d"
    "\<And>d. save_circuit_breaker (de_db_now env) ep (cb_record_failure (de_mono_record env) cb) d = d"
  shows "endpoints (es_db st') = endpoints (es_db st)"
  using assms(1)
  by (auto simp: finish_delivery_def finish_failure_def finish_success_def Let_def same
      split: if_splits sum.splits prod.splits)

lemma send_and_finish_endpoints:
  assumes "send_and_finish s env sec ev ep cb n st = (r, st')"
    and same: "\<And>d. save_circuit_breaker (de_db_now env) ep (cb_record_success cb) d = d"
    "\<And>d. save_circuit_breaker (de_db_now env) ep (cb_record_failure (de_mono_record env) cb) d = d"
  shows "endpoints (es_db st') = endpoints (es_db st)"
  using assms(1)
  by (auto simp: send_and_finish_def Let_def split: http_result.splits
      dest!: finish_delivery_endpoints [OF _ same])

lemma attempt_delivery_endpoints:
  assumes "attempt_delivery s env ev ep cb n st = (r, st')"
    and same: "\<And>d. save_circuit_breaker (de_db_now env) ep (cb_record_success cb) d = d"
    "\<And>d. save_circuit_breaker (de_db_now env) ep (cb_record_failure (de_mono_record env) cb) d = d"
  shows "endpoints (es_db st') = endpoints (es_db st)"
proof -
  have ins: "endpoints d1 = endpoints (es_db st)"
    if "insert_delivery (started_row env ev ep n) (es_db st) = Inr d1" for d1
    using insert_frame(4) [OF that] by simp
  show ?thesis
  proof (cases rule: attempt_delivery_cases [where env = env and ev = ev and ep = ep and n = n and st = st and s = s])
    case (no_insert e)
    with assms show ?thesis by (simp add: attempt_insert_fails)
  next
    case (ssrf d1 m)
    with assms ins show ?thesis by (auto simp: attempt_ssrf)
  next
    case (raises d1 e)
    with assms ins show ?thesis by (auto simp: attempt_raises)
  next
    case (valid d1)
    with assms ins show ?thesis
      by (auto simp: attempt_valid split: sum.splits dest!: send_and_finish_endpoints [OF _ same])
  qed
qed

section \<open>A sample environment\<close>

text \<open>
  Every name resolves to 93.184.216.34, every request is answered with 200, secrets are stored as
  they are; the instances of the properties use it.
\<close>

definition sample_net :: net_env where
  "sample_net = \<lparr>getaddrinfo = (\<lambda>_. Addresses [IPv4 0x5DB8D822]), ip6_literal = (\<lambda>_. True)\<rparr>"

definition sample_env :: delivery_env where
  "sample_env = \<lparr>de_net = sample_net, de_http = (\<lambda>_. HttpResponse 200), de_decrypt = Inr, de_new_id = 40,
     de_rand = 0, de_time = 1000, de_mono_allow = 0, de_mono_start = 0, de_mono_end = 0,
     de_mono_record = 0, de_started = 0, de_completed = 0, de_retry_now = 0, de_db_now = 0\<rparr>"

definition sample_state :: engine_state where
  "sample_state = \<lparr>es_db = sample_db, es_sent = [], es_metrics = []\<rparr>"

lemma sample_url_ok: "validate_webhook_url sample_net ''https://example.com/hook'' 2048 = Inr ()"
  by code_simp

end
