(* ===== verification/Engine_Properties.thy ===== *)
theory Engine_Properties
  imports Delivery_Engine
begin

text \<open>
  What the delivery engine guarantees: which requests it sends, which rows it records, which
  endpoints it chooses, what it does to the persisted circuit state and when it completes
  an event. The lemmas follow the calls from \<open>finish_delivery\<close> up to
  \<open>process_outbox_payload\<close>.
\<close>

section \<open>Requests\<close>

lemma finish_delivery_sent:
  assumes "finish_delivery s env ev ep cb n c t x st = (r, st')"
  shows "es_sent st' = es_sent st"
  using assms
  by (auto simp: finish_delivery_def finish_failure_def finish_success_def Let_def
      split: if_splits sum.splits prod.splits)

lemma send_and_finish_sent:
  assumes "send_and_finish s env sec ev ep cb n st = (r, st')"
  shows "es_sent st' = es_sent st @ [delivery_request env sec ev ep n]"
  using assms by (auto simp: send_and_finish_def Let_def split: http_result.splits dest!: finish_delivery_sent)

lemma attempt_delivery_sent:
  assumes "attempt_delivery s env ev ep cb n st = (r, st')"
  shows "es_sent st' = es_sent st \<or>
    (\<exists>sec. es_sent st' = es_sent st @ [delivery_request env sec ev ep n] \<and>
       de_decrypt env (ep_secret_encrypted ep) = Inr sec \<and>
       validate_webhook_url (de_net env) (ep_url ep) (max_endpoint_url_length s) = Inr ())"
proof (cases rule: attempt_delivery_cases [where env = env and ev = ev and ep = ep and n = n and st = st and s = s])
  case (no_insert e)
  with assms show ?thesis by (simp add: attempt_insert_fails)
next
  case (ssrf d1 m)
  with assms show ?thesis by (auto simp: attempt_ssrf)
next
  case (raises d1 e)
  with assms show ?thesis by (auto simp: attempt_raises)
next
  case (valid d1)
  with assms show ?thesis
    by (auto simp: attempt_valid split: sum.splits dest!: send_and_finish_sent)
qed

text \<open>The ways one call can end.\<close>

lemma deliver_to_endpoint_cases:
  assumes "deliver_to_endpoint s env eid epid n st = (r, st')"
  obtains (missing) "get_event_row eid (es_db st) = None \<or> get_endpoint epid (es_db st) = None"
      "r = Inr \<lparr>sm_endpoint_id = epid, sm_outcome = PERMANENT_FAILURE, sm_http_status = None\<rparr>" "st' = st"
  | (bad_state) ev ep e where "get_event_row eid (es_db st) = Some ev" "get_endpoint epid (es_db st) = Some ep"
      "load_circuit_breaker s ep = Inl e" "r = Inl e" "st' = st"
  | (blocked) ev ep cb0 cb where "get_event_row eid (es_db st) = Some ev" "get_endpoint epid (es_db st) = Some ep"
      "load_circuit_breaker s ep = Inr cb0" "cb_allow_request (de_mono_allow env) cb0 = (False, cb)"
      "(\<exists>e. r = Inl e \<and> st' = st \<and>
          schedule_retry env eid epid n (circuit_open_duration_seconds s) (es_db st) = Inl e) \<or>
       (\<exists>d1. r = Inr \<lparr>sm_endpoint_id = epid, sm_outcome = RETRY, sm_http_status = None\<rparr> \<and>
          st' = st\<lparr>es_db := d1\<rparr> \<and>
          schedule_retry env eid epid n (circuit_open_duration_seconds s) (es_db st) = Inr d1)"
  | (attempt) ev ep cb0 cb where "get_event_row eid (es_db st) = Some ev" "get_endpoint epid (es_db st) = Some ep"
      "load_circuit_breaker s ep = Inr cb0" "cb_allow_request (de_mono_allow env) cb0 = (True, cb)"
      "attempt_delivery s env ev ep cb n st = (r, st')"
  using assms unfolding deliver_to_endpoint_def
  by atomize_elim (auto split: option.splits sum.splits prod.splits bool.splits)

lemma get_event_id: "get_event_row i d = Some ev \<Longrightarrow> ev_id ev = i"
  by (auto simp: get_event_row_def dest: tab_get_SomeD)

lemma get_endpoint_id: "get_endpoint i d = Some ep \<Longrightarrow> ep_id ep = i"
  by (auto simp: get_endpoint_def dest: tab_get_SomeD)

lemma get_endpoint_mem: "get_endpoint i d = Some ep \<Longrightarrow> ep \<in> set (endpoints d)"
  by (auto simp: get_endpoint_def dest: tab_get_SomeD)

section \<open>Rows\<close>

text \<open>A call records nothing or one row for its event, endpoint and attempt number.\<close>

lemma deliver_to_endpoint_row:
  assumes "deliver_to_endpoint s env eid epid n st = (r, st')"
  shows "deliveries (es_db st') = deliveries (es_db st) \<or>
    (\<exists>row. deliveries (es_db st') = deliveries (es_db st) @ [row] \<and> dl_id row = de_new_id env \<and>
       dl_event_id row = eid \<and> dl_endpoint_id row = epid \<and> dl_attempt_number row = n \<and>
       (\<forall>sm. r = Inr sm \<longrightarrow> status_matches s env n (sm_outcome sm) row))"
  using assms
proof (cases rule: deliver_to_endpoint_cases)
  case (blocked ev ep cb0 cb)
  from blocked(5) show ?thesis
  proof (elim disjE exE conjE)
    fix d1 assume "schedule_retry env eid epid n (circuit_open_duration_seconds s) (es_db st) = Inr d1"
      "st' = st\<lparr>es_db := d1\<rparr>" "r = Inr \<lparr>sm_endpoint_id = epid, sm_outcome = RETRY, sm_http_status = None\<rparr>"
    then show ?thesis
      using insert_delivery_rows(1) [of _ "es_db st" d1] by (auto simp: schedule_retry_def status_matches_def)
  qed simp
next
  case (attempt ev ep cb0 cb)
  from attempt_delivery_row [OF attempt(5)] get_event_id [OF attempt(1)] get_endpoint_id [OF attempt(2)]
  show ?thesis by (auto simp: same_attempt_def)
qed simp_all

definition call_row :: "delivery_env \<Rightarrow> uuid \<Rightarrow> uuid \<Rightarrow> int \<Rightarrow> delivery \<Rightarrow> bool" where
  "call_row env eid epid n row \<longleftrightarrow>
     dl_id row = de_new_id env \<and> dl_event_id row = eid \<and> dl_endpoint_id row = epid \<and> dl_attempt_number row = n"

lemma deliver_to_endpoint_outcome:
  assumes "deliver_to_endpoint s env eid epid n st = (r, st')"
  shows "case r of
      Inl e \<Rightarrow> st' = st \<or>
        (\<exists>row. deliveries (es_db st') = deliveries (es_db st) @ [row] \<and> call_row env eid epid n row \<and>
           dl_status row = delivery_status_value DL_DELIVERING)
    | Inr sm \<Rightarrow>
        if get_event_row eid (es_db st) = None \<or> get_endpoint epid (es_db st) = None
        then st' = st \<and> sm_outcome sm = PERMANENT_FAILURE \<and> sm_http_status sm = None
        else \<exists>row. deliveries (es_db st') = deliveries (es_db st) @ [row] \<and> call_row env eid epid n row \<and>
           status_matches s env n (sm_outcome sm) row"
  using assms
proof (cases rule: deliver_to_endpoint_cases)
  case (blocked ev ep cb0 cb)
  from blocked(5) show ?thesis
  proof (elim disjE exE conjE)
    fix d1 assume d1: "schedule_retry env eid epid n (circuit_open_duration_seconds s) (es_db st) = Inr d1"
      "st' = st\<lparr>es_db := d1\<rparr>" "r = Inr \<lparr>sm_endpoint_id = epid, sm_outcome = RETRY, sm_http_status = None\<rparr>"
    then show ?thesis
      using insert_delivery_rows(1) [of _ "es_db st" d1] blocked(1,2)
      by (auto simp: schedule_retry_def status_matches_def call_row_def)
  qed simp
next
  case (attempt ev ep cb0 cb)
  from attempt_delivery_row [OF attempt(5)]
  show ?thesis
  proof (elim disjE exE conjE)
    fix row' assume row': "deliveries (es_db st') = deliveries (es_db st) @ [row']"
      "same_attempt (started_row env ev ep n) row'"
      "case r of Inl e \<Rightarrow> row' = started_row env ev ep n
       | Inr sm \<Rightarrow> status_matches s env n (sm_outcome sm) row' \<and> sm_endpoint_id sm = ep_id ep"
    have "call_row env eid epid n row'"
      using row'(2) get_event_id [OF attempt(1)] get_endpoint_id [OF attempt(2)]
      by (simp add: call_row_def same_attempt_def new_delivery_def)
    with row'(1,3) attempt(1,2) show ?thesis
      by (cases r) (auto simp: new_delivery_def)
  qed simp
qed simp_all

text \<open>A missing event or endpoint is reported without a row; every other answer comes with one.\<close>

lemma deliver_all_rows:
  assumes "deliver_all s envs k eid eps st = (r, st')"
  shows "\<exists>rows. deliveries (es_db st') = deliveries (es_db st) @ rows \<and>
    (\<forall>row \<in> set rows. dl_event_id row = eid \<and> dl_endpoint_id row \<in> set eps \<and> dl_attempt_number row = 1)"
  using assms
proof (induction s envs k eid eps st arbitrary: r st' rule: deliver_all.induct)
  case (2 s envs k eid ep eps st)
  obtain r1 st1 where d: "deliver_to_endpoint s (envs k) eid ep 1 st = (r1, st1)" by fastforce
  from deliver_to_endpoint_row [OF d] obtain r0 where r0:
    "deliveries (es_db st1) = deliveries (es_db st) @ r0"
    "\<forall>row \<in> set r0. dl_event_id row = eid \<and> dl_endpoint_id row = ep \<and> dl_attempt_number row = 1"
    by (metis append_Nil2 empty_iff list.set(1) set_ConsD)
  show ?case
  proof (cases r1)
    case (Inl e)
    with 2(2) d r0 show ?thesis by auto
  next
    case (Inr sm)
    obtain r2 st2 where d2: "deliver_all s envs (Suc k) eid eps st1 = (r2, st2)" by fastforce
    with 2(2) d Inr have st': "st' = st2" by (auto split: sum.splits)
    from 2(1) [OF d [symmetric] Inr d2] obtain rows where
      "deliveries (es_db st2) = deliveries (es_db st1) @ rows"
      "\<forall>row \<in> set rows. dl_event_id row = eid \<and> dl_endpoint_id row \<in> set eps \<and> dl_attempt_number row = 1"
      by blast
    with r0 st' show ?thesis by (intro exI [of _ "r0 @ rows"]) auto
  qed
qed simp

lemma process_outbox_payload_rows:
  assumes "process_outbox_payload s scan now envs p st = (r, st')"
  shows "\<exists>rows. deliveries (es_db st') = deliveries (es_db st) @ rows \<and>
    (\<forall>row \<in> set rows. dl_attempt_number row = 1)"
  using assms
  by (auto simp: process_outbox_payload_def split: sum.splits option.splits if_splits
      dest!: deliver_all_rows)

lemma deliver_to_endpoint_sent:
  assumes "deliver_to_endpoint s env eid epid n st = (r, st')" "es_sent st' \<noteq> es_sent st"
  obtains ev ep sec where "get_event_row eid (es_db st) = Some ev" "get_endpoint epid (es_db st) = Some ep"
    "es_sent st' = es_sent st @ [delivery_request env sec ev ep n]"
    "de_decrypt env (ep_secret_encrypted ep) = Inr sec"
    "validate_webhook_url (de_net env) (ep_url ep) (max_endpoint_url_length s) = Inr ()"
  using assms(1)
proof (cases rule: deliver_to_endpoint_cases)
  case (blocked ev ep cb0 cb)
  from blocked(5) assms(2) have False by auto
  then show thesis ..
next
  case (attempt ev ep cb0 cb)
  from attempt_delivery_sent [OF attempt(5)] assms(2) that [OF attempt(1,2)] show thesis by blast
qed (use assms(2) in simp_all)

lemma request_signature_verifies:
  "map_of (rq_headers (delivery_request env sec ev ep n)) ''X-EventMesh-Signature'' = Some h \<Longrightarrow>
   \<bar>de_time env\<bar> \<le> max_float \<Longrightarrow>
   verify_signature_header now sec (rq_content (delivery_request env sec ev ep n)) h tol =
     Inr (\<bar>now - of_int (trunc (de_time env))\<bar> \<le> of_int tol)"
  by (auto simp: delivery_request_def Let_def verify_built_now)

section \<open>Choice of endpoints\<close>

lemma filter_eq_distinct: "distinct xs \<Longrightarrow> filter (\<lambda>y. y = x) xs = (if x \<in> set xs then [x] else [])"
  by (induction xs) auto

lemma subscription_eq_iff:
  "sub_endpoint_id sb = i \<and> sub_event_type sb = t \<longleftrightarrow> sb = \<lparr>sub_endpoint_id = i, sub_event_type = t\<rparr>"
  by (cases sb) auto

definition wants :: "uuid \<Rightarrow> string \<Rightarrow> db \<Rightarrow> endpoint \<Rightarrow> bool" where
  "wants tid et d e \<longleftrightarrow>
     ep_tenant_id e = tid \<and> ep_status e = endpoint_status_value EP_ACTIVE \<and>
     \<lparr>sub_endpoint_id = ep_id e, sub_event_type = et\<rparr> \<in> set (subscriptions d)"

lemma subscribed_endpoints_filter:
  assumes "distinct (subscriptions d)"
  shows "subscribed_endpoints tid et d = map ep_id (filter (wants tid et d) (endpoints d))"
proof -
  have "[ep_id e. sb \<leftarrow> subscriptions d, sub_endpoint_id sb = ep_id e \<and> ep_tenant_id e = tid \<and>
        ep_status e = endpoint_status_value EP_ACTIVE \<and> sub_event_type sb = et] =
      (if wants tid et d e then [ep_id e] else [])" for e
  proof -
    have "[ep_id e. sb \<leftarrow> subs, sub_endpoint_id sb = ep_id e \<and> ep_tenant_id e = tid \<and>
          ep_status e = endpoint_status_value EP_ACTIVE \<and> sub_event_type sb = et] =
        (if ep_tenant_id e = tid \<and> ep_status e = endpoint_status_value EP_ACTIVE
         then map (\<lambda>_. ep_id e) (filter (\<lambda>sb. sb = \<lparr>sub_endpoint_id = ep_id e, sub_event_type = et\<rparr>) subs)
         else [])" for subs
      by (induction subs) (auto simp: subscription_eq_iff [symmetric])
    then show ?thesis using filter_eq_distinct [OF assms] by (simp add: wants_def)
  qed
  then have "subscribed_endpoints tid et d =
      concat (map (\<lambda>e. if wants tid et d e then [ep_id e] else []) (endpoints d))"
    by (simp add: subscribed_endpoints_def)
  also have "\<dots> = map ep_id (filter (wants tid et d) (endpoints d))"
    by (rule concat_map_if)
  finally show ?thesis .
qed

lemma resolve_untargeted:
  assumes "db_ok d" "is_scan scan" "truthy target = None"
  shows "\<exists>eps. resolve_endpoints scan tid (JStr et) target d = Inr eps \<and> distinct eps \<and>
    set eps = ep_id ` {e \<in> set (endpoints d). wants tid et d e}"
proof -
  from assms(1) have dist: "distinct (subscriptions d)" "distinct (map ep_id (endpoints d))"
    by (simp_all add: db_ok_def keys_ok_def)
  note eps = subscribed_endpoints_filter [OF dist(1), of tid et]
  have "distinct (scan (subscribed_endpoints tid et d))"
    by (simp add: is_scan_distinct [OF assms(2)] eps distinct_map_filter [OF dist(2)])
  moreover have "set (scan (subscribed_endpoints tid et d)) = ep_id ` {e \<in> set (endpoints d). wants tid et d e}"
    by (simp add: is_scan_set [OF assms(2)] eps)
  ultimately show ?thesis using assms(3) by (simp add: resolve_endpoints_def json_text_def)
qed

section \<open>The persisted circuit state\<close>

lemma loaded_state_value:
  "load_circuit_breaker s ep = Inr cb \<Longrightarrow> ep_circuit_state ep = circuit_state_value (state (cb_state cb))"
  using load_circuit_breaker_Inr by blast

lemma circuit_value_eq [simp]:
  "circuit_state_value a = circuit_state_value b \<longleftrightarrow> a = b"
  by (cases a; cases b; simp)

lemma schedule_retry_endpoints:
  "schedule_retry env eid epid n x d = Inr d1 \<Longrightarrow> endpoints d1 = endpoints d \<and> events d1 = events d"
  unfolding schedule_retry_def by (drule insert_frame(4)) simp

lemma breaker_state_frozen:
  assumes "deliver_to_endpoint s env eid epid n st = (r, st')" "1 < circuit_failure_threshold s"
    "get_endpoint epid (es_db st) = Some ep" "ep_circuit_state ep = circuit_state_value c" "c \<noteq> HALF_OPEN"
  shows "endpoints (es_db st') = endpoints (es_db st) \<and> (c = OPEN \<longrightarrow> es_sent st' = es_sent st)"
  using assms(1)
proof (cases rule: deliver_to_endpoint_cases)
  case (blocked ev ep' cb0 cb)
  from blocked(5) show ?thesis using schedule_retry_endpoints by auto
next
  case (attempt ev ep' cb0 cb)
  from attempt(2) assms(3) have ep: "ep' = ep" by simp
  have c: "state (cb_state cb0) = c" using loaded_state_value [OF attempt(3)] assms(4) ep by simp
  have "c = CLOSED"
    using assms(5) loaded_open_blocks [OF attempt(3), of "de_mono_allow env"] attempt(4) c by (cases c) auto
  with c have cl: "state (cb_state cb0) = CLOSED" by simp
  then have cb: "cb = cb0" using loaded_closed_allows attempt(4) by simp
  note stays = loaded_closed_stays_closed [OF attempt(3) cl assms(2)]
  have "endpoints (es_db st') = endpoints (es_db st)"
    using stays \<open>c = CLOSED\<close> assms(4) ep cb
    by (intro attempt_delivery_endpoints [OF attempt(5)]) (simp_all add: save_unchanged)
  with \<open>c = CLOSED\<close> show ?thesis by simp
qed simp_all

section \<open>Completion\<close>

lemma events_frame [simp]:
  "events (modify_delivery i f d) = events d" "events (save_circuit_breaker now ep cb d) = events d"
  by (simp_all add: save_circuit_breaker_def Let_def modify_defs)

text \<open>What an operation that may complete \<open>ev\<close> does to the events.\<close>

definition completes :: "event \<Rightarrow> db \<Rightarrow> db \<Rightarrow> bool" where
  "completes ev d d' \<longleftrightarrow>
     events d' = events d \<or>
     ev_status ev \<noteq> event_status_value EV_COMPLETED \<and>
     delivery_statuses (ev_id ev) d' \<noteq> {} \<and> delivery_statuses (ev_id ev) d' \<subseteq> terminal_statuses \<and>
     (\<forall>i. i \<noteq> ev_id ev \<longrightarrow> get_event_row i d' = get_event_row i d)"

lemma get_event_modify:
  "i \<noteq> j \<Longrightarrow> (\<And>e. ev_id (f e) = ev_id e) \<Longrightarrow> get_event_row i (modify_event j f d) = get_event_row i d"
  by (simp add: get_event_row_def event_table.get_modified)

lemma get_event_cong: "events d = events d' \<Longrightarrow> get_event_row i d = get_event_row i d'"
  by (simp add: get_event_row_def)

lemma statuses_cong: "deliveries d = deliveries d' \<Longrightarrow> delivery_statuses i d = delivery_statuses i d'"
  by (simp add: delivery_statuses_def)

lemma maybe_complete_completes:
  assumes "events d0 = events d" "deliveries d' = deliveries d0"
    "events d' = events (maybe_complete_event now ev d0)"
  shows "completes ev d d'"
proof (cases "events (maybe_complete_event now ev d0) = events d0")
  case True
  with assms show ?thesis by (simp add: completes_def)
next
  case False
  then have st: "ev_status ev \<noteq> event_status_value EV_COMPLETED" "delivery_statuses (ev_id ev) d0 \<noteq> {}" "delivery_statuses (ev_id ev) d0 \<subseteq> terminal_statuses"
    and m: "maybe_complete_event now ev d0 = modify_event (ev_id ev)
      (\<lambda>e. e\<lparr>ev_status := event_status_value EV_COMPLETED, ev_updated_at := now\<rparr>) d0"
    unfolding maybe_complete_event_def Let_def by (auto split: if_splits)
  have "get_event_row i d' = get_event_row i d" if "i \<noteq> ev_id ev" for i
    using get_event_cong [OF assms(3)] get_event_cong [OF assms(1)] get_event_modify [OF that] m by simp
  with st statuses_cong [OF assms(2)] show ?thesis by (simp add: completes_def)
qed

lemma finish_delivery_completes:
  assumes "finish_delivery s env ev ep cb n c t x st = (r, st')"
  shows "completes ev (es_db st) (es_db st')"
proof (cases "cl_outcome (classify_response c t x) = SUCCESS")
  case True
  let ?d0 = "modify_delivery (de_new_id env)
    (\<lambda>r. r\<lparr>dl_http_status := c, dl_latency_ms := Some (latency_ms env),
      dl_completed_at := Some (de_completed env), dl_status := delivery_status_value DL_DELIVERED\<rparr>) (es_db st)"
  from True assms have d': "es_db st' = save_circuit_breaker (de_db_now env) ep (cb_record_success cb)
      (maybe_complete_event (de_db_now env) ev ?d0)"
    by (auto simp: finish_delivery_def finish_success_def Let_def)
  show ?thesis by (rule maybe_complete_completes [of ?d0 _ _ "de_db_now env"]) (simp_all add: d')
next
  case False
  with assms show ?thesis
    by (auto simp: finish_delivery_def finish_failure_def completes_def Let_def
        split: if_splits sum.splits prod.splits)
qed

lemma send_and_finish_completes:
  assumes "send_and_finish s env sec ev ep cb n st = (r, st')"
  shows "completes ev (es_db st) (es_db st')"
  using assms
  by (auto simp: send_and_finish_def Let_def completes_def [of ev d d for d] split: http_result.splits
      dest!: finish_delivery_completes)

lemma completes_cong: "completes ev d0 d' \<Longrightarrow> events d0 = events d \<Longrightarrow> completes ev d d'"
  using get_event_cong [of d0 d] by (simp add: completes_def)

lemma attempt_delivery_completes:
  assumes "attempt_delivery s env ev ep cb n st = (r, st')"
  shows "completes ev (es_db st) (es_db st')"
proof -
  have ins: "events d1 = events (es_db st)"
    if "insert_delivery (started_row env ev ep n) (es_db st) = Inr d1" for d1
    using insert_frame(4) [OF that] by simp
  show ?thesis
  proof (cases rule: attempt_delivery_cases [where env = env and ev = ev and ep = ep and n = n and st = st and s = s])
    case (no_insert e)
    with assms show ?thesis by (simp add: attempt_insert_fails completes_def)
  next
    case (ssrf d1 m)
    with assms ins show ?thesis by (auto simp: attempt_ssrf completes_def)
  next
    case (raises d1 e)
    with assms ins show ?thesis by (auto simp: attempt_raises completes_def)
  next
    case (valid d1)
    show ?thesis
    proof (cases "de_decrypt env (ep_secret_encrypted ep)")
      case (Inl e)
      with assms ins valid show ?thesis by (auto simp: attempt_valid completes_def)
    next
      case (Inr sec)
      with assms valid have "send_and_finish s env sec ev ep cb n (started_state ev d1 st) = (r, st')"
        by (simp add: attempt_valid)
      from completes_cong [OF send_and_finish_completes [OF this]] ins [OF valid(1)] show ?thesis by simp
    qed
  qed
qed

text \<open>An event changes in a call only if its rows are all terminal.\<close>

lemma deliver_to_endpoint_completes:
  assumes "deliver_to_endpoint s env eid epid n st = (r, st')"
    "get_event_row i (es_db st') \<noteq> get_event_row i (es_db st)"
  shows "i = eid \<and> delivery_statuses i (es_db st') \<noteq> {} \<and> delivery_statuses i (es_db st') \<subseteq> terminal_statuses"
proof -
  have ev: "events (es_db st') \<noteq> events (es_db st)" using get_event_cong assms(2) by metis
  show ?thesis
    using assms(1)
  proof (cases rule: deliver_to_endpoint_cases)
    case (blocked ev ep cb0 cb)
    from blocked(5) schedule_retry_endpoints ev have False by auto
    then show ?thesis ..
  next
    case (attempt ev ep cb0 cb)
    from attempt_delivery_completes [OF attempt(5)] ev have c: "delivery_statuses eid (es_db st') \<noteq> {}"
      "delivery_statuses eid (es_db st') \<subseteq> terminal_statuses"
      "\<forall>i. i \<noteq> eid \<longrightarrow> get_event_row i (es_db st') = get_event_row i (es_db st)"
      unfolding completes_def get_event_id [OF attempt(1)] by blast+
    with assms(2) have "i = eid" by blast
    with c show ?thesis by simp
  qed (use ev in simp_all)
qed

text \<open>A completed event stays as it is.\<close>

lemma completed_stays:
  assumes "deliver_to_endpoint s env eid epid n st = (r, st')"
    "get_event_row eid (es_db st) = Some ev" "ev_status ev = event_status_value EV_COMPLETED"
  shows "get_event_row eid (es_db st') = Some ev"
  using assms(1)
proof (cases rule: deliver_to_endpoint_cases)
  case (blocked ev ep cb0 cb)
  from blocked(5) schedule_retry_endpoints assms(2) show ?thesis by (auto simp: get_event_row_def)
next
  case (attempt ev' ep cb0 cb)
  from attempt_delivery_completes [OF attempt(5)] attempt(1) assms(2,3) have "events (es_db st') = events (es_db st)"
    by (auto simp: completes_def)
  with assms(2) show ?thesis by (simp add: get_event_row_def)
qed (use assms(2) in simp_all)

lemma completed_stays_all:
  "deliver_all s envs k eid eps st = (r, st') \<Longrightarrow> get_event_row eid (es_db st) = Some ev \<Longrightarrow>
   ev_status ev = event_status_value EV_COMPLETED \<Longrightarrow> get_event_row eid (es_db st') = Some ev"
proof (induction s envs k eid eps st arbitrary: r st' rule: deliver_all.induct)
  case (2 s envs k eid ep eps st)
  obtain r1 st1 where d: "deliver_to_endpoint s (envs k) eid ep 1 st = (r1, st1)" by fastforce
  from completed_stays [OF this 2(3,4)] 2 d show ?case by (auto split: sum.splits prod.splits)
qed simp

section \<open>Properties\<close>

abbreviation sample_breaker :: circuit_breaker where
  "sample_breaker \<equiv> \<lparr>failure_threshold = 5, open_duration_seconds = 30, half_open_max_requests = 1,
     cb_state = initial_state\<rparr>"

lemma sample_call:
  assumes "get_event_row 10 (es_db st) = Some sample_event" "get_endpoint 20 (es_db st) = Some sample_endpoint"
    "insert_delivery (started_row sample_env sample_event sample_endpoint 1) (es_db st) = Inr d1"
  shows "deliver_to_endpoint default_settings sample_env 10 20 1 st =
    send_and_finish default_settings sample_env ''enc'' sample_event sample_endpoint sample_breaker 1
      (started_state sample_event d1 st)"
proof -
  have cb: "load_circuit_breaker default_settings sample_endpoint = Inr sample_breaker"
    by (simp add: load_circuit_breaker_def sample_endpoint_def default_settings_def initial_state_def
        circuit_state_of_def enum_of_value_def)
  have allow: "cb_allow_request 0 sample_breaker = (True, sample_breaker)"
    by (rule loaded_closed_allows) (simp add: initial_state_def)
  have url: "validate_webhook_url (de_net sample_env) (ep_url sample_endpoint)
      (max_endpoint_url_length default_settings) = Inr ()"
    using sample_url_ok by (simp add: sample_env_def sample_endpoint_def default_settings_def)
  have "de_decrypt sample_env (ep_secret_encrypted sample_endpoint) = Inr ''enc''"
    by (simp add: sample_env_def sample_endpoint_def)
  with assms cb allow attempt_valid [OF assms(3) url] show ?thesis
    by (simp add: deliver_to_endpoint_def sample_env_def [THEN arg_cong, of de_mono_allow])
qed

lemma sample_sends:
  "send_and_finish default_settings sample_env ''enc'' sample_event sample_endpoint sample_breaker 1 st =
     (Inr \<lparr>sm_endpoint_id = 20, sm_outcome = SUCCESS, sm_http_status = Some 200\<rparr>,
      finish_success sample_env sample_event sample_endpoint sample_breaker (Some 200)
        (add_metric (Delivery_latency_seconds (ev_event_type sample_event) (of_int (latency_ms sample_env) / 1000))
          (st\<lparr>es_sent := es_sent st @ [delivery_request sample_env ''enc'' sample_event sample_endpoint 1]\<rparr>)))"
proof -
  have "de_http sample_env q = HttpResponse 200" for q by (simp add: sample_env_def)
  moreover have "cl_outcome (classify_response (Some 200) False False) = SUCCESS" by (simp add: classify_SUCCESS_iff)
  ultimately show ?thesis by (simp add: send_and_finish_def finish_delivery_def Let_def sample_endpoint_def)
qed

lemma sample_delivery:
  "fst (deliver_to_endpoint default_settings sample_env 10 20 1 sample_state) =
     Inr \<lparr>sm_endpoint_id = 20, sm_outcome = SUCCESS, sm_http_status = Some 200\<rparr>"
  "es_sent (snd (deliver_to_endpoint default_settings sample_env 10 20 1 sample_state)) =
     [delivery_request sample_env ''enc'' sample_event sample_endpoint 1]"
  "events (es_db (snd (deliver_to_endpoint default_settings sample_env 10 20 1 sample_state))) =
     [sample_event\<lparr>ev_status := ''completed'', ev_updated_at := 0\<rparr>]"
proof -
  have ev: "get_event_row 10 (es_db sample_state) = Some sample_event"
    and ep: "get_endpoint 20 (es_db sample_state) = Some sample_endpoint"
    using db_ok_get(1,2) [OF sample_db_ok] by (auto simp: sample_defs sample_state_def)
  have ins: "\<exists>d1. insert_delivery (started_row sample_env sample_event sample_endpoint 1) (es_db sample_state) = Inr d1"
    by (simp add: insert_delivery_def fits_defs new_delivery_def sample_state_def sample_defs sample_env_def)
  then obtain d1 where d1: "insert_delivery (started_row sample_env sample_event sample_endpoint 1)
      (es_db sample_state) = Inr d1" ..
  note eq = sample_call [OF ev ep d1] sample_sends
  show "fst (deliver_to_endpoint default_settings sample_env 10 20 1 sample_state) =
      Inr \<lparr>sm_endpoint_id = 20, sm_outcome = SUCCESS, sm_http_status = Some 200\<rparr>"
    unfolding eq by simp
  show "es_sent (snd (deliver_to_endpoint default_settings sample_env 10 20 1 sample_state)) =
      [delivery_request sample_env ''enc'' sample_event sample_endpoint 1]"
    unfolding eq by (simp add: finish_success_def sample_state_def)
  have d1': "d1 = sample_db\<lparr>deliveries := [started_row sample_env sample_event sample_endpoint 1]\<rparr>"
    using insert_frame(4) [OF d1] by (simp add: sample_state_def sample_db_def)
  show "events (es_db (snd (deliver_to_endpoint default_settings sample_env 10 20 1 sample_state))) =
     [sample_event\<lparr>ev_status := ''completed'', ev_updated_at := 0\<rparr>]"
    unfolding eq
    by (auto simp: finish_success_def Let_def d1'
        maybe_complete_event_def modify_delivery_def tab_upd_Cons modify_event_def delivery_statuses_def
        terminal_statuses_def sample_state_def sample_db_def sample_event_def sample_env_def)
qed

text \<open>
  C9. A call of the delivery engine sends at most one request, and only to the URL of the
  endpoint it was called for, after the URL passed the SSRF validation in the same call; the request
  carries the documented body, and a signature header that verifies under the endpoint's
  decrypted secret exactly within the tolerance of the signing time, which is any finite float.
\<close>

theorem requests_are_validated_and_signed:
  assumes "deliver_to_endpoint s env eid epid n st = (r, st')" "es_sent st' \<noteq> es_sent st"
  shows "\<exists>ev ep sec rq h. get_event_row eid (es_db st) = Some ev \<and> get_endpoint epid (es_db st) = Some ep \<and>
    es_sent st' = es_sent st @ [rq] \<and> rq_url rq = ep_url ep \<and>
    validate_webhook_url (de_net env) (ep_url ep) (max_endpoint_url_length s) = Inr () \<and>
    rq_content rq = delivery_body ev (de_new_id env) n \<and>
    de_decrypt env (ep_secret_encrypted ep) = Inr sec \<and>
    map_of (rq_headers rq) ''X-EventMesh-Signature'' = Some h \<and>
    (\<bar>de_time env\<bar> \<le> max_float \<longrightarrow> (\<forall>now tol. verify_signature_header now sec (rq_content rq) h tol =
       Inr (\<bar>now - of_int (trunc (de_time env))\<bar> \<le> of_int tol)))"
proof -
  from deliver_to_endpoint_sent [OF assms] obtain ev ep sec where sent:
    "get_event_row eid (es_db st) = Some ev" "get_endpoint epid (es_db st) = Some ep"
    "es_sent st' = es_sent st @ [delivery_request env sec ev ep n]"
    "de_decrypt env (ep_secret_encrypted ep) = Inr sec"
    "validate_webhook_url (de_net env) (ep_url ep) (max_endpoint_url_length s) = Inr ()" by blast
  let ?rq = "delivery_request env sec ev ep n"
  obtain h where h: "map_of (rq_headers ?rq) ''X-EventMesh-Signature'' = Some h"
    by (simp add: delivery_request_def Let_def)
  have rq: "rq_url ?rq = ep_url ep" "rq_content ?rq = delivery_body ev (de_new_id env) n"
    by (simp_all add: delivery_request_def Let_def)
  have "\<bar>de_time env\<bar> \<le> max_float \<longrightarrow> (\<forall>now tol. verify_signature_header now sec (rq_content ?rq) h tol =
      Inr (\<bar>now - of_int (trunc (de_time env))\<bar> \<le> of_int tol))"
    using request_signature_verifies [OF h] by blast
  with sent h rq show ?thesis by blast
qed

theorem requests_are_validated_and_signed_witness:
  "\<exists>rq. es_sent (snd (deliver_to_endpoint default_settings sample_env 10 20 1 sample_state)) = [rq] \<and>
     rq_url rq = ''https://example.com/hook''"
proof -
  obtain r st' where d: "deliver_to_endpoint default_settings sample_env 10 20 1 sample_state = (r, st')"
    by (cases "deliver_to_endpoint default_settings sample_env 10 20 1 sample_state")
  have ne: "es_sent st' \<noteq> es_sent sample_state" using sample_delivery(2) d by (simp add: sample_state_def)
  have ep: "get_endpoint 20 (es_db sample_state) = Some sample_endpoint"
    using db_ok_get(2) [OF sample_db_ok] by (auto simp: sample_defs sample_state_def)
  from requests_are_validated_and_signed [OF d ne] ep obtain rq where
    "es_sent st' = es_sent sample_state @ [rq]" "rq_url rq = ep_url sample_endpoint" by auto
  with d show ?thesis by (simp add: sample_state_def sample_endpoint_def)
qed

text \<open>
  C11. A call that raises either failed before its insert was accepted, and then changed nothing and sent nothing, or leaves exactly one new row, in
  DELIVERING. A call that returns for an event or endpoint that is gone changes nothing. Every other call that returns
  leaves exactly one new row, for its own event, endpoint and attempt number: DELIVERED after a success, DLQ
  after a permanent failure, and after a retryable one RETRYING with a retry time, or DLQ if
  the policy grants no further attempt.
\<close>

theorem attempt_is_recorded:
  assumes "deliver_to_endpoint s env eid epid n st = (r, st')"
  shows "(\<forall>e. r = Inl e \<longrightarrow> st' = st \<or>
      (\<exists>row. deliveries (es_db st') = deliveries (es_db st) @ [row] \<and> dl_id row = de_new_id env \<and>
         dl_event_id row = eid \<and> dl_endpoint_id row = epid \<and> dl_attempt_number row = n \<and>
         dl_status row = ''delivering'')) \<and>
    (\<forall>sm. r = Inr sm \<longrightarrow>
      (if get_event_row eid (es_db st) = None \<or> get_endpoint epid (es_db st) = None
       then st' = st \<and> sm_outcome sm = PERMANENT_FAILURE \<and> sm_http_status sm = None
       else \<exists>row. deliveries (es_db st') = deliveries (es_db st) @ [row] \<and> dl_id row = de_new_id env \<and>
         dl_event_id row = eid \<and> dl_endpoint_id row = epid \<and> dl_attempt_number row = n \<and>
         (sm_outcome sm = SUCCESS \<and> dl_status row = ''delivered'' \<or>
          sm_outcome sm = PERMANENT_FAILURE \<and> dl_status row = ''dlq'' \<or>
          sm_outcome sm = RETRY \<and>
            (dl_status row = ''retrying'' \<and> dl_next_retry_at row \<noteq> None \<or>
             dl_status row = ''dlq'' \<and> exp_next_delay_seconds (engine_retry_policy s) (de_rand env) n = Inr None))))"
proof (cases r)
  case (Inl e)
  with deliver_to_endpoint_outcome [OF assms] show ?thesis by (auto simp: call_row_def)
next
  case (Inr sm)
  show ?thesis
  proof (cases "get_event_row eid (es_db st) = None \<or> get_endpoint epid (es_db st) = None")
    case True
    with deliver_to_endpoint_outcome [OF assms] Inr show ?thesis by simp
  next
    case False
    with deliver_to_endpoint_outcome [OF assms] Inr obtain row where row:
      "deliveries (es_db st') = deliveries (es_db st) @ [row]" "call_row env eid epid n row"
      "status_matches s env n (sm_outcome sm) row" by auto
    from row(3) have "sm_outcome sm = SUCCESS \<and> dl_status row = ''delivered'' \<or>
          sm_outcome sm = PERMANENT_FAILURE \<and> dl_status row = ''dlq'' \<or>
          sm_outcome sm = RETRY \<and>
            (dl_status row = ''retrying'' \<and> dl_next_retry_at row \<noteq> None \<or>
             dl_status row = ''dlq'' \<and> exp_next_delay_seconds (engine_retry_policy s) (de_rand env) n = Inr None)"
      by (cases "sm_outcome sm") (auto simp: status_matches_def)
    with row(1,2) False Inr show ?thesis by (auto simp: call_row_def)
  qed
qed

theorem attempt_is_recorded_witness:
  "\<exists>row. deliveries (es_db (snd (deliver_to_endpoint default_settings sample_env 10 20 1 sample_state))) = [row] \<and>
     dl_id row = 40 \<and> dl_event_id row = 10 \<and> dl_endpoint_id row = 20 \<and> dl_status row = ''delivered''"
proof -
  let ?p = "deliver_to_endpoint default_settings sample_env 10 20 1 sample_state"
  have p: "?p = (Inr \<lparr>sm_endpoint_id = 20, sm_outcome = SUCCESS, sm_http_status = Some 200\<rparr>, snd ?p)"
    using sample_delivery(1) by (metis prod.collapse)
  have rows: "get_event_row 10 (es_db sample_state) = Some sample_event" "get_endpoint 20 (es_db sample_state) = Some sample_endpoint"
    using db_ok_get(1,2) [OF sample_db_ok] by (auto simp: sample_defs sample_state_def)
  from attempt_is_recorded [OF p] rows show ?thesis
    by (auto simp: sample_state_def sample_db_def sample_env_def)
qed

text \<open>
  C34. Whatever message it processes, the engine records every attempt as attempt number 1:
  a retry never counts as a second attempt.
\<close>

theorem attempts_are_never_counted:
  assumes "process_outbox_payload s scan now envs p st = (r, st')"
  shows "\<exists>rows. deliveries (es_db st') = deliveries (es_db st) @ rows \<and>
    (\<forall>row \<in> set rows. dl_attempt_number row = 1)"
  using assms by (rule process_outbox_payload_rows)

theorem attempts_are_never_counted_witness:
  "dl_attempt_number ` set (deliveries (es_db (snd (process_outbox_payload default_settings (\<lambda>xs. xs) 0 (\<lambda>_. sample_env)
       [(''event_id'', JStr (str_uuid 10)), (''tenant_id'', JStr (str_uuid 1)), (''type'', JStr ''order''),
        (''_retry_attempt_number'', JInt 6)] sample_state)))) \<subseteq> {1}"
  using attempts_are_never_counted [OF prod.collapse [symmetric], of default_settings "\<lambda>xs. xs" 0
      "\<lambda>_. sample_env" "[(''event_id'', JStr (str_uuid 10)), (''tenant_id'', JStr (str_uuid 1)),
        (''type'', JStr ''order''), (''_retry_attempt_number'', JInt 6)]" sample_state]
  by (auto simp: sample_state_def sample_db_def)

text \<open>
  With more than one attempt configured, a retryable failure of the engine's attempts is
  never moved to the dead-letter queue: the row waits for a retry.
\<close>

lemma retryable_failure_waits:
  assumes "deliver_to_endpoint s env eid epid 1 st = (Inr sm, st')" "sm_outcome sm = RETRY"
    "1 < retry_max_attempts s" "deliveries (es_db st') = deliveries (es_db st) @ [row]"
  shows "dl_status row = delivery_status_value DL_RETRYING \<and> dl_next_retry_at row \<noteq> None"
proof -
  from deliver_to_endpoint_row [OF assms(1)] assms(4) have "status_matches s env 1 (sm_outcome sm) row" by auto
  moreover have "exp_next_delay_seconds (engine_retry_policy s) (de_rand env) 1 \<noteq> Inr None"
    using exponential.None_iff [of "engine_retry_policy s" "de_rand env" 1] assms(3)
    by (simp add: engine_retry_policy_def)
  ultimately show ?thesis using assms(2) by (auto simp: status_matches_def)
qed

text \<open>The sample database with the endpoint's circuit open.\<close>

definition sample_open_endpoint :: endpoint where
  "sample_open_endpoint = sample_endpoint\<lparr>ep_circuit_state := ''open''\<rparr>"

definition sample_open_state :: engine_state where
  "sample_open_state = sample_state\<lparr>es_db := sample_db\<lparr>endpoints := [sample_open_endpoint]\<rparr>\<rparr>"

lemma sample_open_delivery:
  "deliver_to_endpoint default_settings sample_env 10 20 1 sample_open_state =
     (Inr \<lparr>sm_endpoint_id = 20, sm_outcome = RETRY, sm_http_status = None\<rparr>,
      sample_open_state\<lparr>es_db := (es_db sample_open_state)\<lparr>deliveries :=
        [(new_delivery 40 10 20 1 DL_RETRYING 0)\<lparr>dl_next_retry_at := Some 30000000\<rparr>]\<rparr>\<rparr>)"
  "get_endpoint 20 (es_db sample_open_state) = Some sample_open_endpoint"
proof -
  have t: "timedelta_seconds 30 = 30000000" using timedelta_seconds_of_int [of 30] by simp
  show ep: "get_endpoint 20 (es_db sample_open_state) = Some sample_open_endpoint"
    by (simp add: sample_open_state_def sample_state_def sample_open_endpoint_def sample_defs
        get_endpoint_def tab_get_Cons)
  have ev: "get_event_row 10 (es_db sample_open_state) = Some sample_event"
    by (simp add: sample_open_state_def sample_state_def sample_defs get_event_row_def tab_get_Cons)
  show "deliver_to_endpoint default_settings sample_env 10 20 1 sample_open_state =
     (Inr \<lparr>sm_endpoint_id = 20, sm_outcome = RETRY, sm_http_status = None\<rparr>,
      sample_open_state\<lparr>es_db := (es_db sample_open_state)\<lparr>deliveries :=
        [(new_delivery 40 10 20 1 DL_RETRYING 0)\<lparr>dl_next_retry_at := Some 30000000\<rparr>]\<rparr>\<rparr>)"
    unfolding deliver_to_endpoint_def ev ep
    by (simp add: load_circuit_breaker_def sample_open_endpoint_def sample_open_state_def sample_state_def
        sample_endpoint_def default_settings_def initial_state_def circuit_state_of_def enum_of_value_def
        cb_allow_request_def allow_request_open schedule_retry_def insert_delivery_def fits_defs new_delivery_def
        sample_defs sample_env_def t)
qed

text \<open>
  C35. The circuit state kept in the database does not move: with a threshold above one, a call
  for an endpoint stored as closed or open leaves the endpoints as they are, and an endpoint
  stored as open gets no request, however long ago it was opened.
\<close>

theorem persisted_breaker_never_moves:
  assumes "deliver_to_endpoint s env eid epid n st = (r, st')" "1 < circuit_failure_threshold s"
    "get_endpoint epid (es_db st) = Some ep" "ep_circuit_state ep = circuit_state_value c" "c \<noteq> HALF_OPEN"
  shows "endpoints (es_db st') = endpoints (es_db st) \<and> (c = OPEN \<longrightarrow> es_sent st' = es_sent st)"
  using assms by (rule breaker_state_frozen)

theorem persisted_breaker_never_moves_witness:
  "es_sent (snd (deliver_to_endpoint default_settings sample_env 10 20 1 sample_open_state)) = es_sent sample_open_state"
  using persisted_breaker_never_moves [OF prod.collapse [symmetric] _ sample_open_delivery(2), of default_settings OPEN
      sample_env 10 1]
  by (simp add: default_settings_def sample_open_endpoint_def)



text \<open>
  C10. Without a target, the engine delivers to exactly the active endpoints of the tenant that
  subscribe to the event type, each once, in whatever order the database returns them.
\<close>

theorem fan_out_is_exact:
  assumes "db_ok d" "is_scan scan" "truthy target = None"
  shows "\<exists>eps. resolve_endpoints scan tid (JStr et) target d = Inr eps \<and> distinct eps \<and>
    set eps = ep_id ` {e \<in> set (endpoints d). wants tid et d e}"
  using assms by (rule resolve_untargeted)

theorem fan_out_is_exact_witness:
  "\<exists>eps. resolve_endpoints rev 1 (JStr ''order'') None sample_db = Inr eps \<and> set eps = {20}"
proof -
  have "{e \<in> set (endpoints sample_db). wants 1 ''order'' sample_db e} = {sample_endpoint}"
    by (auto simp: wants_def sample_defs)
  with fan_out_is_exact [OF sample_db_ok is_scan_rev, of None 1 "''order''"] show ?thesis
    by (auto simp: truthy_def sample_endpoint_def)
qed

end
