(* ===== verification/Tasks.thy ===== *)
theory Tasks
  imports Engine_Properties Broker
begin

text \<open>
  The handling of one stream message, \<open>_handle_message\<close> of \<open>apps/worker/eventmesh_worker/main.py\<close>: as one function,
  and as a task that goes from one database transaction to the next, so that other tasks and processes
  can run in between. What a task has read before such a point is kept in the point and may be out of date
  when it is used; a row that is gone by the time it is updated raises StaleDataError, as the ORM does. A
  task that runs alone does what the function does.
\<close>

section \<open>One message\<close>

record message_env =
  me_scan :: "uuid list \<Rightarrow> uuid list"
  me_now :: datetime
  me_envs :: "nat \<Rightarrow> delivery_env"

definition message_payload :: "stream_message \<Rightarrow> (string \<times> json) list result" where
  "message_payload msg =
     (case map_of (msg_fields msg) ''payload'' of
        None \<Rightarrow> Inl (KeyError ''payload'')
      | Some text \<Rightarrow>
          rbind (json_loads text) (\<lambda>j.
            case j of JObj p \<Rightarrow> Inr p | _ \<Rightarrow> Inl (TypeError ''payload is not a mapping'')))"

text \<open>Everything inside the \<open>try\<close> block.\<close>

definition process_message :: "settings \<Rightarrow> message_env \<Rightarrow> stream_message \<Rightarrow> engine_state \<Rightarrow>
    unit result \<times> engine_state" where
  "process_message s M msg st =
     (case message_payload msg of
        Inl e \<Rightarrow> (Inl e, st)
      | Inr p \<Rightarrow>
          (case process_outbox_payload s (me_scan M) (me_now M) (me_envs M) p st of
             (Inl e, st') \<Rightarrow> (Inl e, st')
           | (Inr _, st') \<Rightarrow> (Inr (), st')))"

text \<open>A failure is logged and the message is not acknowledged.\<close>

definition settle :: "settings \<Rightarrow> 'r redis_client \<Rightarrow> stream_message \<Rightarrow> unit result \<Rightarrow> 'r \<Rightarrow> unit result \<times> 'r" where
  "settle s R msg res r =
     (case res of
        Inl e \<Rightarrow> (Inr (), r)
      | Inr _ \<Rightarrow> acknowledge R (worker_stream_name s) (worker_consumer_group s) (message_id msg) r)"

definition handle_message :: "settings \<Rightarrow> message_env \<Rightarrow> 'r redis_client \<Rightarrow> stream_message \<Rightarrow>
    engine_state \<times> 'r \<Rightarrow> unit result \<times> (engine_state \<times> 'r)" where
  "handle_message s M R msg = (\<lambda>(st, r).
     (case process_message s M msg st of
        (res, st') \<Rightarrow> (case settle s R msg res r of (ares, r') \<Rightarrow> (ares, (st', r')))))"

section \<open>The points of a task\<close>

text \<open>
  What a call of \<open>_deliver_to_endpoint\<close> holds: its environment, the rows it loaded, the breaker, the attempt number.
  The session does not expire its objects on commit, so these values stay as they were read.
\<close>

record attempt =
  at_env :: delivery_env
  at_event :: event
  at_endpoint :: endpoint
  at_breaker :: circuit_breaker
  at_number :: int

text \<open>
  Where a task can be: the message received; the event and its endpoints read; at the head of the loop over the
  endpoints; event, endpoint and breaker read for one of them; the DELIVERING row committed; the request answered;
  after a success, the statuses of the event's deliveries read; and the end, with the exception if there was one.
\<close>

datatype task_point =
    Received
  | Resolved event "uuid list"
  | Looping uuid "uuid list"
  | Loaded attempt bool "uuid list"
  | Recorded attempt "uuid list"
  | Answered attempt http_result "uuid list"
  | Deciding attempt "int option" bool "uuid list"
  | Returned "unit result"

text \<open>What a step reads from outside.\<close>

record step_env =
  se_scan :: "uuid list \<Rightarrow> uuid list"
  se_now :: datetime
  se_env :: delivery_env

section \<open>Steps\<close>

text \<open>The first session: read, then commit the event's status.\<close>

definition resolve_step :: "step_env \<Rightarrow> stream_message \<Rightarrow> db \<Rightarrow> task_point" where
  "resolve_step E msg d =
     (case rbind (message_payload msg) parse_payload of
        Inl e \<Rightarrow> Returned (Inl e)
      | Inr (event_id, tenant_id, event_type, target) \<Rightarrow>
          (case get_event_row event_id d of
             None \<Rightarrow> Returned (Inr ())
           | Some ev \<Rightarrow>
               (case resolve_endpoints (se_scan E) tenant_id event_type target d of
                  Inl e \<Rightarrow> Returned (Inl e)
                | Inr eps \<Rightarrow> if eps = [] then Returned (Inr ()) else Resolved ev eps)))"

definition commit_processing :: "datetime \<Rightarrow> event \<Rightarrow> db \<Rightarrow> db result" where
  "commit_processing now ev d =
     (if ev_status ev \<noteq> event_status_value EV_PROCESSING \<and> get_event_row (ev_id ev) d = None
      then Inl StaleDataError else Inr (set_processing now ev d))"

text \<open>The start of a call: read the rows and ask the breaker.\<close>

definition load_step :: "settings \<Rightarrow> delivery_env \<Rightarrow> uuid \<Rightarrow> uuid \<Rightarrow> uuid list \<Rightarrow> db \<Rightarrow> task_point" where
  "load_step s env event_id endpoint_id eps d =
     (case (get_event_row event_id d, get_endpoint endpoint_id d) of
        (Some ev, Some ep) \<Rightarrow>
          (case load_circuit_breaker s ep of
             Inl e \<Rightarrow> Returned (Inl e)
           | Inr cb0 \<Rightarrow>
               (case cb_allow_request (de_mono_allow env) cb0 of
                  (ok, cb) \<Rightarrow>
                    Loaded \<lparr>at_env = env, at_event = ev, at_endpoint = ep, at_breaker = cb, at_number = 1\<rparr> ok eps))
      | _ \<Rightarrow> Looping event_id eps)"

text \<open>The commit of the new row, or of the retry of a call that the breaker does not let through.\<close>

definition record_step :: "settings \<Rightarrow> attempt \<Rightarrow> bool \<Rightarrow> uuid list \<Rightarrow> engine_state \<Rightarrow> task_point \<times> engine_state" where
  "record_step s a ok eps st =
     (let env = at_env a; ev = at_event a; ep = at_endpoint a in
      if ok
      then (case insert_delivery
                   ((new_delivery (de_new_id env) (ev_id ev) (ep_id ep) (at_number a) DL_DELIVERING (de_db_now env))
                      \<lparr>dl_started_at := Some (de_started env)\<rparr>) (es_db st) of
              Inl e \<Rightarrow> (Returned (Inl e), st)
            | Inr d1 \<Rightarrow> (Recorded a eps, add_metric (Deliveries_total (ev_event_type ev)) (st\<lparr>es_db := d1\<rparr>)))
      else (case schedule_retry env (ev_id ev) (ep_id ep) (at_number a) (circuit_open_duration_seconds s) (es_db st) of
              Inl e \<Rightarrow> (Returned (Inl e), st)
            | Inr d1 \<Rightarrow> (Looping (ev_id ev) eps, st\<lparr>es_db := d1\<rparr>)))"

text \<open>Validate, decrypt and send; a destination that is not safe is recorded in the row.\<close>

definition ssrf_row :: "delivery_env \<Rightarrow> string \<Rightarrow> delivery \<Rightarrow> delivery" where
  "ssrf_row env m r =
     r\<lparr>dl_status := delivery_status_value DL_DLQ,
       dl_error_message := Some (''SSRF validation failed at send-time: '' @ m),
       dl_completed_at := Some (de_completed env)\<rparr>"

definition send_step :: "settings \<Rightarrow> attempt \<Rightarrow> uuid list \<Rightarrow> engine_state \<Rightarrow> task_point \<times> engine_state" where
  "send_step s a eps st =
     (let env = at_env a; ev = at_event a; ep = at_endpoint a in
      case validate_webhook_url (de_net env) (ep_url ep) (max_endpoint_url_length s) of
        Inl (SSRFValidationError m) \<Rightarrow>
          if get_delivery_row (de_new_id env) (es_db st) = None then (Returned (Inl StaleDataError), st)
          else (Looping (ev_id ev) eps, st\<lparr>es_db := modify_delivery (de_new_id env) (ssrf_row env m) (es_db st)\<rparr>)
      | Inl e \<Rightarrow> (Returned (Inl e), st)
      | Inr _ \<Rightarrow>
          (case de_decrypt env (ep_secret_encrypted ep) of
             Inl e \<Rightarrow> (Returned (Inl e), st)
           | Inr secret \<Rightarrow>
               let rq = delivery_request env secret ev ep (at_number a);
                   st1 = st\<lparr>es_sent := es_sent st @ [rq]\<rparr>
               in case de_http env rq of
                    HttpRaises e \<Rightarrow> (Returned (Inl e), st1)
                  | h \<Rightarrow> (Answered a h eps, st1)))"

text \<open>
  The rows that the last commit updates: the delivery, the event if it is completed, the endpoint if the breaker
  changed its state.
\<close>

definition stale :: "attempt \<Rightarrow> bool \<Rightarrow> circuit_breaker \<Rightarrow> db \<Rightarrow> bool" where
  "stale a writes_event cb d \<longleftrightarrow>
     get_delivery_row (de_new_id (at_env a)) d = None \<or>
     writes_event \<and> get_event_row (ev_id (at_event a)) d = None \<or>
     circuit_state_value (state (cb_state cb)) \<noteq> ep_circuit_state (at_endpoint a) \<and>
       get_endpoint (ep_id (at_endpoint a)) d = None"

definition delivered_row :: "delivery_env \<Rightarrow> int option \<Rightarrow> delivery \<Rightarrow> delivery" where
  "delivered_row env status_code r =
     r\<lparr>dl_http_status := status_code, dl_latency_ms := Some (latency_ms env),
       dl_completed_at := Some (de_completed env), dl_status := delivery_status_value DL_DELIVERED\<rparr>"

definition all_terminal :: "uuid \<Rightarrow> db \<Rightarrow> bool" where
  "all_terminal event_id d \<longleftrightarrow>
     (let statuses = delivery_statuses event_id d in statuses \<noteq> {} \<and> statuses \<subseteq> terminal_statuses)"

definition answer_of :: "http_result \<Rightarrow> int option \<times> bool \<times> bool" where
  "answer_of h =
     (case h of
        HttpResponse c \<Rightarrow> (Some c, False, False)
      | HttpTimeout \<Rightarrow> (None, True, False)
      | _ \<Rightarrow> (None, False, True))"

text \<open>
  A success flushes the row and reads the statuses, its own among them, before it commits; a failure commits at once.
\<close>

definition answer_step :: "settings \<Rightarrow> attempt \<Rightarrow> http_result \<Rightarrow> uuid list \<Rightarrow> engine_state \<Rightarrow>
    task_point \<times> engine_state" where
  "answer_step s a h eps st =
     (let env = at_env a; ev = at_event a; i = de_new_id env;
          st1 = add_metric (Delivery_latency_seconds (ev_event_type ev) (of_int (latency_ms env) / 1000)) st
      in case answer_of h of (status_code, timed_out, connection_error) \<Rightarrow>
         (let result = classify_response status_code timed_out connection_error in
          if cl_outcome result = SUCCESS
          then let st2 = add_metric (Delivery_success_total (ev_event_type ev)) st1 in
               if get_delivery_row i (es_db st) = None then (Returned (Inl StaleDataError), st2)
               else (Deciding a status_code
                       (all_terminal (ev_id ev) (modify_delivery i (delivered_row env status_code) (es_db st))) eps, st2)
          else case finish_failure s env ev (at_endpoint a) (at_breaker a) status_code result (at_number a) st1 of
                 (Inl e, st2) \<Rightarrow> (Returned (Inl e), st2)
               | (Inr _, st2) \<Rightarrow>
                   if stale a False (cb_record_failure (de_mono_record env) (at_breaker a)) (es_db st)
                   then (Returned (Inl StaleDataError), st2\<lparr>es_db := es_db st\<rparr>)
                   else (Looping (ev_id ev) eps, st2)))"

definition complete_event :: "datetime \<Rightarrow> event \<Rightarrow> db \<Rightarrow> db" where
  "complete_event now ev d =
     modify_event (ev_id ev) (\<lambda>e. e\<lparr>ev_status := event_status_value EV_COMPLETED, ev_updated_at := now\<rparr>) d"

definition success_step :: "attempt \<Rightarrow> int option \<Rightarrow> bool \<Rightarrow> uuid list \<Rightarrow> engine_state \<Rightarrow> task_point \<times> engine_state" where
  "success_step a status_code terminal eps st =
     (let env = at_env a; ev = at_event a;
          cb = cb_record_success (at_breaker a);
          writes_event = (terminal \<and> ev_status ev \<noteq> event_status_value EV_COMPLETED)
      in if stale a writes_event cb (es_db st) then (Returned (Inl StaleDataError), st)
         else let d1 = modify_delivery (de_new_id env) (delivered_row env status_code) (es_db st);
                  d2 = (if writes_event then complete_event (de_db_now env) ev d1 else d1)
              in (Looping (ev_id ev) eps, st\<lparr>es_db := save_circuit_breaker (de_db_now env) (at_endpoint a) cb d2\<rparr>))"

text \<open>One step of a task.\<close>

definition task_step :: "settings \<Rightarrow> step_env \<Rightarrow> stream_message \<Rightarrow> task_point \<Rightarrow> engine_state \<Rightarrow>
    task_point \<times> engine_state" where
  "task_step s E msg pt st =
     (case pt of
        Received \<Rightarrow> (resolve_step E msg (es_db st), st)
      | Resolved ev eps \<Rightarrow>
          (case commit_processing (se_now E) ev (es_db st) of
             Inl e \<Rightarrow> (Returned (Inl e), st)
           | Inr d1 \<Rightarrow> (Looping (ev_id ev) eps, st\<lparr>es_db := d1\<rparr>))
      | Looping event_id [] \<Rightarrow> (Returned (Inr ()), st)
      | Looping event_id (ep # eps) \<Rightarrow> (load_step s (se_env E) event_id ep eps (es_db st), st)
      | Loaded a ok eps \<Rightarrow> record_step s a ok eps st
      | Recorded a eps \<Rightarrow> send_step s a eps st
      | Answered a h eps \<Rightarrow> answer_step s a h eps st
      | Deciding a status_code terminal eps \<Rightarrow> success_step a status_code terminal eps st
      | Returned res \<Rightarrow> (Returned res, st))"

text \<open>Steps of one task with nothing in between.\<close>

fun task_steps :: "settings \<Rightarrow> stream_message \<Rightarrow> step_env list \<Rightarrow> task_point \<times> engine_state \<Rightarrow>
    task_point \<times> engine_state" where
  "task_steps s msg [] c = c"
| "task_steps s msg (E # Es) (pt, st) = task_steps s msg Es (task_step s E msg pt st)"

section \<open>What a step does to the database\<close>

lemmas task_defs = task_step_def load_step_def record_step_def send_step_def answer_step_def success_step_def
  commit_processing_def

lemma delivered_row_sel [simp]:
  "dl_id (delivered_row env c r) = dl_id r" "dl_event_id (delivered_row env c r) = dl_event_id r"
  "dl_endpoint_id (delivered_row env c r) = dl_endpoint_id r"
  "dl_id (ssrf_row env m r) = dl_id r" "dl_event_id (ssrf_row env m r) = dl_event_id r"
  "dl_endpoint_id (ssrf_row env m r) = dl_endpoint_id r"
  by (simp_all add: delivered_row_def ssrf_row_def)

lemma db_ok_complete_event [db_ok_intros]: "db_ok d \<Longrightarrow> db_ok (complete_event now ev d)"
  by (simp add: complete_event_def db_ok_modify_event)

lemma db_ok_schedule_retry: "schedule_retry env eid epid n x d = Inr d' \<Longrightarrow> db_ok d \<Longrightarrow> db_ok d'"
  by (simp add: schedule_retry_def db_ok_insert_delivery)

text \<open>An answer leaves the database as it is until a success commits, or records the failure.\<close>

lemma finish_failure_raises:
  "finish_failure s env ev ep cb c res n st = (Inl e, st') \<Longrightarrow> es_db st' = es_db st"
  by (auto simp: finish_failure_def Let_def split: if_splits sum.splits prod.splits)

lemma answer_step_cases:
  assumes "answer_step s a h eps st = (pt', st')"
  obtains (kept) "es_db st' = es_db st"
  | (failed) c res st1 st2 where "finish_failure s (at_env a) (at_event a) (at_endpoint a) (at_breaker a) c res (at_number a) st1 =
      (Inr (), st2)" "es_db st1 = es_db st" "es_db st' = es_db st2" "get_delivery_row (de_new_id (at_env a)) (es_db st) \<noteq> None"
proof -
  obtain c t x where h: "answer_of h = (c, t, x)" by (cases "answer_of h")
  let ?st1 = "add_metric (Delivery_latency_seconds (ev_event_type (at_event a)) (of_int (latency_ms (at_env a)) / 1000)) st"
  obtain r st2 where f: "finish_failure s (at_env a) (at_event a) (at_endpoint a) (at_breaker a) c (classify_response c t x)
      (at_number a) ?st1 = (r, st2)" by fastforce
  show thesis
  proof (cases r)
    case (Inl e)
    with finish_failure_raises [OF f [unfolded Inl]] f assms h kept show thesis
      by (auto simp: answer_step_def Let_def split: if_splits)
  next
    case (Inr u)
    with f assms h kept failed [of c "classify_response c t x" ?st1 st2] show thesis
      by (auto simp: answer_step_def Let_def stale_def split: if_splits)
  qed
qed

lemma db_ok_answer_step:
  assumes "answer_step s a h eps st = (pt', st')" "db_ok (es_db st)"
  shows "db_ok (es_db st')"
  using assms(1) by (cases rule: answer_step_cases) (use assms(2) db_ok_finish_failure in auto)

lemma db_ok_task_step:
  assumes "task_step s E msg pt st = (pt', st')" "db_ok (es_db st)"
  shows "db_ok (es_db st')"
proof (cases pt)
  case (Looping eid eps)
  with assms show ?thesis by (cases eps) (auto simp: task_step_def)
next
  case (Loaded a ok eps)
  with assms show ?thesis
    by (auto simp: task_step_def record_step_def Let_def split: if_splits sum.splits
        dest: db_ok_insert_delivery db_ok_schedule_retry)
next
  case (Recorded a eps)
  with assms show ?thesis
    by (auto simp: task_step_def send_step_def Let_def split: if_splits sum.splits exn.splits http_result.splits
        intro!: db_ok_modify_delivery)
next
  case (Answered a h eps)
  with assms db_ok_answer_step show ?thesis by (simp add: task_step_def)
next
  case (Deciding a c terminal eps)
  with assms show ?thesis
    by (auto simp: task_step_def success_step_def Let_def split: if_splits
        intro!: db_ok_save_circuit_breaker db_ok_complete_event db_ok_modify_delivery)
qed (use assms in \<open>auto simp: task_step_def commit_processing_def split: if_splits intro: db_ok_set_processing\<close>)

text \<open>The delivery row that a task is about to create or has created and not finished.\<close>

fun held :: "task_point \<Rightarrow> uuid option" where
  "held (Loaded a ok eps) = Some (de_new_id (at_env a))"
| "held (Recorded a eps) = Some (de_new_id (at_env a))"
| "held (Answered a h eps) = Some (de_new_id (at_env a))"
| "held (Deciding a c terminal eps) = Some (de_new_id (at_env a))"
| "held _ = None"

text \<open>No other row of the table changes, and no request is sent but for a row that was committed.\<close>

lemma get_delivery_other [simp]:
  "get_delivery_row i (save_circuit_breaker now ep cb d) = get_delivery_row i d"
  "get_delivery_row i (complete_event now ev d) = get_delivery_row i d"
  "get_delivery_row i (set_processing now ev d) = get_delivery_row i d"
  "get_delivery_row i (modify_event j f d) = get_delivery_row i d"
  by (simp_all add: save_circuit_breaker_def complete_event_def set_processing_def Let_def get_delivery_row_def modify_defs)

lemma get_delivery_modify_other: "i \<noteq> j \<Longrightarrow> get_delivery_row i (modify_delivery j f d) = get_delivery_row i d"
  if "\<And>r. dl_id (f r) = dl_id r"
  using delivery_table.get_modified [of f i j d] that by (simp add: get_delivery_row_def)

lemma insert_delivery_other:
  assumes "insert_delivery row d = Inr d1" "i \<noteq> dl_id row"
  shows "get_delivery_row i d1 = get_delivery_row i d"
  using insert_frame(4) [OF assms(1)] assms(2) by (auto simp: get_delivery_row_def tab_get_append tab_get_Cons split: option.split)

lemma finish_failure_other:
  assumes "finish_failure s env ev ep cb c res n st = (r, st')" "i \<noteq> de_new_id env"
  shows "get_delivery_row i (es_db st') = get_delivery_row i (es_db st)"
proof (cases "failure_disposition s env (cl_outcome res) n")
  case (Inl e)
  with assms show ?thesis by (auto simp: finish_failure_def Let_def split: if_splits)
next
  case (Inr p)
  then obtain status retry_at where "failure_disposition s env (cl_outcome res) n = Inr (status, retry_at)"
    by (cases p) simp
  with assms show ?thesis by (auto simp: finish_failure_def Let_def get_delivery_modify_other)
qed

lemma answer_step_other:
  assumes "answer_step s a h eps st = (pt', st')" "i \<noteq> de_new_id (at_env a)"
  shows "get_delivery_row i (es_db st') = get_delivery_row i (es_db st)"
  using assms(1) by (cases rule: answer_step_cases) (use assms(2) finish_failure_other in auto)

lemma task_step_other:
  assumes "task_step s E msg pt st = (pt', st')" "held pt \<noteq> Some i"
  shows "get_delivery_row i (es_db st') = get_delivery_row i (es_db st)"
proof (cases pt)
  case (Looping eid eps)
  with assms show ?thesis by (cases eps) (auto simp: task_step_def)
next
  case (Loaded a ok eps)
  with assms show ?thesis
    by (auto simp: task_step_def record_step_def Let_def schedule_retry_def split: if_splits sum.splits
        dest!: insert_delivery_other [where i = i])
next
  case (Recorded a eps)
  with assms show ?thesis
    by (auto simp: task_step_def send_step_def Let_def get_delivery_modify_other split: if_splits sum.splits exn.splits
        http_result.splits)
next
  case (Answered a h eps)
  with assms answer_step_other show ?thesis by (simp add: task_step_def)
next
  case (Deciding a c terminal eps)
  with assms show ?thesis
    by (auto simp: task_step_def success_step_def Let_def get_delivery_modify_other split: if_splits)
qed (use assms in \<open>auto simp: task_step_def commit_processing_def split: if_splits\<close>)

lemma held_resolve [simp]: "held (resolve_step E msg d) = None"
  by (simp add: resolve_step_def split: sum.split prod.split option.split if_split)

lemma held_after:
  assumes "task_step s E msg pt st = (pt', st')" "held pt' = Some i"
  shows "held pt = Some i \<or> (\<exists>eid ep eps. pt = Looping eid (ep # eps))"
proof (cases pt)
  case (Looping eid eps)
  with assms show ?thesis by (cases eps) (auto simp: task_step_def)
next
  case (Answered a h eps)
  with assms show ?thesis
    by (auto simp: task_step_def answer_step_def Let_def split: if_splits sum.splits prod.splits)
qed (use assms in \<open>auto simp: task_step_def record_step_def send_step_def success_step_def commit_processing_def Let_def
      split: if_splits sum.splits exn.splits http_result.splits\<close>)

section \<open>A task that runs alone\<close>

text \<open>Between the start of a call and its end, what the steps read from outside is in the point already.\<close>

definition task_run :: "settings \<Rightarrow> stream_message \<Rightarrow> task_point \<times> engine_state \<Rightarrow> task_point \<times> engine_state \<Rightarrow> bool" where
  "task_run s msg c c' \<longleftrightarrow> (\<exists>n. \<forall>Es. length Es = n \<longrightarrow> task_steps s msg Es c = c')"

lemma task_run_refl: "task_run s msg c c"
  unfolding task_run_def by (intro exI [of _ 0]) simp

lemma task_run_step:
  assumes "\<And>E. task_step s E msg pt st = c" "task_run s msg c c'"
  shows "task_run s msg (pt, st) c'"
proof -
  from assms(2) obtain n where "\<And>Es. length Es = n \<Longrightarrow> task_steps s msg Es c = c'" unfolding task_run_def by blast
  with assms(1) show ?thesis
    unfolding task_run_def by (intro exI [of _ "Suc n"]) (auto simp: length_Suc_conv)
qed

lemma run_one: "(\<And>E. task_step s E msg pt st = c) \<Longrightarrow> task_run s msg (pt, st) c"
  by (rule task_run_step [OF _ task_run_refl])

lemma run_two:
  "(\<And>E. task_step s E msg pt st = (pt1, st1)) \<Longrightarrow> (\<And>E. task_step s E msg pt1 st1 = c) \<Longrightarrow> task_run s msg (pt, st) c"
  by (blast intro: task_run_step run_one)

lemma task_steps_append: "task_steps s msg (Es @ Fs) c = task_steps s msg Fs (task_steps s msg Es c)"
proof (induction Es arbitrary: c)
  case (Cons E Es)
  then show ?case by (cases c) simp
qed simp

lemma task_steps_returned [simp]: "task_steps s msg Es (Returned res, st) = (Returned res, st)"
  by (induction Es) (simp_all add: task_step_def)

text \<open>Where a task is after a call for one of the endpoints.\<close>

definition after_call :: "uuid \<Rightarrow> uuid list \<Rightarrow> 'a result \<Rightarrow> task_point" where
  "after_call event_id eps r = (case r of Inl e \<Rightarrow> Returned (Inl e) | Inr _ \<Rightarrow> Looping event_id eps)"

lemma after_call_simps [simp]:
  "after_call event_id eps (Inl e) = Returned (Inl e)" "after_call event_id eps (Inr x) = Looping event_id eps"
  by (simp_all add: after_call_def)

lemma es_db_commute: "add_metric m (st\<lparr>es_db := d\<rparr>) = (add_metric m st)\<lparr>es_db := d\<rparr>"
  by (simp add: add_metric_def)

lemma success_alone:
  assumes "finish_success env ev ep cb c st = st'"
    "get_delivery_row (de_new_id env) (es_db st) \<noteq> None" "get_event_row (ev_id ev) (es_db st) \<noteq> None"
    "get_endpoint (ep_id ep) (es_db st) \<noteq> None"
  shows "success_step \<lparr>at_env = env, at_event = ev, at_endpoint = ep, at_breaker = cb, at_number = n\<rparr> c
      (all_terminal (ev_id ev) (modify_delivery (de_new_id env) (delivered_row env c) (es_db st))) eps
      (add_metric (Delivery_success_total (ev_event_type ev)) st) = (Looping (ev_id ev) eps, st')"
proof -
  have row: "delivered_row env c = (\<lambda>r. r\<lparr>dl_http_status := c, dl_latency_ms := Some (latency_ms env),
      dl_completed_at := Some (de_completed env), dl_status := delivery_status_value DL_DELIVERED\<rparr>)"
    by (simp add: delivered_row_def fun_eq_iff)
  show ?thesis
    unfolding assms(1) [symmetric] using assms(2-4)
    by (simp add: success_step_def finish_success_def stale_def Let_def row maybe_complete_event_def all_terminal_def
        complete_event_def es_db_commute del: delivery_status_value.simps event_status_value.simps circuit_state_value.simps)
qed

lemma answer_alone:
  assumes "finish_delivery s env ev ep cb n c t x st = (r, st')" "answer_of h = (c, t, x)"
    "get_delivery_row (de_new_id env) (es_db st) \<noteq> None" "get_event_row (ev_id ev) (es_db st) \<noteq> None"
    "get_endpoint (ep_id ep) (es_db st) \<noteq> None"
    "a = \<lparr>at_env = env, at_event = ev, at_endpoint = ep, at_breaker = cb, at_number = n\<rparr>"
  shows "task_run s msg (Answered a h eps, st) (after_call (ev_id ev) eps r, st')"
proof (cases "cl_outcome (classify_response c t x) = SUCCESS")
  case True
  let ?st1 = "add_metric (Delivery_latency_seconds (ev_event_type ev) (of_int (latency_ms env) / 1000)) st"
  from True assms(1) have "finish_success env ev ep cb c ?st1 = st'" and r: "after_call (ev_id ev) eps r = Looping (ev_id ev) eps"
    by (auto simp: finish_delivery_def Let_def)
  let ?pt = "Deciding a c (all_terminal (ev_id ev) (modify_delivery (de_new_id env) (delivered_row env c) (es_db st))) eps"
  and ?st2 = "add_metric (Delivery_success_total (ev_event_type ev)) ?st1"
  have "task_step s E msg (Answered a h eps) st = (?pt, ?st2)" for E
    using True assms(2,3,6) by (simp add: task_step_def answer_step_def Let_def)
  moreover have "task_step s E msg ?pt ?st2 = (Looping (ev_id ev) eps, st')" for E
    using success_alone [OF \<open>finish_success env ev ep cb c ?st1 = st'\<close>, where eps = eps and n = n] assms(3-6)
    by (simp add: task_step_def)
  ultimately show ?thesis unfolding r by (rule run_two)
next
  case False
  with assms show ?thesis
    by (intro run_one)
      (auto simp: task_step_def answer_step_def finish_delivery_def Let_def stale_def split: sum.splits prod.splits)
qed

lemma http_result_answer:
  "(case h of
      HttpRaises e \<Rightarrow> (Inl e, st)
    | HttpResponse c \<Rightarrow> finish_delivery s env ev ep cb n (Some c) False False st
    | HttpTimeout \<Rightarrow> finish_delivery s env ev ep cb n None True False st
    | HttpTransportError \<Rightarrow> finish_delivery s env ev ep cb n None False True st) =
   (case h of
      HttpRaises e \<Rightarrow> (Inl e, st)
    | _ \<Rightarrow> (case answer_of h of (c, t, x) \<Rightarrow> finish_delivery s env ev ep cb n c t x st))"
  by (cases h) (simp_all add: answer_of_def)

lemma send_alone:
  assumes "send_and_finish s env sec ev ep cb n st = (r, st')"
    "validate_webhook_url (de_net env) (ep_url ep) (max_endpoint_url_length s) = Inr ()"
    "de_decrypt env (ep_secret_encrypted ep) = Inr sec"
    "get_delivery_row (de_new_id env) (es_db st) \<noteq> None" "get_event_row (ev_id ev) (es_db st) \<noteq> None"
    "get_endpoint (ep_id ep) (es_db st) \<noteq> None"
    "a = \<lparr>at_env = env, at_event = ev, at_endpoint = ep, at_breaker = cb, at_number = n\<rparr>"
  shows "task_run s msg (Recorded a eps, st) (after_call (ev_id ev) eps r, st')"
proof -
  let ?rq = "delivery_request env sec ev ep n"
  let ?h = "de_http env ?rq" and ?st1 = "st\<lparr>es_sent := es_sent st @ [?rq]\<rparr>"
  show ?thesis
  proof (cases "\<exists>e. ?h = HttpRaises e")
    case True
    with assms show ?thesis
      by (intro run_one) (auto simp: task_step_def send_step_def send_and_finish_def Let_def)
  next
    case False
    obtain c t x where ans: "answer_of ?h = (c, t, x)" by (cases "answer_of ?h")
    have "task_step s E msg (Recorded a eps) st = (Answered a ?h eps, ?st1)" for E
      using False assms(2,3,7) by (cases ?h) (simp_all add: task_step_def send_step_def Let_def)
    moreover have "finish_delivery s env ev ep cb n c t x ?st1 = (r, st')"
      using False assms(1) ans unfolding send_and_finish_def Let_def http_result_answer by (cases ?h) simp_all
    from answer_alone [OF this ans _ _ _ assms(7)] assms(4-6)
    have "task_run s msg (Answered a ?h eps, ?st1) (after_call (ev_id ev) eps r, st')" by simp
    ultimately show ?thesis by (rule task_run_step)
  qed
qed

lemma ssrf_row_eq:
  "ssrf_row env m = (\<lambda>r. r\<lparr>dl_status := delivery_status_value DL_DLQ,
     dl_error_message := Some (''SSRF validation failed at send-time: '' @ m), dl_completed_at := Some (de_completed env)\<rparr>)"
  by (simp add: ssrf_row_def fun_eq_iff)

lemma insert_delivery_gets:
  assumes "insert_delivery row d = Inr d1"
  shows "get_delivery_row (dl_id row) d1 = Some row" "get_event_row i d1 = get_event_row i d"
    "get_endpoint i d1 = get_endpoint i d"
  using assms delivery_table.get_inserted [OF assms] insert_frame(4) [OF assms] by (auto simp: get_defs)

lemma attempt_alone:
  assumes "attempt_delivery s env ev ep cb n st = (r, st')"
    "get_event_row (ev_id ev) (es_db st) \<noteq> None" "get_endpoint (ep_id ep) (es_db st) \<noteq> None"
    "a = \<lparr>at_env = env, at_event = ev, at_endpoint = ep, at_breaker = cb, at_number = n\<rparr>"
  shows "task_run s msg (Loaded a True eps, st) (after_call (ev_id ev) eps r, st')"
proof (cases rule: attempt_delivery_cases [where env = env and ev = ev and ep = ep and n = n and st = st and s = s])
  case (no_insert e)
  with assms show ?thesis
    by (intro run_one) (auto simp: task_step_def record_step_def Let_def attempt_insert_fails)
next
  case (ssrf d1 m)
  note gets = insert_delivery_gets [OF ssrf(1)]
  have "task_step s E msg (Loaded a True eps) st = (Recorded a eps, started_state ev d1 st)" for E
    using ssrf(1) assms(4) by (simp add: task_step_def record_step_def Let_def)
  moreover have "task_step s E msg (Recorded a eps) (started_state ev d1 st) = (after_call (ev_id ev) eps r, st')" for E
    using ssrf assms(1,4) gets(1) by (auto simp: task_step_def send_step_def Let_def attempt_ssrf ssrf_row_eq)
  ultimately show ?thesis by (rule run_two)
next
  case (raises d1 e)
  have "task_step s E msg (Loaded a True eps) st = (Recorded a eps, started_state ev d1 st)" for E
    using raises(1) assms(4) by (simp add: task_step_def record_step_def Let_def)
  moreover have "task_step s E msg (Recorded a eps) (started_state ev d1 st) = (after_call (ev_id ev) eps r, st')" for E
    using raises assms(1,4) by (cases e) (auto simp: task_step_def send_step_def Let_def attempt_raises)
  ultimately show ?thesis by (rule run_two)
next
  case (valid d1)
  note gets = insert_delivery_gets [OF valid(1)]
  have "task_step s E msg (Loaded a True eps) st = (Recorded a eps, started_state ev d1 st)" for E
    using valid(1) assms(4) by (simp add: task_step_def record_step_def Let_def)
  moreover have "task_run s msg (Recorded a eps, started_state ev d1 st) (after_call (ev_id ev) eps r, st')"
  proof (cases "de_decrypt env (ep_secret_encrypted ep)")
    case (Inl e)
    with valid assms(1,4) show ?thesis
      by (intro run_one) (auto simp: task_step_def send_step_def Let_def attempt_valid)
  next
    case (Inr sec)
    with assms(1) valid have "send_and_finish s env sec ev ep cb n (started_state ev d1 st) = (r, st')"
      by (simp add: attempt_valid)
    from send_alone [OF this valid(2) Inr _ _ _ assms(4)] gets assms(2,3) show ?thesis by simp
  qed
  ultimately show ?thesis by (rule task_run_step)
qed

lemma call_alone:
  assumes "deliver_to_endpoint s env eid epid 1 st = (r, st')"
  shows "\<exists>c. (\<forall>E. se_env E = env \<longrightarrow> task_step s E msg (Looping eid (epid # eps)) st = c) \<and>
    task_run s msg c (after_call eid eps r, st')"
  using assms
proof (cases rule: deliver_to_endpoint_cases)
  case missing
  then show ?thesis
    by (intro exI [of _ "(after_call eid eps r, st')"]) (auto simp: task_step_def load_step_def task_run_refl split: option.split)
next
  case (bad_state ev ep e)
  then show ?thesis
    by (intro exI [of _ "(after_call eid eps r, st')"]) (auto simp: task_step_def load_step_def task_run_refl)
next
  case (blocked ev ep cb0 cb)
  let ?a = "\<lparr>at_env = env, at_event = ev, at_endpoint = ep, at_breaker = cb, at_number = 1\<rparr>"
  have "task_step s E msg (Loaded ?a False eps) st = (after_call eid eps r, st')" for E
    using blocked(5) get_event_id [OF blocked(1)] get_endpoint_id [OF blocked(2)]
    by (auto simp: task_step_def record_step_def Let_def)
  from run_one [OF this] blocked(1-4) show ?thesis
    by (intro exI [of _ "(Loaded ?a False eps, st)"]) (simp add: task_step_def load_step_def)
next
  case (attempt ev ep cb0 cb)
  let ?a = "\<lparr>at_env = env, at_event = ev, at_endpoint = ep, at_breaker = cb, at_number = 1\<rparr>"
  from attempt_alone [OF attempt(5) _ _ refl, of msg eps] attempt(1,2)
  have "task_run s msg (Loaded ?a True eps, st) (after_call eid eps r, st')"
    using get_event_id [OF attempt(1)] get_endpoint_id [OF attempt(2)] by simp
  with attempt(1-4) show ?thesis
    by (intro exI [of _ "(Loaded ?a True eps, st)"]) (simp add: task_step_def load_step_def)
qed

text \<open>A task that stands at the head of the loop ends as the rest of the loop does.\<close>

definition ends :: "settings \<Rightarrow> stream_message \<Rightarrow> task_point \<times> engine_state \<Rightarrow> unit result \<Rightarrow> engine_state \<Rightarrow> bool" where
  "ends s msg c res st' \<longleftrightarrow> (\<exists>Es. task_steps s msg Es c = (Returned res, st'))"

lemma ends_returned [simp]: "ends s msg (Returned r, st) res st' \<longleftrightarrow> r = res \<and> st = st'"
  by (auto simp: ends_def)

lemma ends_step:
  assumes "\<And>r. pt \<noteq> Returned r"
  shows "ends s msg (pt, st) res st' \<longleftrightarrow> (\<exists>E. ends s msg (task_step s E msg pt st) res st')"
proof
  assume "ends s msg (pt, st) res st'"
  then obtain Es where "task_steps s msg Es (pt, st) = (Returned res, st')" unfolding ends_def by blast
  with assms show "\<exists>E. ends s msg (task_step s E msg pt st) res st'" by (cases Es) (auto simp: ends_def)
next
  assume "\<exists>E. ends s msg (task_step s E msg pt st) res st'"
  then obtain E Es where "task_steps s msg Es (task_step s E msg pt st) = (Returned res, st')" unfolding ends_def by blast
  then have "task_steps s msg (E # Es) (pt, st) = (Returned res, st')" by simp
  then show "ends s msg (pt, st) res st'" unfolding ends_def by blast
qed

lemma ends_run:
  assumes "task_run s msg c c'"
  shows "ends s msg c res st' \<longleftrightarrow> ends s msg c' res st'"
proof -
  from assms obtain n where n: "\<And>Es. length Es = n \<Longrightarrow> task_steps s msg Es c = c'" unfolding task_run_def by blast
  show ?thesis
  proof
    assume "ends s msg c res st'"
    then obtain Es where "task_steps s msg Es c = (Returned res, st')" unfolding ends_def by blast
    moreover define Fs where "Fs = Es @ replicate n undefined"
    ultimately have "task_steps s msg (take n Fs @ drop n Fs) c = (Returned res, st')"
      unfolding append_take_drop_id by (simp add: task_steps_append)
    with n [of "take n Fs"] have "task_steps s msg (drop n Fs) c' = (Returned res, st')"
      by (simp add: task_steps_append Fs_def)
    then show "ends s msg c' res st'" unfolding ends_def by blast
  next
    assume "ends s msg c' res st'"
    then obtain Es where "task_steps s msg Es c' = (Returned res, st')" unfolding ends_def by blast
    with n [of "replicate n undefined"] have "task_steps s msg (replicate n undefined @ Es) c = (Returned res, st')"
      by (simp add: task_steps_append)
    then show "ends s msg c res st'" unfolding ends_def by blast
  qed
qed

lemma ends_call:
  "ends s msg (Looping eid (ep # eps), st) res st' \<longleftrightarrow>
     (\<exists>env r st1. deliver_to_endpoint s env eid ep 1 st = (r, st1) \<and> ends s msg (after_call eid eps r, st1) res st')"
  (is "?L \<longleftrightarrow> ?R")
proof -
  have "ends s msg (task_step s E msg (Looping eid (ep # eps)) st) res st' \<longleftrightarrow>
      ends s msg (after_call eid eps r, st1) res st'"
    if "deliver_to_endpoint s (se_env E) eid ep 1 st = (r, st1)" for E r st1
    using call_alone [OF that, of msg eps] ends_run by auto
  moreover have "\<exists>r st1. deliver_to_endpoint s (se_env E) eid ep 1 st = (r, st1)" for E by fastforce
  moreover have "\<exists>E :: step_env. se_env E = env" for env
    by (rule exI [of _ "\<lparr>se_scan = undefined, se_now = undefined, se_env = env\<rparr>"]) simp
  ultimately show ?thesis unfolding ends_step [of "Looping eid (ep # eps)", simplified] by metis
qed

lemma deliver_all_cong:
  "(\<And>i. k \<le> i \<Longrightarrow> envs i = envs' i) \<Longrightarrow> deliver_all s envs k eid eps st = deliver_all s envs' k eid eps st"
proof (induction eps arbitrary: k st)
  case (Cons ep eps)
  then show ?case by (simp split: prod.split sum.split)
qed simp

lemma ends_loop:
  "ends s msg (Looping eid eps, st) res st' \<longleftrightarrow>
     (\<exists>envs r. deliver_all s envs k eid eps st = (r, st') \<and> map_sum (\<lambda>e. e) (\<lambda>_. ()) r = res)"
proof (induction eps arbitrary: k st)
  case Nil
  show ?case by (auto simp: ends_step task_step_def)
next
  case (Cons ep eps)
  have "(\<exists>env r st1. deliver_to_endpoint s env eid ep 1 st = (r, st1) \<and> ends s msg (after_call eid eps r, st1) res st') \<longleftrightarrow>
    (\<exists>envs r. deliver_all s envs k eid (ep # eps) st = (r, st') \<and> map_sum (\<lambda>e. e) (\<lambda>_. ()) r = res)" (is "?L \<longleftrightarrow> ?R")
  proof
    assume ?L
    then obtain env r st1 where d: "deliver_to_endpoint s env eid ep 1 st = (r, st1)" "ends s msg (after_call eid eps r, st1) res st'"
      by blast
    show ?R
    proof (cases r)
      case (Inl e)
      with d show ?thesis by (intro exI [of _ "\<lambda>_. env"]) auto
    next
      case (Inr x)
      with d(2) obtain envs r2 where rest: "deliver_all s envs (Suc k) eid eps st1 = (r2, st')" "map_sum (\<lambda>e. e) (\<lambda>_. ()) r2 = res"
        unfolding after_call_simps Cons.IH [of _ "Suc k"] by (auto simp: Cons.IH [of _ "Suc k"])
      have "deliver_all s (envs(k := env)) (Suc k) eid eps st1 = (r2, st')"
        using rest(1) deliver_all_cong [of "Suc k" "envs(k := env)" envs s eid eps st1] by simp
      with d(1) Inr rest(2) show ?thesis by (intro exI [of _ "envs(k := env)"]) (cases r2; auto)
    qed
  next
    assume ?R
    then obtain envs r where R: "deliver_all s envs k eid (ep # eps) st = (r, st')" "map_sum (\<lambda>e. e) (\<lambda>_. ()) r = res" by blast
    obtain r1 st1 where d: "deliver_to_endpoint s (envs k) eid ep 1 st = (r1, st1)" by fastforce
    with R have "ends s msg (after_call eid eps r1, st1) res st'"
    proof (cases r1)
      case (Inr x)
      obtain r2 st2 where "deliver_all s envs (Suc k) eid eps st1 = (r2, st2)" by fastforce
      with R d Inr show ?thesis
        unfolding Inr after_call_simps Cons.IH [of _ "Suc k"] by (intro exI [of _ envs] exI [of _ r2]) (cases r2; auto)
    qed auto
    with d show ?L by blast
  qed
  then show ?case unfolding ends_call .
qed

lemma process_message_parts:
  assumes "message_payload msg = Inr p" "parse_payload p = Inr (eid, tid, et, tgt)"
    "get_event_row eid (es_db st) = Some ev" "resolve_endpoints (me_scan M) tid et tgt (es_db st) = Inr eps" "eps \<noteq> []"
  shows "process_message s M msg st = (res, st') \<longleftrightarrow>
    (\<exists>r. deliver_all s (me_envs M) 0 eid eps (st\<lparr>es_db := set_processing (me_now M) ev (es_db st)\<rparr>) = (r, st') \<and>
      map_sum (\<lambda>e. e) (\<lambda>_. ()) r = res)"
  using assms by (auto simp: process_message_def process_outbox_payload_def split: sum.splits prod.splits)

lemma set_processing_resolved: "get_event_row eid d = Some ev \<Longrightarrow> commit_processing now ev d = Inr (set_processing now ev d)"
  using get_event_id by (fastforce simp: commit_processing_def)

lemma ends_resolved:
  assumes "get_event_row eid (es_db st) = Some ev"
  shows "ends s msg (Resolved ev eps, st) res st' \<longleftrightarrow>
    (\<exists>now. ends s msg (Looping eid eps, st\<lparr>es_db := set_processing now ev (es_db st)\<rparr>) res st')"
proof -
  have "task_step s E msg (Resolved ev eps) st = (Looping eid eps, st\<lparr>es_db := set_processing (se_now E) ev (es_db st)\<rparr>)" for E
    using set_processing_resolved [OF assms] get_event_id [OF assms] by (simp add: task_step_def)
  moreover have "\<exists>E :: step_env. se_now E = now" for now
    by (rule exI [of _ "\<lparr>se_scan = undefined, se_now = now, se_env = undefined\<rparr>"]) simp
  ultimately show ?thesis unfolding ends_step [of "Resolved ev eps", simplified] by metis
qed

lemma ends_resolve:
  "ends s msg (resolve_step E msg (es_db st), st) res st' \<longleftrightarrow>
     (\<exists>now envs. process_message s \<lparr>me_scan = se_scan E, me_now = now, me_envs = envs\<rparr> msg st = (res, st'))"
proof (cases "\<exists>r. resolve_step E msg (es_db st) = Returned r")
  case True
  then show ?thesis
    by (auto simp: process_message_def process_outbox_payload_def resolve_step_def rbind_def
        split: sum.splits prod.splits option.splits if_splits)
next
  case False
  then obtain p eid tid et tgt ev eps where parts: "message_payload msg = Inr p" "parse_payload p = Inr (eid, tid, et, tgt)"
    "get_event_row eid (es_db st) = Some ev" "resolve_endpoints (se_scan E) tid et tgt (es_db st) = Inr eps" "eps \<noteq> []"
    by (auto simp: resolve_step_def rbind_def split: sum.splits prod.splits option.splits if_splits)
  then have "resolve_step E msg (es_db st) = Resolved ev eps" by (simp add: resolve_step_def)
  then show ?thesis
    using parts by (simp add: ends_resolved [OF parts(3)] ends_loop [where k = 0] process_message_parts [OF parts(1-3)])
qed

text \<open>
  The handling of a message step by step, when no other step falls in between, and its handling as one function
  are the same: what one can return and leave behind, for some clocks, identifiers and answers of the network, the other
  can, on every branch. So every task that runs alone ends.
\<close>

lemma task_runs_as_function:
  "(\<exists>Es. task_steps s msg Es (Received, st) = (Returned res, st')) \<longleftrightarrow> (\<exists>M. process_message s M msg st = (res, st'))"
proof -
  have "(\<exists>Es. task_steps s msg Es (Received, st) = (Returned res, st')) \<longleftrightarrow>
      (\<exists>E. ends s msg (resolve_step E msg (es_db st), st) res st')"
    unfolding ends_def [symmetric] by (simp add: ends_step task_step_def)
  also have "\<dots> \<longleftrightarrow> (\<exists>M. process_message s M msg st = (res, st'))" (is "?L \<longleftrightarrow> ?R")
  proof
    assume ?R
    then obtain M where "process_message s M msg st = (res, st')" by blast
    then show ?L
      unfolding ends_resolve by (intro exI [of _ "\<lparr>se_scan = me_scan M, se_now = me_now M, se_env = undefined\<rparr>"]
          exI [of _ "me_now M"] exI [of _ "me_envs M"]) (cases M; simp)
  qed (auto simp: ends_resolve)
  finally show ?thesis .
qed

end
