(* ===== verification/Worker.thy ===== *)
theory Worker
  imports Tasks
begin

text \<open>
  The worker processes, \<open>apps/worker/eventmesh_worker/main.py\<close>, over one database and one stream, as a step
  relation: start-up of a worker, reading a batch, starting a task when the worker's semaphore admits it, one
  step of a task, its end with the acknowledgement, reclaiming stale messages, shutdown, a crash, and what
  other processes publish meanwhile. Tasks of one worker and of different workers interleave at every point at
  which a task gives up control.
\<close>

section \<open>The workers\<close>

record task =
  tk_consumer :: string
  tk_msg :: stream_message
  tk_point :: task_point

record 'r fleet =
  wk_engine :: engine_state
  wk_redis :: 'r
  wk_waiting :: "(string \<times> stream_message) list"
  wk_running :: "task list"
  wk_started :: "string set"
  wk_shutdown :: "string set"
  wk_done :: "stream_message list"

text \<open>
  A worker goes by its consumer name. \<open>wk_waiting\<close> are the tasks that wait for the semaphore, \<open>wk_running\<close> those inside
  it; \<open>wk_done\<close> only records which messages were processed without an exception.
\<close>

definition running_of :: "string \<Rightarrow> 'r fleet \<Rightarrow> task list" where
  "running_of c w = filter (\<lambda>t. tk_consumer t = c) (wk_running w)"

definition held_ids :: "task list \<Rightarrow> uuid list" where
  "held_ids ts = concat (map (\<lambda>t. case held (tk_point t) of None \<Rightarrow> [] | Some i \<Rightarrow> [i]) ts)"

text \<open>
  \<open>run\<close> creates the consumer group before anything else and raises if that fails; at its end, after the grace
  period for the tasks in flight, those that are left are dropped with their messages unacknowledged.
\<close>

definition start_worker :: "settings \<Rightarrow> 'r redis_client \<Rightarrow> string \<Rightarrow> 'r fleet \<Rightarrow> unit result \<times> 'r fleet" where
  "start_worker s R c w =
     (case ensure_group R (worker_stream_name s) (worker_consumer_group s) (wk_redis w) of
        (Inl e, r') \<Rightarrow> (Inl e, w\<lparr>wk_redis := r'\<rparr>)
      | (Inr _, r') \<Rightarrow> (Inr (), w\<lparr>wk_redis := r', wk_started := insert c (wk_started w)\<rparr>))"

definition stop_worker :: "string \<Rightarrow> 'r fleet \<Rightarrow> 'r fleet" where
  "stop_worker c w =
     w\<lparr>wk_waiting := filter (\<lambda>(c', _). c' \<noteq> c) (wk_waiting w),
       wk_running := filter (\<lambda>t. tk_consumer t \<noteq> c) (wk_running w),
       wk_started := wk_started w - {c}, wk_shutdown := wk_shutdown w - {c}\<rparr>"

definition fetch :: "settings \<Rightarrow> 'r redis_client \<Rightarrow> string \<Rightarrow> 'r fleet \<Rightarrow> 'r fleet" where
  "fetch s R c w =
     (case consume R (worker_stream_name s) (worker_consumer_group s) c
             (worker_batch_size s) (worker_block_ms s) (wk_redis w) of
        (Inl e, r') \<Rightarrow> w\<lparr>wk_redis := r', wk_shutdown := insert c (wk_shutdown w)\<rparr>
      | (Inr ms, r') \<Rightarrow> w\<lparr>wk_redis := r', wk_waiting := wk_waiting w @ map (Pair c) ms\<rparr>)"

definition recover :: "settings \<Rightarrow> 'r redis_client \<Rightarrow> string \<Rightarrow> 'r fleet \<Rightarrow> 'r fleet" where
  "recover s R c w =
     (case claim_stale R (worker_stream_name s) (worker_consumer_group s) c
             (worker_stale_claim_idle_ms s) 50 (wk_redis w) of
        (Inl e, r') \<Rightarrow> w\<lparr>wk_redis := r'\<rparr>
      | (Inr ms, r') \<Rightarrow> w\<lparr>wk_redis := r', wk_waiting := wk_waiting w @ map (Pair c) ms\<rparr>)"

text \<open>A task that has returned settles its message and leaves the set of tasks.\<close>

definition finish_task :: "settings \<Rightarrow> 'r redis_client \<Rightarrow> stream_message \<Rightarrow> unit result \<Rightarrow> task list \<Rightarrow> 'r fleet \<Rightarrow> 'r fleet" where
  "finish_task s R msg res others w =
     w\<lparr>wk_redis := snd (settle s R msg res (wk_redis w)), wk_running := others,
       wk_done := (case res of Inr _ \<Rightarrow> wk_done w @ [msg] | Inl _ \<Rightarrow> wk_done w)\<rparr>"

text \<open>
  The identifier of a new delivery row is drawn at random; the step of a task does not draw one that another task
  holds.
\<close>

inductive worker_step :: "settings \<Rightarrow> 'r redis_client \<Rightarrow> 'r fleet \<Rightarrow> 'r fleet \<Rightarrow> bool"
  for s R where
  step_start_up: "c \<notin> wk_started w \<Longrightarrow> start_worker s R c w = (sres, w') \<Longrightarrow> worker_step s R w w'"
| step_fetch: "c \<in> wk_started w \<Longrightarrow> c \<notin> wk_shutdown w \<Longrightarrow> worker_step s R w (fetch s R c w)"
| step_recover: "c \<in> wk_started w \<Longrightarrow> worker_step s R w (recover s R c w)"
| step_start: "(c, m) \<in> set (wk_waiting w) \<Longrightarrow> int (length (running_of c w)) < worker_concurrency s \<Longrightarrow>
    worker_step s R w
      (w\<lparr>wk_waiting := remove1 (c, m) (wk_waiting w),
         wk_running := wk_running w @ [\<lparr>tk_consumer = c, tk_msg = m, tk_point = Received\<rparr>]\<rparr>)"
| step_task: "wk_running w = ts @ t # us \<Longrightarrow> task_step s E (tk_msg t) (tk_point t) (wk_engine w) = (pt, st) \<Longrightarrow>
    set_option (held pt) \<inter> set (held_ids (ts @ us)) = {} \<Longrightarrow>
    worker_step s R w (w\<lparr>wk_engine := st, wk_running := ts @ t\<lparr>tk_point := pt\<rparr> # us\<rparr>)"
| step_finish: "wk_running w = ts @ t # us \<Longrightarrow> tk_point t = Returned res \<Longrightarrow>
    worker_step s R w (finish_task s R (tk_msg t) res (ts @ us) w)"
| step_publish: "publish R (worker_stream_name s) fs (wk_redis w) = (res, r') \<Longrightarrow>
    worker_step s R w (w\<lparr>wk_redis := r'\<rparr>)"
| step_shutdown: "c \<in> wk_started w \<Longrightarrow> worker_step s R w (w\<lparr>wk_shutdown := insert c (wk_shutdown w)\<rparr>)"
| step_stop: "c \<in> wk_started w \<Longrightarrow> c \<in> wk_shutdown w \<Longrightarrow> worker_step s R w (stop_worker c w)"
| step_crash: "worker_step s R w (stop_worker c w)"

inductive worker_reach :: "settings \<Rightarrow> 'r redis_client \<Rightarrow> 'r fleet \<Rightarrow> 'r fleet \<Rightarrow> bool"
  for s R w where
  reach_refl: "worker_reach s R w w"
| reach_step: "worker_reach s R w w' \<Longrightarrow> worker_step s R w' w'' \<Longrightarrow> worker_reach s R w w''"

inductive_cases worker_stepE: "worker_step s R w w'"

section \<open>Acknowledging\<close>

lemma settle_simps [simp]:
  "settle s R msg (Inl e) r = (Inr (), r)"
  "settle s R msg (Inr u) r = acknowledge R (worker_stream_name s) (worker_consumer_group s) (message_id msg) r"
  by (simp_all add: settle_def)

lemmas worker_process_defs = start_worker_def stop_worker_def fetch_def recover_def finish_task_def

lemma running_of_stop: "length (running_of c (stop_worker c' w)) \<le> length (running_of c w)"
  unfolding running_of_def stop_worker_def by (simp add: length_filter_filter del: filter_filter)

lemma wk_concurrency_step:
  assumes "worker_step s R w w'" "int (length (running_of c w)) \<le> worker_concurrency s"
  shows "int (length (running_of c w')) \<le> worker_concurrency s"
  using assms
proof (induction rule: worker_step.induct)
  case (step_stop c' w)
  then show ?case using running_of_stop [of c c' w] by simp
next
  case (step_crash w c')
  then show ?case using running_of_stop [of c c' w] by simp
qed (auto simp: running_of_def start_worker_def fetch_def recover_def finish_task_def
    split: prod.splits sum.splits if_splits)

section \<open>No message is lost\<close>

context redis_broker
begin

text \<open>
  What holds of every message the group once had: it is still the group's, or a message
  with its identifier was processed.
\<close>

lemma step_keeps_messages:
  assumes "worker_step s R w w'"
    "ready (worker_stream_name s) (worker_consumer_group s) (wk_redis w)"
  shows "ready (worker_stream_name s) (worker_consumer_group s) (wk_redis w') \<and>
    (set (wk_done w) \<subseteq> set (wk_done w')) \<and>
    (\<forall>m \<in> set (undelivered (worker_stream_name s) (worker_consumer_group s) (wk_redis w)) \<union>
           set (pending (worker_stream_name s) (worker_consumer_group s) (wk_redis w)).
       m \<in> set (undelivered (worker_stream_name s) (worker_consumer_group s) (wk_redis w')) \<union>
           set (pending (worker_stream_name s) (worker_consumer_group s) (wk_redis w')) \<or>
       message_id m \<in> message_id ` set (wk_done w'))"
  using assms
proof (induction rule: worker_step.induct)
  case (step_start_up c w sres w')
  obtain eres r' where e: "ensure_group R (worker_stream_name s) (worker_consumer_group s) (wk_redis w) = (eres, r')"
    by fastforce
  with step_start_up(2) have "wk_redis w' = r'" "wk_done w' = wk_done w"
    by (cases eres; force simp: start_worker_def)+
  with ens_law [OF e] step_start_up show ?case by auto
next
  case (step_fetch c w)
  obtain res r' where f: "consume R (worker_stream_name s) (worker_consumer_group s) c
      (worker_batch_size s) (worker_block_ms s) (wk_redis w) = (res, r')" by fastforce
  then have "wk_redis (fetch s R c w) = r'" "wk_done (fetch s R c w) = wk_done w"
    by (cases res; simp add: fetch_def)+
  with con_keeps [OF f] con_law [OF f] step_fetch show ?case by auto
next
  case (step_recover c w)
  obtain res r' where f: "claim_stale R (worker_stream_name s) (worker_consumer_group s) c
      (worker_stale_claim_idle_ms s) 50 (wk_redis w) = (res, r')" by fastforce
  then have "wk_redis (recover s R c w) = r'" "wk_done (recover s R c w) = wk_done w"
    by (cases res; simp add: recover_def)+
  with claim_law [OF f] step_recover show ?case by auto
next
  case (step_finish w ts t us res)
  show ?case
  proof (cases res)
    case (Inl e)
    with step_finish show ?thesis by (simp add: finish_task_def)
  next
    case (Inr u)
    obtain ares r' where a: "acknowledge R (worker_stream_name s) (worker_consumer_group s)
        (message_id (tk_msg t)) (wk_redis w) = (ares, r')" by fastforce
    with ack_keeps [OF a step_finish(3)] ack_law [OF a step_finish(3)] Inr show ?thesis
      by (auto simp: finish_task_def)
  qed
next
  case (step_publish fs w res r')
  with pub_keeps [OF step_publish(1)] pub_law [OF step_publish(1)] show ?case by auto
qed (auto simp: stop_worker_def)

lemma reach_keeps_messages:
  assumes "worker_reach s R w w'"
    "ready (worker_stream_name s) (worker_consumer_group s) (wk_redis w)"
  shows "ready (worker_stream_name s) (worker_consumer_group s) (wk_redis w') \<and>
    (\<forall>m \<in> set (undelivered (worker_stream_name s) (worker_consumer_group s) (wk_redis w)) \<union>
           set (pending (worker_stream_name s) (worker_consumer_group s) (wk_redis w)).
       m \<in> set (undelivered (worker_stream_name s) (worker_consumer_group s) (wk_redis w')) \<union>
           set (pending (worker_stream_name s) (worker_consumer_group s) (wk_redis w')) \<or>
       message_id m \<in> message_id ` set (wk_done w'))"
  using assms
proof (induction rule: worker_reach.induct)
  case (reach_step w' w'')
  note IH = reach_step.IH [OF reach_step.prems]
  note step = step_keeps_messages [OF reach_step.hyps(2) IH [THEN conjunct1]]
  show ?case using IH step by (auto dest!: bspec)
qed simp

end

text \<open>Every message a worker holds or has processed is an entry of the stream; so an identifier names one message.\<close>

definition fleet_messages :: "'r fleet \<Rightarrow> stream_message set" where
  "fleet_messages w = snd ` set (wk_waiting w) \<union> tk_msg ` set (wk_running w) \<union> set (wk_done w)"

lemma fleet_messages_stop: "fleet_messages (stop_worker c w) \<subseteq> fleet_messages w"
  unfolding fleet_messages_def stop_worker_def by auto

context redis_log
begin

lemma step_log_grows:
  assumes "worker_step s R w w'"
  shows "set (entries (worker_stream_name s) (wk_redis w)) \<subseteq> set (entries (worker_stream_name s) (wk_redis w'))"
  using assms
proof (cases rule: worker_step.cases)
  case (step_start_up c sres)
  obtain eres r' where e: "ensure_group R (worker_stream_name s) (worker_consumer_group s) (wk_redis w) = (eres, r')"
    by fastforce
  with step_start_up(2) have "wk_redis w' = r'" by (cases eres; force simp: start_worker_def)
  with ens_log [OF e] show ?thesis by simp
next
  case (step_fetch c)
  then show ?thesis
    using con_log [where s = "worker_stream_name s" and r = "wk_redis w"]
    by (auto simp: fetch_def split: prod.splits sum.splits)
next
  case (step_recover c)
  then show ?thesis
    using claim_log [where s = "worker_stream_name s" and r = "wk_redis w"]
    by (auto simp: recover_def split: prod.splits sum.splits)
next
  case (step_finish ts t us res)
  then show ?thesis
    using ack_log [where s = "worker_stream_name s" and r = "wk_redis w"]
    by (cases res; cases "acknowledge R (worker_stream_name s) (worker_consumer_group s) (message_id (tk_msg t)) (wk_redis w)")
      (auto simp: finish_task_def)
next
  case (step_publish fs res r')
  then show ?thesis using pub_log by simp
qed (auto simp: stop_worker_def)

lemma step_keeps_log:
  assumes "worker_step s R w w'" "ready (worker_stream_name s) (worker_consumer_group s) (wk_redis w)"
    "fleet_messages w \<subseteq> set (entries (worker_stream_name s) (wk_redis w))"
  shows "fleet_messages w' \<subseteq> set (entries (worker_stream_name s) (wk_redis w'))"
proof -
  have "fleet_messages w' \<subseteq> fleet_messages w \<union> set (entries (worker_stream_name s) (wk_redis w'))"
    using assms(1)
  proof (cases rule: worker_step.cases)
    case (step_start_up c sres)
    then have "fleet_messages w' = fleet_messages w"
      by (auto simp: start_worker_def fleet_messages_def split: prod.splits sum.splits)
    then show ?thesis by simp
  next
    case (step_fetch c)
    obtain res r' where f: "consume R (worker_stream_name s) (worker_consumer_group s) c
        (worker_batch_size s) (worker_block_ms s) (wk_redis w) = (res, r')" by fastforce
    with step_fetch(1) consumed_in_log [OF _ assms(2)] show ?thesis
      by (cases res) (force simp: fetch_def fleet_messages_def)+
  next
    case (step_recover c)
    obtain res r' where f: "claim_stale R (worker_stream_name s) (worker_consumer_group s) c
        (worker_stale_claim_idle_ms s) 50 (wk_redis w) = (res, r')" by fastforce
    with step_recover(1) claimed_in_log [OF _ assms(2)] show ?thesis
      by (cases res) (force simp: recover_def fleet_messages_def)+
  next
    case (step_start c m)
    from step_start(2) have "m \<in> snd ` set (wk_waiting w)" by force
    with step_start(1) show ?thesis
      using set_remove1_subset [of "(c, m)" "wk_waiting w"] by (auto simp: fleet_messages_def)
  next
    case (step_finish ts t us res)
    then show ?thesis by (auto simp: finish_task_def fleet_messages_def split: sum.splits)
  next
    case (step_stop c)
    with fleet_messages_stop [of c w] show ?thesis by blast
  next
    case (step_crash c)
    with fleet_messages_stop [of c w] show ?thesis by blast
  qed (auto simp: fleet_messages_def)
  with step_log_grows [OF assms(1)] assms(3) show ?thesis by blast
qed

text \<open>A message of the group stays in its hands until it, and no other, was processed.\<close>

lemma step_keeps_own_message:
  assumes "worker_step s R w w'" "ready (worker_stream_name s) (worker_consumer_group s) (wk_redis w)"
    "fleet_messages w \<subseteq> set (entries (worker_stream_name s) (wk_redis w))"
    "m \<in> set (undelivered (worker_stream_name s) (worker_consumer_group s) (wk_redis w)) \<union>
         set (pending (worker_stream_name s) (worker_consumer_group s) (wk_redis w)) \<union> set (wk_done w)"
    "m \<in> set (entries (worker_stream_name s) (wk_redis w'))"
  shows "m \<in> set (undelivered (worker_stream_name s) (worker_consumer_group s) (wk_redis w')) \<union>
         set (pending (worker_stream_name s) (worker_consumer_group s) (wk_redis w')) \<union> set (wk_done w')"
proof -
  note step = step_keeps_messages [OF assms(1,2)]
  have same: "m \<in> set (wk_done w')" if "message_id m \<in> message_id ` set (wk_done w')"
  proof -
    from that obtain m' where m': "m' \<in> set (wk_done w')" "message_id m = message_id m'" by auto
    with step_keeps_log [OF assms(1-3)] have "m' \<in> set (entries (worker_stream_name s) (wk_redis w'))"
      by (auto simp: fleet_messages_def)
    from log_id_unique [OF step [THEN conjunct1] assms(5) this m'(2)] m'(1) show ?thesis by simp
  qed
  from assms(4) step same show ?thesis by blast
qed

end

lemma worker_step_db_ok:
  "worker_step s R w w' \<Longrightarrow> db_ok (es_db (wk_engine w)) \<Longrightarrow> db_ok (es_db (wk_engine w'))"
proof (induction rule: worker_step.induct)
  case (step_task w ts t us E pt st)
  from db_ok_task_step [OF step_task(2,4)] show ?case by simp
qed (auto simp: worker_process_defs split: prod.splits sum.splits)

section \<open>Properties\<close>

text \<open>
  C2. At-least-once delivery: over any broker that keeps its contract, and however the
  steps of the workers and of their tasks interleave, crashes at any point included, a message that the consumer group has not yet been given or has
  not acknowledged is, at every later time, still there, or a message with its
  identifier was processed without an exception.
\<close>

theorem at_least_once:
  assumes "redis_broker R undelivered pending ready" "worker_reach s R w w'"
    "ready (worker_stream_name s) (worker_consumer_group s) (wk_redis w)"
    "m \<in> set (undelivered (worker_stream_name s) (worker_consumer_group s) (wk_redis w)) \<union>
         set (pending (worker_stream_name s) (worker_consumer_group s) (wk_redis w))"
  shows "m \<in> set (undelivered (worker_stream_name s) (worker_consumer_group s) (wk_redis w')) \<union>
         set (pending (worker_stream_name s) (worker_consumer_group s) (wk_redis w')) \<or>
    message_id m \<in> message_id ` set (wk_done w')"
  using redis_broker.reach_keeps_messages [OF assms(1-3)] assms(4) by blast

definition sample_redis :: redis where
  "sample_redis = \<lparr>rd_streams = (\<lambda>_. [(entry_id 0, [])]),
     rd_groups = (\<lambda>_. Some \<lparr>cg_delivered = 0, cg_pel = []\<rparr>), rd_now = 0, rd_up = True\<rparr>"

definition sample_worker :: "redis fleet" where
  "sample_worker = \<lparr>wk_engine = sample_state,
     wk_redis = sample_redis, wk_waiting = [], wk_running = [], wk_started = {''c''}, wk_shutdown = {}, wk_done = []\<rparr>"

theorem at_least_once_witness:
  "\<lparr>message_id = entry_id 0, msg_fields = []\<rparr> \<in>
     set (rs_pending ''eventmesh:deliveries'' ''eventmesh-delivery-group''
       (wk_redis (fetch default_settings reference_redis ''c'' sample_worker)))"
proof -
  let ?w = "fetch default_settings reference_redis ''c'' sample_worker"
  have reach: "worker_reach default_settings reference_redis sample_worker ?w"
    by (rule reach_step [OF reach_refl step_fetch]) (simp_all add: sample_worker_def)
  have run: "wk_done ?w = []" "rs_undelivered ''eventmesh:deliveries'' ''eventmesh-delivery-group'' (wk_redis ?w) = []"
    by (simp_all add: fetch_def consume_def reference_redis_def rs_xreadgroup_def sample_worker_def
        sample_redis_def default_settings_def rs_undelivered_def Let_def)
  have "rs_ready ''eventmesh:deliveries'' ''eventmesh-delivery-group'' sample_redis"
    by (simp add: rs_ready_def sample_redis_def)
  moreover have "\<lparr>message_id = entry_id 0, msg_fields = []\<rparr> \<in>
      set (rs_undelivered ''eventmesh:deliveries'' ''eventmesh-delivery-group'' sample_redis)"
    by (simp add: rs_undelivered_def sample_redis_def stream_message_of_def)
  ultimately show ?thesis
    using at_least_once [OF reference.redis_broker_axioms reach, of "\<lparr>message_id = entry_id 0, msg_fields = []\<rparr>"] run
    by (simp add: default_settings_def sample_worker_def)
qed

text \<open>
  A message leaves the pending list only after its processing returned: if processing
  raises, the broker's state does not change and the message stays pending; if it returns and the
  acknowledgement succeeds, exactly that message is taken off the list. In both cases the
  database is the one processing left.
\<close>

lemma acknowledge_after_success:
  assumes "redis_broker R undelivered pending ready"
    "ready (worker_stream_name s) (worker_consumer_group s) r"
    "handle_message s M R msg (st, r) = (res, (st', r'))"
    "process_message s M msg st = (pres, st1)"
  shows "st' = st1 \<and>
    (case pres of
       Inl _ \<Rightarrow> r' = r
     | Inr _ \<Rightarrow> res = Inr () \<longrightarrow>
         pending (worker_stream_name s) (worker_consumer_group s) r' =
           filter (\<lambda>m. message_id m \<noteq> message_id msg)
             (pending (worker_stream_name s) (worker_consumer_group s) r))"
proof (cases pres)
  case (Inl e)
  with assms(3,4) show ?thesis by (simp add: handle_message_def)
next
  case (Inr u)
  with assms(3,4) have ack: "acknowledge R (worker_stream_name s) (worker_consumer_group s)
      (message_id msg) r = (res, r')" and st: "st' = st1"
    by (simp_all add: handle_message_def split: prod.splits)
  show ?thesis
    using message_broker.ack_law [OF redis_broker.axioms [OF assms(1)] ack assms(2)] Inr st by auto
qed

definition sample_message_env :: message_env where
  "sample_message_env = \<lparr>me_scan = (\<lambda>xs. xs), me_now = 0, me_envs = (\<lambda>_. sample_env)\<rparr>"

text \<open>
  In every reachable state of workers that start with no task, each worker handles at most
  \<open>worker_concurrency\<close> messages at a time, and the database satisfies its constraints if it did at the start.
\<close>

lemma worker_bounded_and_consistent:
  assumes "worker_reach s R w w'" "wk_running w = []" "0 \<le> worker_concurrency s" "db_ok (es_db (wk_engine w))"
  shows "int (length (running_of c w')) \<le> worker_concurrency s \<and> db_ok (es_db (wk_engine w'))"
  using assms
proof (induction rule: worker_reach.induct)
  case reach_refl
  then show ?case by (simp add: running_of_def)
next
  case (reach_step w' w'')
  then show ?case using wk_concurrency_step worker_step_db_ok by blast
qed

end
