(* ===== verification/Scheduler.thy ===== *)
theory Scheduler
  imports Engine_Properties Broker
begin

text \<open>
  The scheduler process, \<open>apps/scheduler/eventmesh_scheduler/main.py\<close>: one pass of the retry
  requeue loop and one pass of the retention cleanup loop. Each loop catches every exception of a
  pass and sleeps; a pass that raises leaves the database as it was, but what it published stays
  published. \<open>isoformat\<close> (the text of a datetime), the rows locked by another session and the
  order of an unordered query are arguments.
\<close>

section \<open>Requeueing due retries\<close>

definition due_deliveries :: "datetime \<Rightarrow> db \<Rightarrow> delivery list" where
  "due_deliveries now d =
     filter (\<lambda>r. dl_status r = delivery_status_value DL_RETRYING \<and>
                 (case dl_next_retry_at r of None \<Rightarrow> False | Some t \<Rightarrow> t \<le> now)) (deliveries d)"

definition select_due :: "(delivery list \<Rightarrow> delivery list) \<Rightarrow> (uuid \<Rightarrow> bool) \<Rightarrow> datetime \<Rightarrow> db \<Rightarrow> delivery list" where
  "select_due scan locked now d = take 100 (filter (\<lambda>r. \<not> locked (dl_id r)) (scan (due_deliveries now d)))"

definition retry_payload :: "(datetime \<Rightarrow> string) \<Rightarrow> event \<Rightarrow> delivery \<Rightarrow> (string \<times> json) list" where
  "retry_payload isoformat ev dl =
     [(''event_id'', JStr (str_uuid (ev_id ev))),
      (''tenant_id'', JStr (str_uuid (ev_tenant_id ev))),
      (''type'', JStr (ev_event_type ev)),
      (''entity_id'', opt_str (ev_entity_id ev)),
      (''sequence'', opt_int (ev_sequence_number ev)),
      (''data'', ev_payload ev),
      (''created_at'', JStr (isoformat (ev_created_at ev))),
      (''target_endpoint_id'', JStr (str_uuid (dl_endpoint_id dl))),
      (''_retry_attempt_number'', JInt (dl_attempt_number dl + 1))]"

definition retry_fields :: "(datetime \<Rightarrow> string) \<Rightarrow> event \<Rightarrow> delivery \<Rightarrow> fields" where
  "retry_fields isoformat ev dl =
     [(''outbox_id'', ''retry-'' @ str_uuid (dl_id dl)),
      (''payload'', json_dumps (JObj (retry_payload isoformat ev dl)))]"

definition requeued :: "delivery \<Rightarrow> delivery" where
  "requeued r = r\<lparr>dl_status := delivery_status_value DL_QUEUED\<rparr>"

text \<open>The loop over the due rows; the first argument pair is the session's view and the server.\<close>

fun requeue_rows :: "'r redis_client \<Rightarrow> string \<Rightarrow> (datetime \<Rightarrow> string) \<Rightarrow> delivery list \<Rightarrow> db \<Rightarrow> 'r \<Rightarrow> db result \<times> 'r" where
  "requeue_rows R stream isof [] d r = (Inr d, r)"
| "requeue_rows R stream isof (dl # dls) d r =
     (case get_event_row (dl_event_id dl) d of
        None \<Rightarrow> requeue_rows R stream isof dls d r
      | Some ev \<Rightarrow>
          (case publish R stream (retry_fields isof ev dl) r of
             (Inl e, r') \<Rightarrow> (Inl e, r')
           | (Inr _, r') \<Rightarrow> requeue_rows R stream isof dls (modify_delivery (dl_id dl) requeued d) r'))"

definition retry_requeue_pass :: "settings \<Rightarrow> 'r redis_client \<Rightarrow> (datetime \<Rightarrow> string) \<Rightarrow>
    (delivery list \<Rightarrow> delivery list) \<Rightarrow> (uuid \<Rightarrow> bool) \<Rightarrow> datetime \<Rightarrow> db \<times> 'r \<Rightarrow> db \<times> 'r" where
  "retry_requeue_pass s R isof scan locked now = (\<lambda>(d, r).
     (case requeue_rows R (worker_stream_name s) isof (select_due scan locked now d) d r of
        (Inl e, r') \<Rightarrow> (d, r')
      | (Inr d', r') \<Rightarrow> (d', r')))"

section \<open>Retention cleanup\<close>

definition expired_key :: "datetime \<Rightarrow> idempotency_key \<Rightarrow> bool" where
  "expired_key now k \<longleftrightarrow> ik_expires_at k < now"

definition expired_delivery :: "settings \<Rightarrow> datetime \<Rightarrow> delivery \<Rightarrow> bool" where
  "expired_delivery s now r \<longleftrightarrow>
     dl_status r \<noteq> delivery_status_value DL_DLQ \<and> dl_created_at r < now - days_us (retention_deliveries_days s)"

definition expired_dlq :: "settings \<Rightarrow> datetime \<Rightarrow> delivery \<Rightarrow> bool" where
  "expired_dlq s now r \<longleftrightarrow>
     dl_status r = delivery_status_value DL_DLQ \<and> dl_created_at r < now - days_us (retention_dlq_days s)"

definition expired_outbox :: "settings \<Rightarrow> datetime \<Rightarrow> outbox_event \<Rightarrow> bool" where
  "expired_outbox s now r \<longleftrightarrow>
     ob_status r = outbox_status_value OB_PUBLISHED \<and> ob_created_at r < now - days_us (retention_events_days s)"

definition expired_event :: "settings \<Rightarrow> datetime \<Rightarrow> event \<Rightarrow> bool" where
  "expired_event s now e \<longleftrightarrow> ev_created_at e < now - days_us (retention_events_days s)"

text \<open>The deletes before the last one, in the code's order.\<close>

definition cleanup_children :: "settings \<Rightarrow> datetime \<Rightarrow> db \<Rightarrow> db" where
  "cleanup_children s now d =
     (let d1 = delete_idempotency_keys (expired_key now) d;
          d2 = delete_deliveries (expired_delivery s now) d1;
          d3 = delete_deliveries (expired_dlq s now) d2
      in delete_outbox (expired_outbox s now) d3)"

definition cleanup_session :: "settings \<Rightarrow> datetime \<Rightarrow> db \<Rightarrow> db result" where
  "cleanup_session s now d = delete_events (expired_event s now) (cleanup_children s now d)"

definition cleanup_pass :: "settings \<Rightarrow> datetime \<Rightarrow> db \<Rightarrow> db" where
  "cleanup_pass s now d = (case cleanup_session s now d of Inl e \<Rightarrow> d | Inr d' \<Rightarrow> d')"

section \<open>Requeueing: lemmas\<close>

lemma requeued_sel [simp]:
  "dl_id (requeued r) = dl_id r" "dl_event_id (requeued r) = dl_event_id r"
  "dl_endpoint_id (requeued r) = dl_endpoint_id r" "dl_status (requeued r) = delivery_status_value DL_QUEUED"
  by (simp_all add: requeued_def)

lemma db_ok_requeue_rows:
  "requeue_rows R stream isof dls d r = (Inr d', r') \<Longrightarrow> db_ok d \<Longrightarrow> db_ok d'"
proof (induction dls arbitrary: d r)
  case (Cons x dls)
  have "db_ok (modify_delivery (dl_id x) requeued d)"
    using Cons.prems(2) by (intro db_ok_modify_delivery) simp_all
  with Cons show ?case by (auto split: option.splits prod.splits sum.splits)
qed simp

lemma db_ok_cleanup_children: "db_ok d \<Longrightarrow> db_ok (cleanup_children s now d)"
  by (simp add: cleanup_children_def Let_def db_ok_intros)

lemma db_ok_cleanup_pass: "db_ok d \<Longrightarrow> db_ok (cleanup_pass s now d)"
  unfolding cleanup_pass_def cleanup_session_def
  by (auto split: sum.split intro: db_ok_delete_events db_ok_cleanup_children)

lemma get_delivery_modify:
  "(\<And>r. dl_id (f r) = dl_id r) \<Longrightarrow>
   get_delivery_row j (modify_delivery i f d) =
     (if j = i then map_option f (get_delivery_row i d) else get_delivery_row j d)"
  by (simp add: get_delivery_row_def delivery_table.get_modified)

lemma get_event_modify_delivery [simp]: "get_event_row i (modify_delivery j f d) = get_event_row i d"
  by (simp add: get_event_row_def modify_delivery_def)

lemma requeue_rows_other:
  "requeue_rows R stream isof dls d r = (Inr d', r') \<Longrightarrow> i \<notin> dl_id ` set dls \<Longrightarrow>
     get_delivery_row i d' = get_delivery_row i d"
  by (induction R stream isof dls d r rule: requeue_rows.induct)
    (auto split: option.splits prod.splits sum.splits simp: get_delivery_modify)

lemma requeue_rows_done:
  assumes "requeue_rows R stream isof dls d r = (Inr d', r')" "distinct (map dl_id dls)" "dl \<in> set dls"
    "get_delivery_row (dl_id dl) d = Some dl" "get_event_row (dl_event_id dl) d = Some ev"
  shows "get_delivery_row (dl_id dl) d' = Some (requeued dl)"
  using assms
proof (induction R stream isof dls d r rule: requeue_rows.induct)
  case (2 R stream isof x dls d r)
  show ?case
  proof (cases "get_event_row (dl_event_id x) d")
    case None
    with 2 show ?thesis by auto
  next
    case (Some xev)
    obtain res r1 where p: "publish R stream (retry_fields isof xev x) r = (res, r1)"
      by (cases "publish R stream (retry_fields isof xev x) r")
    with 2(3) Some obtain i where i: "res = Inr i" by (cases res) auto
    let ?d1 = "modify_delivery (dl_id x) requeued d"
    have run: "requeue_rows R stream isof dls ?d1 r1 = (Inr d', r')" using 2(3) Some p i by simp
    show ?thesis
    proof (cases "dl = x")
      case True
      with 2(4) have "dl_id dl \<notin> dl_id ` set dls" by auto
      from requeue_rows_other [OF run this] True 2(6) show ?thesis by (simp add: get_delivery_modify)
    next
      case False
      with 2(4,5) have mem: "dl \<in> set dls" "dl_id dl \<noteq> dl_id x" by (auto simp: image_iff)
      with 2(4,6,7) 2(2) [OF Some p [symmetric] i run] show ?thesis by (simp add: get_delivery_modify)
    qed
  qed
qed simp

context redis_broker
begin

lemma requeue_rows_log:
  assumes "requeue_rows R stream isof dls d r = (res, r')" "ready stream g r"
  shows "ready stream g r' \<and> pending stream g r' = pending stream g r \<and>
    (\<exists>ms. undelivered stream g r' = undelivered stream g r @ ms \<and>
       (\<forall>d' dl ev. res = Inr d' \<longrightarrow> dl \<in> set dls \<longrightarrow> get_event_row (dl_event_id dl) d = Some ev \<longrightarrow>
          retry_fields isof ev dl \<in> msg_fields ` set ms))"
  using assms
proof (induction dls arbitrary: d r)
  case (Cons x dls)
  show ?case
  proof (cases "get_event_row (dl_event_id x) d")
    case None
    with Cons.prems have "requeue_rows R stream isof dls d r = (res, r')" by simp
    from Cons.IH [OF this Cons.prems(2)] None show ?thesis by fastforce
  next
    case (Some xev)
    obtain pr r1 where p: "publish R stream (retry_fields isof xev x) r = (pr, r1)"
      by (cases "publish R stream (retry_fields isof xev x) r")
    from pub_law [OF p Cons.prems(2)] obtain m0 where m0: "ready stream g r1"
      "pending stream g r1 = pending stream g r" "undelivered stream g r1 = undelivered stream g r @ m0"
      "\<forall>i. pr = Inr i \<longrightarrow> m0 = [\<lparr>message_id = i, msg_fields = retry_fields isof xev x\<rparr>]" by blast
    show ?thesis
    proof (cases pr)
      case (Inl e)
      with Cons.prems Some p have "res = Inl e" "r' = r1" by auto
      with m0 show ?thesis by auto
    next
      case (Inr i)
      let ?d1 = "modify_delivery (dl_id x) requeued d"
      have run: "requeue_rows R stream isof dls ?d1 r1 = (res, r')" using Cons.prems(1) Some p Inr by simp
      from Cons.IH [OF run m0(1)] obtain ms where ms: "ready stream g r'"
        "pending stream g r' = pending stream g r1" "undelivered stream g r' = undelivered stream g r1 @ ms"
        "\<forall>d' dl ev. res = Inr d' \<longrightarrow> dl \<in> set dls \<longrightarrow> get_event_row (dl_event_id dl) d = Some ev \<longrightarrow>
          retry_fields isof ev dl \<in> msg_fields ` set ms" by auto
      have und: "undelivered stream g r' = undelivered stream g r @ (m0 @ ms)" using m0 ms by simp
      have cov: "retry_fields isof ev dl \<in> msg_fields ` set (m0 @ ms)"
        if "res = Inr d'" "dl \<in> set (x # dls)" "get_event_row (dl_event_id dl) d = Some ev" for d' dl ev
        using that m0(4) Inr Some ms(4) by (cases "dl = x") auto
      show ?thesis
        using ms(1,2) m0(2) und cov by (intro conjI exI [of _ "m0 @ ms"] allI impI) simp_all
    qed
  qed
qed simp

end

lemma select_due_mem: "is_scan scan \<Longrightarrow> dl \<in> set (select_due scan locked now d) \<Longrightarrow> dl \<in> set (deliveries d)"
  by (auto simp: select_due_def due_deliveries_def is_scan_set dest!: in_set_takeD)

lemma select_due_distinct:
  assumes "is_scan scan" "db_ok d"
  shows "distinct (map dl_id (select_due scan locked now d))"
proof -
  from assms(2) have "distinct (map dl_id (deliveries d))" by (simp add: db_ok_def keys_ok_def)
  then show ?thesis
    unfolding select_due_def due_deliveries_def
    by (intro distinct_map_take distinct_map_filter) (simp add: distinct_map_scan [OF assms(1)] distinct_map_filter)
qed

lemma retry_requeue_pass_cases:
  assumes "retry_requeue_pass s R isof scan locked now (d, r) = (d', r')"
  obtains (failed) e where "requeue_rows R (worker_stream_name s) isof (select_due scan locked now d) d r = (Inl e, r')" "d' = d"
  | (finished) "requeue_rows R (worker_stream_name s) isof (select_due scan locked now d) d r = (Inr d', r')"
  using assms by (auto simp: retry_requeue_pass_def split: prod.splits sum.splits)

section \<open>Cleanup: lemmas\<close>

lemma events_cleanup_children [simp]: "events (cleanup_children s now d) = events d"
  by (simp add: cleanup_children_def delete_idempotency_keys_def delete_deliveries_def delete_outbox_def Let_def)

lemma deliveries_cleanup_children:
  "deliveries (cleanup_children s now d) =
     filter (\<lambda>r. \<not> expired_delivery s now r \<and> \<not> expired_dlq s now r) (deliveries d)"
  by (simp add: cleanup_children_def delete_idempotency_keys_def delete_deliveries_def delete_outbox_def
      Let_def conj_commute)

lemma cleanup_session_Inl_iff:
  "(\<exists>e. cleanup_session s now d = Inl e) \<longleftrightarrow>
     (\<exists>ev \<in> set (events d). expired_event s now ev \<and> event_referenced (ev_id ev) (cleanup_children s now d))"
  by (auto simp: cleanup_session_def delete_events_def guard_def list_all_iff)

lemma cleanup_pass_cases:
  "cleanup_pass s now d =
     (if \<exists>ev \<in> set (events d). expired_event s now ev \<and> event_referenced (ev_id ev) (cleanup_children s now d)
      then d
      else (cleanup_children s now d)\<lparr>events := filter (\<lambda>e. \<not> expired_event s now e) (events d)\<rparr>)"
proof (cases "cleanup_session s now d")
  case (Inl e)
  then have "\<exists>ev \<in> set (events d). expired_event s now ev \<and> event_referenced (ev_id ev) (cleanup_children s now d)"
    using cleanup_session_Inl_iff by blast
  with Inl show ?thesis by (simp add: cleanup_pass_def)
next
  case (Inr d')
  then have "\<not> (\<exists>ev \<in> set (events d). expired_event s now ev \<and> event_referenced (ev_id ev) (cleanup_children s now d))"
    using cleanup_session_Inl_iff by force
  moreover have "d' = (cleanup_children s now d)\<lparr>events := filter (\<lambda>e. \<not> expired_event s now e) (events d)\<rparr>"
    using Inr by (simp add: cleanup_session_def delete_events_def)
  ultimately show ?thesis using Inr by (auto simp: cleanup_pass_def)
qed

section \<open>Properties\<close>

lemma select_due_length:
  assumes "is_scan scan"
  shows "length (select_due scan locked now d) =
    min 100 (length (filter (\<lambda>r. \<not> locked (dl_id r)) (due_deliveries now d)))"
proof -
  have "mset (filter (\<lambda>r. \<not> locked (dl_id r)) (scan (due_deliveries now d))) =
      mset (filter (\<lambda>r. \<not> locked (dl_id r)) (due_deliveries now d))"
    using assms by (simp add: is_scan_def)
  then have "length (filter (\<lambda>r. \<not> locked (dl_id r)) (scan (due_deliveries now d))) =
      length (filter (\<lambda>r. \<not> locked (dl_id r)) (due_deliveries now d))" by (rule mset_eq_length)
  then show ?thesis by (simp add: select_due_def min.commute)
qed

text \<open>
  One pass of the retry loop, over any broker that keeps its contract: either the database
  is left as it was, because publishing failed, or every due row of the batch, and no other row, is
  marked QUEUED and a message for it, addressed to its endpoint, is in the stream for the
  consumer group. No message that was there before is lost and the schema's constraints hold.
\<close>

lemma requeue_pass_cases:
  assumes "redis_broker R undelivered pending ready" "db_ok d" "is_scan scan"
    "ready (worker_stream_name s) g r"
    "retry_requeue_pass s R isof scan locked now (d, r) = (d', r')" "batch = select_due scan locked now d"
  shows "db_ok d' \<and> (\<exists>ms. undelivered (worker_stream_name s) g r' = undelivered (worker_stream_name s) g r @ ms) \<and>
    (d' = d \<and> (\<exists>e. requeue_rows R (worker_stream_name s) isof batch d r = (Inl e, r')) \<or>
     (\<forall>dl \<in> set batch. get_delivery_row (dl_id dl) d' = Some (requeued dl) \<and>
        (\<exists>ev. get_event_row (dl_event_id dl) d = Some ev \<and>
           (\<exists>m \<in> set (undelivered (worker_stream_name s) g r'). msg_fields m = retry_fields isof ev dl))) \<and>
     (\<forall>i. i \<notin> dl_id ` set batch \<longrightarrow> get_delivery_row i d' = get_delivery_row i d))"
  using assms(5)
proof (cases rule: retry_requeue_pass_cases)
  case (failed e)
  with redis_broker.requeue_rows_log [OF assms(1) failed(1) assms(4)] assms(2,6) show ?thesis by blast
next
  case finished
  note run = finished [folded assms(6)]
  from redis_broker.requeue_rows_log [OF assms(1) run assms(4)] obtain ms where ms:
    "undelivered (worker_stream_name s) g r' = undelivered (worker_stream_name s) g r @ ms"
    "\<forall>dl ev. dl \<in> set batch \<longrightarrow> get_event_row (dl_event_id dl) d = Some ev \<longrightarrow>
       retry_fields isof ev dl \<in> msg_fields ` set ms" by blast
  have row: "get_delivery_row (dl_id dl) d' = Some (requeued dl) \<and>
      (\<exists>ev. get_event_row (dl_event_id dl) d = Some ev \<and>
         (\<exists>m \<in> set (undelivered (worker_stream_name s) g r'). msg_fields m = retry_fields isof ev dl))"
    if dl: "dl \<in> set batch" for dl
  proof -
    have mem: "dl \<in> set (deliveries d)" using dl select_due_mem [OF assms(3)] assms(6) by blast
    obtain ev where ev: "get_event_row (dl_event_id dl) d = Some ev"
      using db_ok_event_of_delivery [OF assms(2) mem] by blast
    have "distinct (map dl_id batch)" using select_due_distinct [OF assms(3,2)] assms(6) by simp
    from requeue_rows_done [OF run this dl db_ok_get(3) [OF assms(2) mem] ev] ev ms dl show ?thesis
      by fastforce
  qed
  have "\<forall>i. i \<notin> dl_id ` set batch \<longrightarrow> get_delivery_row i d' = get_delivery_row i d"
    using requeue_rows_other [OF run] by blast
  with row ms(1) db_ok_requeue_rows [OF run assms(2)] show ?thesis by blast
qed

text \<open>
  An event that had a retry never completes: once one of its rows is QUEUED for a retry,
  no call of the delivery engine sets the event to COMPLETED, whatever it delivers.
\<close>

lemma requeued_event_never_completes:
  assumes "deliver_to_endpoint s env eid epid n st = (r, st')"
    "row \<in> set (deliveries (es_db st))" "dl_event_id row = i" "dl_status row = delivery_status_value DL_QUEUED"
    "get_event_row i (es_db st) = Some ev" "ev_status ev \<noteq> event_status_value EV_COMPLETED"
    "get_event_row i (es_db st') = Some ev'"
  shows "ev_status ev' \<noteq> event_status_value EV_COMPLETED"
proof
  assume compl: "ev_status ev' = event_status_value EV_COMPLETED"
  have changed: "get_event_row i (es_db st') \<noteq> get_event_row i (es_db st)" using assms(5-7) compl by auto
  have "row \<in> set (deliveries (es_db st'))" using deliver_to_endpoint_row [OF assms(1)] assms(2) by auto
  then have "delivery_status_value DL_QUEUED \<in> delivery_statuses i (es_db st')"
    using assms(3,4) by (force simp: delivery_statuses_def)
  then have "\<not> delivery_statuses i (es_db st') \<subseteq> terminal_statuses" by (auto simp: terminal_statuses_def)
  with deliver_to_endpoint_completes [OF assms(1) changed] show False by blast
qed

lemma cleanup_pass_cutoffs:
  assumes "gone = (\<lambda>r. dl_created_at r <
      (if dl_status r = ''dlq'' then now - days_us (retention_dlq_days s) else now - days_us (retention_deliveries_days s)))"
    "cutoff = now - days_us (retention_events_days s)"
  shows "cleanup_pass s now d =
     (if \<exists>ev \<in> set (events d). ev_created_at ev < cutoff \<and>
           ((\<exists>r \<in> set (deliveries d). dl_event_id r = ev_id ev \<and> \<not> gone r) \<or>
            (\<exists>k \<in> set (idempotency_keys d). ik_event_id k = ev_id ev \<and> now \<le> ik_expires_at k) \<or>
            (\<exists>x \<in> set (outbox_events d). ob_event_id x = ev_id ev \<and> \<not> (ob_status x = ''published'' \<and> ob_created_at x < cutoff)))
      then d
      else d\<lparr>idempotency_keys := filter (\<lambda>k. now \<le> ik_expires_at k) (idempotency_keys d),
             deliveries := filter (\<lambda>r. \<not> gone r) (deliveries d),
             outbox_events := filter (\<lambda>x. \<not> (ob_status x = ''published'' \<and> ob_created_at x < cutoff)) (outbox_events d),
             events := filter (\<lambda>e. cutoff \<le> ev_created_at e) (events d)\<rparr>)"
proof -
  have dl: "(\<not> expired_delivery s now r \<and> \<not> expired_dlq s now r) = (\<not> gone r)" for r
    by (simp add: expired_delivery_def expired_dlq_def assms(1))
  have ob: "expired_outbox s now x = (ob_status x = ''published'' \<and> ob_created_at x < cutoff)" for x
    by (simp add: expired_outbox_def assms(2))
  have ev: "expired_event s now e = (ev_created_at e < cutoff)" for e by (simp add: expired_event_def assms(2))
  have children: "cleanup_children s now d = d\<lparr>idempotency_keys := filter (\<lambda>k. now \<le> ik_expires_at k) (idempotency_keys d),
      deliveries := filter (\<lambda>r. \<not> gone r) (deliveries d),
      outbox_events := filter (\<lambda>x. \<not> (ob_status x = ''published'' \<and> ob_created_at x < cutoff)) (outbox_events d)\<rparr>"
    by (simp add: cleanup_children_def delete_idempotency_keys_def delete_deliveries_def delete_outbox_def Let_def
        conj_commute dl ob expired_key_def not_less)
  have ref: "event_referenced i (cleanup_children s now d) \<longleftrightarrow>
      (\<exists>r \<in> set (deliveries d). dl_event_id r = i \<and> \<not> gone r) \<or>
      (\<exists>k \<in> set (idempotency_keys d). ik_event_id k = i \<and> now \<le> ik_expires_at k) \<or>
      (\<exists>x \<in> set (outbox_events d). ob_event_id x = i \<and> \<not> (ob_status x = ''published'' \<and> ob_created_at x < cutoff))" for i
    unfolding event_referenced_def children by (auto simp: image_iff)
  show ?thesis
    unfolding cleanup_pass_cases ev ref by (rule if_cong [OF refl refl]) (simp add: children not_less)
qed

text \<open>
  C32. A cleanup pass is all or nothing. With \<open>gone\<close> for the deliveries past their retention (of the dead-letter queue if they
  are in it, of deliveries otherwise) and cutoffs at the configured number of days before now: if some event past
  the events' retention is still referred to by a delivery or an idempotency key or an outbox row that the pass would keep, nothing at
  all is deleted; otherwise exactly the keys past their expiry, these deliveries, and the published
  outbox rows and the events past the events' retention go, and everything else stays.
\<close>

theorem cleanup_all_or_nothing:
  "let gone = (\<lambda>r. dl_created_at r <
         (if dl_status r = ''dlq'' then now - days_us (retention_dlq_days s) else now - days_us (retention_deliveries_days s)));
       cutoff = now - days_us (retention_events_days s)
   in cleanup_pass s now d =
     (if \<exists>ev \<in> set (events d). ev_created_at ev < cutoff \<and>
           ((\<exists>r \<in> set (deliveries d). dl_event_id r = ev_id ev \<and> \<not> gone r) \<or>
            (\<exists>k \<in> set (idempotency_keys d). ik_event_id k = ev_id ev \<and> now \<le> ik_expires_at k) \<or>
            (\<exists>x \<in> set (outbox_events d). ob_event_id x = ev_id ev \<and> \<not> (ob_status x = ''published'' \<and> ob_created_at x < cutoff)))
      then d
      else d\<lparr>idempotency_keys := filter (\<lambda>k. now \<le> ik_expires_at k) (idempotency_keys d),
             deliveries := filter (\<lambda>r. \<not> gone r) (deliveries d),
             outbox_events := filter (\<lambda>x. \<not> (ob_status x = ''published'' \<and> ob_created_at x < cutoff)) (outbox_events d),
             events := filter (\<lambda>e. cutoff \<le> ev_created_at e) (events d)\<rparr>)"
  unfolding Let_def by (rule cleanup_pass_cutoffs [OF refl refl])

text \<open>
  A dead-letter row that is kept longer than its event blocks the whole cleanup: while
  there is an event past its retention with a DLQ row that is not, a pass deletes nothing.
\<close>

lemma young_dlq_blocks_cleanup:
  assumes "ev \<in> set (events d)" "expired_event s now ev" "dl \<in> set (deliveries d)"
    "dl_event_id dl = ev_id ev" "dl_status dl = delivery_status_value DL_DLQ" "\<not> expired_dlq s now dl"
  shows "cleanup_pass s now d = d"
proof -
  have "dl \<in> set (deliveries (cleanup_children s now d))"
    using assms by (auto simp: deliveries_cleanup_children expired_delivery_def)
  then have "event_referenced (ev_id ev) (cleanup_children s now d)"
    using assms(4) by (force simp: event_referenced_def)
  with assms(1,2) show ?thesis unfolding cleanup_pass_cases by auto
qed

end
