(* ===== verification/Auth.thy ===== *)
theory Auth
  imports Database Settings Signature
begin

text \<open>
  Authentication and rate limiting, \<open>apps/api/eventmesh_api/auth_deps.py\<close>. The state of a request
  is the database, the server of the rate-limit counters and the metrics log. The Redis client
  is a record of operations over a server state of any type, as in the broker; the locale
  \<open>counter_store\<close> states what the limiter relies on.
\<close>

section \<open>Contexts and limits\<close>

record auth_context =
  ctx_tenant_id :: uuid
  ctx_api_key_id :: uuid
  ctx_plan :: string

definition RATE_LIMITS :: "string \<Rightarrow> int option" where
  "RATE_LIMITS = [tenant_plan_value FREE \<mapsto> 100, tenant_plan_value PRO \<mapsto> 1000,
     tenant_plan_value ENTERPRISE \<mapsto> 10000]"

definition unauthorized :: "string \<Rightarrow> exn" where
  "unauthorized msg = HTTPException 401 ''UNAUTHORIZED'' msg"

record 'c counter_client =
  incr :: "string \<Rightarrow> 'c \<Rightarrow> int result \<times> 'c"
  expire :: "string \<Rightarrow> int \<Rightarrow> 'c \<Rightarrow> unit result \<times> 'c"

record 'c api_state =
  as_db :: db
  as_counters :: 'c
  as_metrics :: "metric list"

section \<open>Rate limiting\<close>

definition plan_limit :: "string \<Rightarrow> int" where
  "plan_limit plan = (case RATE_LIMITS plan of Some n \<Rightarrow> n | None \<Rightarrow> the (RATE_LIMITS (tenant_plan_value FREE)))"

definition window_of :: "real \<Rightarrow> int" where
  "window_of time = \<lfloor>time / 60\<rfloor>"

definition rate_limit_key :: "uuid \<Rightarrow> int \<Rightarrow> string" where
  "rate_limit_key tenant_id window = ''ratelimit:'' @ str_uuid tenant_id @ '':'' @ str_int window"

definition enforce_rate_limit ::
    "'c counter_client \<Rightarrow> real \<Rightarrow> auth_context \<Rightarrow> 'c api_state \<Rightarrow> unit result \<times> 'c api_state" where
  "enforce_rate_limit C time ctx st =
     (let limit = plan_limit (ctx_plan ctx);
          key = rate_limit_key (ctx_tenant_id ctx) (window_of time)
      in case incr C key (as_counters st) of
           (Inl e, c1) \<Rightarrow> (Inl e, st\<lparr>as_counters := c1\<rparr>)
         | (Inr current, c1) \<Rightarrow>
             (case (if current = 1 then expire C key 90 c1 else (Inr (), c1)) of
                (Inl e, c2) \<Rightarrow> (Inl e, st\<lparr>as_counters := c2\<rparr>)
              | (Inr _, c2) \<Rightarrow>
                  if current > limit
                  then (Inl (HTTPException 429 ''RATE_LIMITED'' ''rate limit exceeded''),
                        st\<lparr>as_counters := c2,
                           as_metrics := as_metrics st @ [Rate_limit_rejections_total ''tenant'']\<rparr>)
                  else (Inr (), st\<lparr>as_counters := c2\<rparr>)))"

section \<open>Authentication\<close>

text \<open>The database session: the key's row, its tenant, the time of use.\<close>

definition auth_session :: "datetime \<Rightarrow> string \<Rightarrow> db \<Rightarrow> (auth_context \<times> db) result" where
  "auth_session now key_hash d =
     rbind (scalar_one_or_none (filter (\<lambda>k. ak_key_hash k = key_hash) (api_keys d))) (\<lambda>row.
       case row of
         None \<Rightarrow> Inl (unauthorized ''invalid API key'')
       | Some k \<Rightarrow>
           if ak_revoked_at k \<noteq> None then Inl (unauthorized ''invalid API key'')
           else (case get_tenant (ak_tenant_id k) d of
             None \<Rightarrow> Inl (unauthorized ''tenant is not active'')
           | Some tn \<Rightarrow>
               if tn_status tn \<noteq> ''active'' then Inl (unauthorized ''tenant is not active'')
               else Inr (\<lparr>ctx_tenant_id = tn_id tn, ctx_api_key_id = ak_id k, ctx_plan = tn_plan tn\<rparr>,
                         modify_api_key (ak_id k) (\<lambda>r. r\<lparr>ak_last_used_at := Some now\<rparr>) d)))"

definition get_auth_context ::
    "'c counter_client \<Rightarrow> string \<Rightarrow> datetime \<Rightarrow> real \<Rightarrow> 'c api_state \<Rightarrow> auth_context result \<times> 'c api_state" where
  "get_auth_context C authz now time st =
     (if \<not> startswith authz ''Bearer ''
      then (Inl (unauthorized ''missing or malformed Authorization header''), st)
      else let raw_key = strip (removeprefix authz ''Bearer '') in
        if raw_key = [] then (Inl (unauthorized ''empty API key''), st)
        else (case auth_session now (hash_api_key raw_key) (as_db st) of
          Inl e \<Rightarrow> (Inl e, st)
        | Inr (ctx, d1) \<Rightarrow>
            (case enforce_rate_limit C time ctx (st\<lparr>as_db := d1\<rparr>) of
               (Inl e, st1) \<Rightarrow> (Inl e, st1)
             | (Inr _, st1) \<Rightarrow> (Inr ctx, st1))))"

section \<open>The contract of the counters\<close>

text \<open>
  What is documented of the server: a key that does not exist counts as 0; \<open>INCR\<close> answers with the new value and leaves the
  time to live; \<open>EXPIRE\<close> gives an existing key that many seconds to live; as the server's clock
  advances, exactly the keys whose time has come are removed. A call that fails may still have taken effect.
\<close>

locale counter_store =
  fixes inc :: "string \<Rightarrow> 'c \<Rightarrow> int result \<times> 'c"
    and expi :: "string \<Rightarrow> int \<Rightarrow> 'c \<Rightarrow> unit result \<times> 'c"
    and advance :: "real \<Rightarrow> 'c \<Rightarrow> 'c"
    and val :: "string \<Rightarrow> 'c \<Rightarrow> int"
    and ttl :: "string \<Rightarrow> 'c \<Rightarrow> real option"
  assumes inc_answer: "inc k c = (Inr n, c') \<Longrightarrow> n = val k c + 1 \<and> val k c' = n"
    and inc_mono: "inc k c = (ires, c') \<Longrightarrow> val k c \<le> val k c' \<and> ttl k c' = ttl k c"
    and inc_other: "inc k c = (ires, c') \<Longrightarrow> k' \<noteq> k \<Longrightarrow> val k' c' = val k' c \<and> ttl k' c' = ttl k' c"
    and expi_keeps: "expi k n c = (eres, c') \<Longrightarrow> 0 < n \<Longrightarrow> val k' c' = val k' c"
    and expi_ttl: "expi k n c = (eres, c') \<Longrightarrow> 0 < n \<Longrightarrow>
      (k' \<noteq> k \<longrightarrow> ttl k' c' = ttl k' c) \<and> (ttl k c' = ttl k c \<or> ttl k c' = Some (of_int n)) \<and>
      (eres = Inr () \<longrightarrow> 0 < val k c \<longrightarrow> ttl k c' = Some (of_int n))"
    and advance_law: "0 \<le> dt \<Longrightarrow>
      (case ttl k c of
         None \<Rightarrow> val k (advance dt c) = val k c \<and> ttl k (advance dt c) = None
       | Some t \<Rightarrow>
           if dt < t then val k (advance dt c) = val k c \<and> ttl k (advance dt c) = Some (t - dt)
           else val k (advance dt c) = 0 \<and> ttl k (advance dt c) = None)"
begin

text \<open>A counter that outlives the time \<open>left\<close> keeps its value as part of that time passes.\<close>

definition outlives :: "string \<Rightarrow> real \<Rightarrow> 'c \<Rightarrow> bool" where
  "outlives k left c \<longleftrightarrow> (case ttl k c of None \<Rightarrow> True | Some t \<Rightarrow> left < t)"

lemma outlives_advance:
  assumes "0 \<le> dt" "dt \<le> left" "outlives k left c"
  shows "val k (advance dt c) = val k c" "outlives k (left - dt) (advance dt c)"
  using advance_law [OF assms(1), of k c] assms(2,3) by (auto simp: outlives_def split: option.splits if_splits)

end

locale redis_counters = counter_store "incr C" "expire C" advance val ttl
  for C :: "'c counter_client" and advance val ttl

record counters =
  ct_val :: "string \<Rightarrow> int"
  ct_ttl :: "string \<Rightarrow> real option"
  ct_up :: bool

definition rc_incr :: "string \<Rightarrow> counters \<Rightarrow> int result \<times> counters" where
  "rc_incr k c =
     (if \<not> ct_up c then (Inl (OtherError ''ConnectionError''), c)
      else (Inr (ct_val c k + 1), c\<lparr>ct_val := (ct_val c)(k := ct_val c k + 1)\<rparr>))"

definition rc_expire :: "string \<Rightarrow> int \<Rightarrow> counters \<Rightarrow> unit result \<times> counters" where
  "rc_expire k n c =
     (if \<not> ct_up c then (Inl (OtherError ''ConnectionError''), c)
      else if ct_val c k = 0 then (Inr (), c)
      else if n \<le> 0 then (Inr (), c\<lparr>ct_val := (ct_val c)(k := 0), ct_ttl := (ct_ttl c)(k := None)\<rparr>)
      else (Inr (), c\<lparr>ct_ttl := (ct_ttl c)(k \<mapsto> of_int n)\<rparr>))"

definition rc_advance :: "real \<Rightarrow> counters \<Rightarrow> counters" where
  "rc_advance dt c =
     c\<lparr>ct_val := (\<lambda>k. case ct_ttl c k of None \<Rightarrow> ct_val c k | Some t \<Rightarrow> if dt < t then ct_val c k else 0),
       ct_ttl := (\<lambda>k. case ct_ttl c k of None \<Rightarrow> None | Some t \<Rightarrow> if dt < t then Some (t - dt) else None)\<rparr>"

definition reference_counters :: "counters counter_client" where
  "reference_counters = \<lparr>incr = rc_incr, expire = rc_expire\<rparr>"

interpretation reference_counters: redis_counters reference_counters rc_advance "\<lambda>k c. ct_val c k" "\<lambda>k c. ct_ttl c k"
  by unfold_locales (auto simp: reference_counters_def rc_incr_def rc_expire_def rc_advance_def
      split: if_splits option.splits)

section \<open>Requests one after another\<close>

text \<open>A request of any tenant: its context, the API's clock, and the time that passed on the server since the last one.\<close>

record limit_request =
  lr_ctx :: auth_context
  lr_time :: real
  lr_wait :: real

text \<open>The requests that the limiter admits.\<close>

fun rate_limit_run :: "'c counter_client \<Rightarrow> (real \<Rightarrow> 'c \<Rightarrow> 'c) \<Rightarrow> limit_request list \<Rightarrow> 'c api_state \<Rightarrow> limit_request list" where
  "rate_limit_run C advance [] st = []"
| "rate_limit_run C advance (q # qs) st =
     (case enforce_rate_limit C (lr_time q) (lr_ctx q) (st\<lparr>as_counters := advance (lr_wait q) (as_counters st)\<rparr>) of
        (res, st') \<Rightarrow> (if res = Inr () then [q] else []) @ rate_limit_run C advance qs st')"

definition of_window :: "uuid \<Rightarrow> int \<Rightarrow> limit_request \<Rightarrow> bool" where
  "of_window i w q \<longleftrightarrow> ctx_tenant_id (lr_ctx q) = i \<and> window_of (lr_time q) = w"

context redis_counters
begin

lemma enforce_step:
  assumes "enforce_rate_limit C t ctx st = (res, st')" "key = rate_limit_key (ctx_tenant_id ctx) (window_of t)"
  shows "val k (as_counters st) \<le> val k (as_counters st')"
    "left < 90 \<Longrightarrow> outlives k left (as_counters st) \<Longrightarrow> outlives k left (as_counters st')"
    "res = Inr () \<Longrightarrow> val key (as_counters st') = val key (as_counters st) + 1 \<and>
       val key (as_counters st') \<le> plan_limit (ctx_plan ctx)"
proof -
  obtain ir c1 where i: "incr C key (as_counters st) = (ir, c1)" by (cases "incr C key (as_counters st)")
  have step1: "val k (as_counters st) \<le> val k c1" "ttl k c1 = ttl k (as_counters st)"
    using inc_mono [OF i] inc_other [OF i, of k] by (cases "k = key"; simp)+
  obtain er c2 where e: "(if ir = Inr 1 then expire C key 90 c1 else (Inr (), c1)) = (er, c2)"
    by (cases "if ir = Inr 1 then expire C key 90 c1 else (Inr (), c1)")
  have step2: "val k' c2 = val k' c1" for k' using e expi_keeps [of key 90 c1 er c2 k'] by (auto split: if_splits)
  have step3: "ttl k c2 = ttl k c1 \<or> ttl k c2 = Some 90"
    using e expi_ttl [of key 90 c1 er c2 k] by (cases "k = key") (auto split: if_splits)
  have st': "as_counters st' = c2 \<or> as_counters st' = c1"
    using assms i e by (auto simp: enforce_rate_limit_def Let_def split: sum.splits if_splits)
  then show "val k (as_counters st) \<le> val k (as_counters st')" using step1(1) step2 by auto
  show "outlives k left (as_counters st')" if "left < 90" "outlives k left (as_counters st)"
    using that st' step1(2) step3 by (auto simp: outlives_def)
  show "val key (as_counters st') = val key (as_counters st) + 1 \<and> val key (as_counters st') \<le> plan_limit (ctx_plan ctx)"
    if "res = Inr ()"
  proof (cases ir)
    case (Inl x)
    with that i assms show ?thesis by (simp add: enforce_rate_limit_def Let_def)
  next
    case (Inr n)
    with i have n: "n = val key (as_counters st) + 1" "val key c1 = n" using inc_answer by blast+
    have "n \<le> plan_limit (ctx_plan ctx)"
      using that assms i Inr by (auto simp: enforce_rate_limit_def Let_def split: sum.splits if_splits prod.splits)
    with n st' step2 show ?thesis by auto
  qed
qed

lemma admitted_at_most:
  assumes "\<forall>q \<in> set qs. 0 \<le> lr_wait q" "\<forall>q \<in> set qs. of_window i w q \<longrightarrow> plan_limit (ctx_plan (lr_ctx q)) = limit"
    "sum_list (map lr_wait qs) < 90" "outlives (rate_limit_key i w) (sum_list (map lr_wait qs)) (as_counters st)"
  shows "length (filter (of_window i w) (rate_limit_run C advance qs st)) \<le>
    nat (limit - val (rate_limit_key i w) (as_counters st))"
  using assms
proof (induction qs arbitrary: st)
  case (Cons q qs)
  let ?key = "rate_limit_key i w" and ?c = "advance (lr_wait q) (as_counters st)"
  let ?left = "sum_list (map lr_wait qs)"
  have left: "0 \<le> ?left" using Cons.prems(1) by (intro sum_list_nonneg) auto
  obtain res st' where e: "enforce_rate_limit C (lr_time q) (lr_ctx q) (st\<lparr>as_counters := ?c\<rparr>) = (res, st')" by fastforce
  have wait: "val ?key ?c = val ?key (as_counters st)" "outlives ?key ?left ?c"
    using outlives_advance [of "lr_wait q" "lr_wait q + ?left" ?key "as_counters st"] Cons.prems left by simp_all
  have short: "?left < 90" using Cons.prems(1,3) by simp
  note step = enforce_step [OF e refl]
  have "outlives ?key ?left (as_counters st')" using step(2) [OF short] wait(2) by simp
  with Cons.IH [OF _ _ short] Cons.prems
  have IH: "length (filter (of_window i w) (rate_limit_run C advance qs st')) \<le> nat (limit - val ?key (as_counters st'))"
    by simp
  have mono: "val ?key (as_counters st) \<le> val ?key (as_counters st')" using step(1) [of ?key] wait(1) by simp
  show ?case
  proof (cases "res = Inr () \<and> of_window i w q")
    case True
    then have "val ?key (as_counters st') = val ?key (as_counters st) + 1" "val ?key (as_counters st') \<le> limit"
      using step(3) wait(1) Cons.prems(2) by (auto simp: of_window_def)
    with IH True e show ?thesis by auto
  next
    case False
    with IH mono e show ?thesis by auto
  qed
qed simp

end

section \<open>What a context stands for\<close>

text \<open>A raw key that opens the door: an unrevoked row with its hash, of an active tenant.\<close>

definition opens :: "string \<Rightarrow> db \<Rightarrow> api_key \<Rightarrow> tenant \<Rightarrow> bool" where
  "opens raw d k tn \<longleftrightarrow>
     k \<in> set (api_keys d) \<and> ak_key_hash k = hash_api_key raw \<and> ak_revoked_at k = None \<and>
     get_tenant (ak_tenant_id k) d = Some tn \<and> tn_status tn = ''active''"

text \<open>What the session does with the one row found.\<close>

lemma auth_session_row:
  assumes "filter (\<lambda>k. ak_key_hash k = h) (api_keys d) = [k]"
  shows "auth_session now h d =
    (if ak_revoked_at k = None then
       (case get_tenant (ak_tenant_id k) d of
          None \<Rightarrow> Inl (unauthorized ''tenant is not active'')
        | Some tn \<Rightarrow>
            if tn_status tn = ''active''
            then Inr (\<lparr>ctx_tenant_id = tn_id tn, ctx_api_key_id = ak_id k, ctx_plan = tn_plan tn\<rparr>,
                      modify_api_key (ak_id k) (\<lambda>r. r\<lparr>ak_last_used_at := Some now\<rparr>) d)
            else Inl (unauthorized ''tenant is not active''))
     else Inl (unauthorized ''invalid API key''))"
  using assms by (auto simp: auth_session_def split: option.split)

lemma auth_session_Inr:
  assumes "auth_session now (hash_api_key raw) d = Inr (ctx, d')"
  shows "\<exists>k tn. opens raw d k tn \<and> ctx = \<lparr>ctx_tenant_id = tn_id tn, ctx_api_key_id = ak_id k, ctx_plan = tn_plan tn\<rparr> \<and>
    d' = modify_api_key (ak_id k) (\<lambda>r. r\<lparr>ak_last_used_at := Some now\<rparr>) d"
proof -
  let ?rows = "filter (\<lambda>k. ak_key_hash k = hash_api_key raw) (api_keys d)"
  have "\<exists>k. ?rows = [k]"
  proof (rule ccontr)
    assume "\<nexists>k. ?rows = [k]"
    then obtain x y zs where "?rows = [] \<or> ?rows = x # y # zs" by (metis list.exhaust)
    with assms show False by (auto simp: auth_session_def)
  qed
  then obtain k where k: "?rows = [k]" ..
  from auth_session_row [OF k, of now] filter_Cons_mem [OF k] assms show ?thesis
    by (auto simp: opens_def split: if_splits option.splits)
qed

lemma auth_session_refused:
  assumes "db_ok d" "\<forall>k tn. \<not> opens raw d k tn"
  shows "\<exists>msg. auth_session now (hash_api_key raw) d = Inl (HTTPException 401 ''UNAUTHORIZED'' msg)"
proof -
  let ?rows = "filter (\<lambda>y. ak_key_hash y = hash_api_key raw) (api_keys d)"
  show ?thesis
  proof (cases ?rows)
    case Nil
    then show ?thesis by (simp add: auth_session_def unauthorized_def)
  next
    case (Cons k ks)
    note k = filter_Cons_mem [OF Cons]
    from assms(1) have "distinct (map ak_key_hash (api_keys d))" by (simp add: db_ok_def keys_ok_def)
    from filter_unique [OF this] k have "?rows = [k]" by metis
    from auth_session_row [OF this, of now] k assms(2) show ?thesis
      by (cases "get_tenant (ak_tenant_id k) d") (auto simp: opens_def unauthorized_def)
  qed
qed

lemma enforce_db [simp]: "as_db (snd (enforce_rate_limit C t ctx st)) = as_db st"
  by (auto simp: enforce_rate_limit_def Let_def split: prod.splits sum.splits)

lemma get_auth_context_Inr:
  assumes "get_auth_context C authz now time st = (Inr ctx, st')"
  obtains raw k tn st1 where "startswith authz ''Bearer ''" "raw = strip (removeprefix authz ''Bearer '')" "raw \<noteq> []"
    "opens raw (as_db st) k tn" "ctx = \<lparr>ctx_tenant_id = tn_id tn, ctx_api_key_id = ak_id k, ctx_plan = tn_plan tn\<rparr>"
    "as_db st1 = modify_api_key (ak_id k) (\<lambda>r. r\<lparr>ak_last_used_at := Some now\<rparr>) (as_db st)"
    "as_counters st1 = as_counters st" "enforce_rate_limit C time ctx st1 = (Inr (), st')"
proof -
  let ?raw = "strip (removeprefix authz ''Bearer '')"
  from assms have h: "startswith authz ''Bearer ''" "?raw \<noteq> []"
    by (auto simp: get_auth_context_def Let_def split: if_splits)
  have "\<exists>d1. auth_session now (hash_api_key ?raw) (as_db st) = Inr (ctx, d1) \<and>
      enforce_rate_limit C time ctx (st\<lparr>as_db := d1\<rparr>) = (Inr (), st')"
    using assms h by (auto simp: get_auth_context_def Let_def split: sum.splits prod.splits)
  then obtain d1 where s: "auth_session now (hash_api_key ?raw) (as_db st) = Inr (ctx, d1)"
    and e: "enforce_rate_limit C time ctx (st\<lparr>as_db := d1\<rparr>) = (Inr (), st')" by blast
  from auth_session_Inr [OF s] obtain k tn where "opens ?raw (as_db st) k tn"
    "ctx = \<lparr>ctx_tenant_id = tn_id tn, ctx_api_key_id = ak_id k, ctx_plan = tn_plan tn\<rparr>"
    "d1 = modify_api_key (ak_id k) (\<lambda>r. r\<lparr>ak_last_used_at := Some now\<rparr>) (as_db st)" by blast
  with h e show thesis by (intro that [of ?raw k tn "st\<lparr>as_db := d1\<rparr>"]) simp_all
qed

section \<open>Properties\<close>

text \<open>
  C26. A request is authenticated as a tenant only with a bearer key whose hash is stored,
  unrevoked, for that tenant, and only while the tenant is active; apart from the key's time of last
  use the database is unchanged.
\<close>

theorem context_needs_valid_key:
  assumes "get_auth_context C authz now time st = (Inr ctx, st')"
  shows "\<exists>raw k tn. startswith authz ''Bearer '' \<and> raw = strip (removeprefix authz ''Bearer '') \<and>
    opens raw (as_db st) k tn \<and> ctx_tenant_id ctx = ak_tenant_id k \<and> ctx_plan ctx = tn_plan tn \<and>
    as_db st' = modify_api_key (ak_id k) (\<lambda>r. r\<lparr>ak_last_used_at := Some now\<rparr>) (as_db st)"
proof -
  show ?thesis
    using assms
  proof (rule get_auth_context_Inr)
    fix raw k tn st1
    assume a: "startswith authz ''Bearer ''" "raw = strip (removeprefix authz ''Bearer '')" "opens raw (as_db st) k tn"
      "ctx = \<lparr>ctx_tenant_id = tn_id tn, ctx_api_key_id = ak_id k, ctx_plan = tn_plan tn\<rparr>"
      "as_db st1 = modify_api_key (ak_id k) (\<lambda>r. r\<lparr>ak_last_used_at := Some now\<rparr>) (as_db st)"
      "enforce_rate_limit C time ctx st1 = (Inr (), st')"
    have "as_db st' = as_db st1" using enforce_db [of C time ctx st1] a(6) by simp
    moreover have "tn_id tn = ak_tenant_id k"
      using a(3) by (auto simp: opens_def get_tenant_def dest: tab_get_SomeD)
    ultimately show ?thesis using a(1-5) by (intro exI [of _ raw] exI [of _ k] exI [of _ tn]) simp
  qed
qed

text \<open>
  A request without such a key is answered with 401 and changes nothing: neither the
  database nor the tenant's rate-limit counter.
\<close>

lemma bad_credentials:
  assumes "db_ok (as_db st)"
    "\<forall>k tn. \<not> opens (strip (removeprefix authz ''Bearer '')) (as_db st) k tn"
  shows "\<exists>msg. get_auth_context C authz now time st = (Inl (HTTPException 401 ''UNAUTHORIZED'' msg), st)"
proof -
  from auth_session_refused [OF assms(1)] assms(2) obtain msg where
    "auth_session now (hash_api_key (strip (removeprefix authz ''Bearer ''))) (as_db st) =
       Inl (HTTPException 401 ''UNAUTHORIZED'' msg)" by blast
  then show ?thesis by (simp add: get_auth_context_def Let_def unauthorized_def)
qed

text \<open>
  C28. Over any counter server that keeps its contract, keys expiring as its clock advances: if the requests of all tenants, in any order, arrive within less than
  90 seconds of the server's clock, starting when the counter of a tenant and a minute does not exist, then at most
  100 requests of that tenant in that minute are admitted, 1000 on the pro plan and 10000 on the enterprise plan, whatever calls fail
  meanwhile. A minute has 60 seconds, so the requests of one minute do arrive within 90, with 30 seconds to spare.
\<close>

theorem rate_limit_holds:
  assumes "redis_counters C advance val ttl" "val (rate_limit_key i w) (as_counters st) = 0"
    "ttl (rate_limit_key i w) (as_counters st) = None"
    "\<forall>q \<in> set qs. 0 \<le> lr_wait q" "sum_list (map lr_wait qs) < 90"
    "\<forall>q \<in> set qs. ctx_tenant_id (lr_ctx q) = i \<longrightarrow> ctx_plan (lr_ctx q) = plan"
  shows "int (length (filter (\<lambda>q. ctx_tenant_id (lr_ctx q) = i \<and> \<lfloor>lr_time q / 60\<rfloor> = w) (rate_limit_run C advance qs st))) \<le>
    (if plan = ''enterprise'' then 10000 else if plan = ''pro'' then 1000 else 100)"
proof -
  have limit: "plan_limit plan = (if plan = ''enterprise'' then 10000 else if plan = ''pro'' then 1000 else 100)"
    by (simp add: plan_limit_def RATE_LIMITS_def)
  have "counter_store.outlives ttl (rate_limit_key i w) (sum_list (map lr_wait qs)) (as_counters st)"
    using assms(3) by (simp add: counter_store.outlives_def [OF redis_counters.axioms [OF assms(1)]])
  from redis_counters.admitted_at_most [OF assms(1,4) _ assms(5) this, of "plan_limit plan"] assms(2,6)
  have "length (filter (of_window i w) (rate_limit_run C advance qs st)) \<le> nat (plan_limit plan)"
    by (simp add: of_window_def)
  then show ?thesis unfolding of_window_def window_of_def limit by (simp add: nat_le_eq_zle split: if_splits)
qed

definition sample_api_state :: "counters api_state" where
  "sample_api_state = \<lparr>as_db = sample_db, as_counters = \<lparr>ct_val = (\<lambda>_. 0), ct_ttl = (\<lambda>_. None), ct_up = True\<rparr>, as_metrics = []\<rparr>"

theorem rate_limit_holds_witness:
  "int (length (filter (\<lambda>q. ctx_tenant_id (lr_ctx q) = 1 \<and> \<lfloor>lr_time q / 60\<rfloor> = 0) (rate_limit_run reference_counters rc_advance
     (replicate 150 \<lparr>lr_ctx = \<lparr>ctx_tenant_id = 1, ctx_api_key_id = 2, ctx_plan = ''free''\<rparr>, lr_time = 7, lr_wait = 1/3\<rparr>)
     sample_api_state))) \<le> 100"
  using rate_limit_holds [OF reference_counters.redis_counters_axioms, where i = 1 and w = 0 and st = sample_api_state
      and plan = "''free''" and
      qs = "replicate 150 \<lparr>lr_ctx = \<lparr>ctx_tenant_id = 1, ctx_api_key_id = 2, ctx_plan = ''free''\<rparr>, lr_time = 7, lr_wait = 1/3\<rparr>"]
  by (simp add: sample_api_state_def sum_list_replicate)

theorem context_needs_valid_key_witness:
  "\<exists>raw k tn. opens raw (sample_db\<lparr>api_keys := [sample_api_key\<lparr>ak_key_hash := hash_api_key ''k''\<rparr>]\<rparr>) k tn"
proof -
  let ?d = "sample_db\<lparr>api_keys := [sample_api_key\<lparr>ak_key_hash := hash_api_key ''k''\<rparr>]\<rparr>"
  let ?st = "sample_api_state\<lparr>as_db := ?d\<rparr>"
  have tn: "get_tenant 1 ?d = Some sample_tenant"
    by (simp add: get_tenant_def sample_defs tab_get_Cons)
  have raw: "strip (removeprefix ''Bearer k'' ''Bearer '') = ''k''" "startswith ''Bearer k'' ''Bearer ''"
    by code_simp+
  have "\<exists>ctx st'. get_auth_context reference_counters ''Bearer k'' 0 0 ?st = (Inr ctx, st')"
    using tn raw
    by (simp add: get_auth_context_def auth_session_def scalar_one_or_none_def enforce_rate_limit_def Let_def
        reference_counters_def rc_incr_def rc_expire_def plan_limit_def RATE_LIMITS_def
        sample_api_state_def sample_api_key_def sample_tenant_def)
  then obtain ctx st' where "get_auth_context reference_counters ''Bearer k'' 0 0 ?st = (Inr ctx, st')" by blast
  from context_needs_valid_key [OF this] show ?thesis by auto
qed

end
