(* ===== verification/Api_Events.thy ===== *)
theory Api_Events
  imports Auth Delivery_Engine "HOL-Library.Product_Lexorder"
begin

text \<open>
  The events router, \<open>apps/api/eventmesh_api/routers/events.py\<close>, and its request and response
  schemas in \<open>apps/api/eventmesh_api/schemas.py\<close>. A handler takes the authenticated context and the committed
  database; an exception leaves the database unchanged, because the session is rolled back. New
  identifiers, clocks and the two conversions between a datetime and its ISO text are arguments.
\<close>

section \<open>Schemas\<close>

record event_create_request =
  ecr_type :: string
  ecr_data :: "(string \<times> json) list"
  ecr_source :: "string option"
  ecr_entity_id :: "string option"
  ecr_sequence :: "int option"

record event_create_response =
  ers_event_id :: uuid
  ers_status :: string

record event_detail =
  ed_id :: uuid
  ed_tenant_id :: uuid
  ed_event_type :: string
  ed_payload :: json
  ed_status :: string
  ed_entity_id :: "string option"
  ed_sequence_number :: "int option"
  ed_created_at :: datetime
  ed_updated_at :: datetime

text \<open>The declared length limit and the validator \<open>type_not_empty\<close>.\<close>

definition valid_event_create :: "event_create_request \<Rightarrow> bool" where
  "valid_event_create body \<longleftrightarrow> length (ecr_type body) \<le> 255 \<and> strip (ecr_type body) \<noteq> []"

definition event_detail_of :: "event \<Rightarrow> event_detail" where
  "event_detail_of ev =
     \<lparr>ed_id = ev_id ev, ed_tenant_id = ev_tenant_id ev, ed_event_type = ev_event_type ev,
      ed_payload = ev_payload ev, ed_status = ev_status ev, ed_entity_id = ev_entity_id ev,
      ed_sequence_number = ev_sequence_number ev, ed_created_at = ev_created_at ev,
      ed_updated_at = ev_updated_at ev\<rparr>"

section \<open>Creating an event\<close>

record create_headers =
  hd_idempotency_key :: "string option"
  hd_content_length :: "string option"

record create_env =
  ce_event_id :: uuid
  ce_outbox_id :: uuid
  ce_key_id :: uuid
  ce_now :: datetime
  ce_key_now :: datetime
  ce_db_now :: datetime
  ce_isoformat :: "datetime \<Rightarrow> string"

definition truthy_str :: "string option \<Rightarrow> string option" where
  "truthy_str x = (case x of Some [] \<Rightarrow> None | _ \<Rightarrow> x)"

definition content_length :: "create_headers \<Rightarrow> int result" where
  "content_length hdr =
     (case truthy_str (hd_content_length hdr) of
        None \<Rightarrow> Inr 0
      | Some t \<Rightarrow> (case py_int 10 t of None \<Rightarrow> Inl (ValueError ''invalid literal for int()'') | Some n \<Rightarrow> Inr n))"

definition new_event :: "create_env \<Rightarrow> event_create_request \<Rightarrow> auth_context \<Rightarrow> event" where
  "new_event env body ctx =
     \<lparr>ev_id = ce_event_id env, ev_tenant_id = ctx_tenant_id ctx, ev_event_type = ecr_type body,
      ev_source = ecr_source body, ev_entity_id = ecr_entity_id body,
      ev_sequence_number = ecr_sequence body, ev_payload = JObj (ecr_data body),
      ev_status = event_status_value EV_RECEIVED, ev_created_at = ce_db_now env,
      ev_updated_at = ce_db_now env\<rparr>"

definition event_payload :: "(datetime \<Rightarrow> string) \<Rightarrow> datetime \<Rightarrow> uuid \<Rightarrow> event \<Rightarrow> (string \<times> json) list" where
  "event_payload isof now tenant_id ev =
     [(''event_id'', JStr (str_uuid (ev_id ev))),
      (''tenant_id'', JStr (str_uuid tenant_id)),
      (''type'', JStr (ev_event_type ev)),
      (''entity_id'', opt_str (ev_entity_id ev)),
      (''sequence'', opt_int (ev_sequence_number ev)),
      (''data'', ev_payload ev),
      (''created_at'', JStr (isof now))]"

definition new_outbox :: "uuid \<Rightarrow> datetime \<Rightarrow> string \<Rightarrow> event \<Rightarrow> (string \<times> json) list \<Rightarrow> outbox_event" where
  "new_outbox i db_now aggregate_type ev payload =
     \<lparr>ob_id = i, ob_aggregate_type = aggregate_type, ob_aggregate_id = ev_id ev, ob_event_id = ev_id ev,
      ob_payload = payload, ob_status = outbox_status_value OB_PENDING, ob_attempts = 0,
      ob_created_at = db_now, ob_published_at = None\<rparr>"

definition new_idempotency_key :: "settings \<Rightarrow> create_env \<Rightarrow> auth_context \<Rightarrow> string \<Rightarrow> idempotency_key" where
  "new_idempotency_key s env ctx key =
     \<lparr>ik_id = ce_key_id env, ik_tenant_id = ctx_tenant_id ctx, ik_key = key,
      ik_event_id = ce_event_id env, ik_created_at = ce_db_now env,
      ik_expires_at = ce_key_now env + days_us (idempotency_key_ttl_days s)\<rparr>"

text \<open>The rows written in one transaction.\<close>

definition create_rows :: "settings \<Rightarrow> create_env \<Rightarrow> event_create_request \<Rightarrow> auth_context \<Rightarrow> string option \<Rightarrow>
    db \<Rightarrow> db result" where
  "create_rows s env body ctx key d =
     (let ev = new_event env body ctx;
          ob = new_outbox (ce_outbox_id env) (ce_db_now env) ''event'' ev
                 (event_payload (ce_isoformat env) (ce_now env) (ctx_tenant_id ctx) ev)
      in rbind (insert_event ev d) (\<lambda>d1.
         rbind (insert_outbox ob d1) (\<lambda>d2.
           case key of
             None \<Rightarrow> Inr d2
           | Some k \<Rightarrow> insert_idempotency_key (new_idempotency_key s env ctx k) d2)))"

definition find_idempotency_key :: "auth_context \<Rightarrow> string option \<Rightarrow> db \<Rightarrow> idempotency_key option result" where
  "find_idempotency_key ctx key d =
     (case key of
        None \<Rightarrow> Inr None
      | Some k \<Rightarrow> scalar_one_or_none
          (filter (\<lambda>r. ik_tenant_id r = ctx_tenant_id ctx \<and> ik_key r = k) (idempotency_keys d)))"

definition create_event :: "settings \<Rightarrow> create_env \<Rightarrow> event_create_request \<Rightarrow> create_headers \<Rightarrow> auth_context \<Rightarrow>
    db \<times> metric list \<Rightarrow> event_create_response result \<times> (db \<times> metric list)" where
  "create_event s env body hdr ctx = (\<lambda>(d, ms).
     (let key = truthy_str (hd_idempotency_key hdr) in
      case content_length hdr of
        Inl e \<Rightarrow> (Inl e, (d, ms))
      | Inr raw_body_len \<Rightarrow>
          if raw_body_len \<noteq> 0 \<and> raw_body_len > max_event_payload_bytes s
          then (Inl (HTTPException 413 ''PAYLOAD_TOO_LARGE'' ''event payload exceeds limit''),
                (d, ms @ [Events_failed_total ''payload_too_large'']))
          else (case find_idempotency_key ctx key d of
            Inl e \<Rightarrow> (Inl e, (d, ms))
          | Inr (Some row) \<Rightarrow> (Inr \<lparr>ers_event_id = ik_event_id row, ers_status = ''queued''\<rparr>, (d, ms))
          | Inr None \<Rightarrow>
              (case create_rows s env body ctx key d of
                 Inl e \<Rightarrow> (Inl e, (d, ms))
               | Inr d' \<Rightarrow> (Inr \<lparr>ers_event_id = ce_event_id env, ers_status = ''queued''\<rparr>,
                             (d', ms @ [Events_ingested_total (ecr_type body)]))))))"

section \<open>Reading events\<close>

definition not_found :: "string \<Rightarrow> exn" where
  "not_found what = HTTPException 404 ''NOT_FOUND'' (what @ '' not found'')"

definition get_event :: "uuid \<Rightarrow> auth_context \<Rightarrow> db \<Rightarrow> event_detail result" where
  "get_event event_id ctx d =
     (case get_event_row event_id d of
        None \<Rightarrow> Inl (not_found ''event'')
      | Some ev \<Rightarrow>
          if ev_tenant_id ev \<noteq> ctx_tenant_id ctx then Inl (not_found ''event'')
          else Inr (event_detail_of ev))"

definition clamp_limit :: "int \<Rightarrow> int" where
  "clamp_limit limit = min (max limit 1) 200"

definition invalid_cursor :: "string \<Rightarrow> exn" where
  "invalid_cursor msg = HTTPException 400 ''INVALID_CURSOR'' msg"

text \<open>
  A Python datetime: without time zone, or with one and then given as the instant in UTC. \<open>fromisoformat\<close> returns
  either, as the text says. The column \<open>created_at\<close> is declared without time zone, so its comparison binds its operand as one
  without; the driver raises DataError for one with a time zone.
\<close>

datatype stamp = Naive datetime | Aware datetime

definition bind_timestamp :: "stamp \<Rightarrow> datetime result" where
  "bind_timestamp ts =
     (case ts of
        Naive t \<Rightarrow> Inr t
      | Aware t \<Rightarrow> Inl (DataError ''can't subtract offset-naive and offset-aware datetimes''))"

text \<open>\<open>"<iso timestamp>|<uuid>"\<close>; a ValueError becomes 400.\<close>

definition parse_cursor :: "(string \<Rightarrow> stamp result) \<Rightarrow> string \<Rightarrow> (stamp \<times> uuid) result" where
  "parse_cursor fromisoformat cursor =
     (case partition1 (CHR ''|'') cursor of
        (ts_str, found, id_str) \<Rightarrow>
          if \<not> found then Inl (invalid_cursor ''not enough values to unpack (expected 2, got 1)'')
          else (case fromisoformat ts_str of
            Inl (ValueError m) \<Rightarrow> Inl (invalid_cursor m)
          | Inl (TypeError m) \<Rightarrow> Inl (invalid_cursor m)
          | Inl e \<Rightarrow> Inl e
          | Inr ts \<Rightarrow>
              (case uuid_of_str id_str of
                 None \<Rightarrow> Inl (invalid_cursor ''badly formed hexadecimal UUID string'')
               | Some i \<Rightarrow> Inr (ts, i))))"

definition event_key :: "event \<Rightarrow> datetime \<times> uuid" where
  "event_key ev = (ev_created_at ev, ev_id ev)"

definition tenant_events :: "uuid \<Rightarrow> string option \<Rightarrow> db \<Rightarrow> event list" where
  "tenant_events tenant_id event_type d =
     filter (\<lambda>e. ev_tenant_id e = tenant_id \<and>
                 (case event_type of None \<Rightarrow> True | Some t \<Rightarrow> ev_event_type e = t)) (events d)"

text \<open>\<open>ORDER BY created_at DESC, id DESC\<close>.\<close>

definition newest_first :: "event list \<Rightarrow> event list" where
  "newest_first evs = rev (sort_key event_key evs)"

definition before_cursor :: "datetime \<times> uuid \<Rightarrow> event \<Rightarrow> bool" where
  "before_cursor c e \<longleftrightarrow> ev_created_at e < fst c \<or> ev_created_at e = fst c \<and> ev_id e < snd c"

definition list_events :: "(string \<Rightarrow> stamp result) \<Rightarrow> auth_context \<Rightarrow> int \<Rightarrow> string option \<Rightarrow>
    string option \<Rightarrow> db \<Rightarrow> event_detail list result" where
  "list_events fromisoformat ctx limit cursor event_type d =
     (let n = nat (clamp_limit limit);
          evs = tenant_events (ctx_tenant_id ctx) (truthy_str event_type) d
      in case truthy_str cursor of
           None \<Rightarrow> Inr (map event_detail_of (take n (newest_first evs)))
         | Some c \<Rightarrow>
             rbind (parse_cursor fromisoformat c) (\<lambda>(ts, i).
             rbind (bind_timestamp ts) (\<lambda>t.
               Inr (map event_detail_of (take n (newest_first (filter (before_cursor (t, i)) evs)))))))"

section \<open>Replaying an event\<close>

record replay_env =
  re_outbox_id :: uuid
  re_now :: datetime
  re_db_now :: datetime
  re_isoformat :: "datetime \<Rightarrow> string"

definition replay_payload :: "replay_env \<Rightarrow> uuid \<Rightarrow> event \<Rightarrow> (string \<times> json) list" where
  "replay_payload env tenant_id ev =
     event_payload (re_isoformat env) (re_now env) tenant_id ev @ [(''is_replay'', JBool True)]"

definition replay_row :: "replay_env \<Rightarrow> auth_context \<Rightarrow> event \<Rightarrow> outbox_event" where
  "replay_row env ctx ev =
     new_outbox (re_outbox_id env) (re_db_now env) ''event_replay'' ev (replay_payload env (ctx_tenant_id ctx) ev)"

text \<open>The status is written, with \<open>onupdate\<close> of \<open>updated_at\<close>, only if it changes.\<close>

definition mark_queued :: "replay_env \<Rightarrow> event \<Rightarrow> db \<Rightarrow> db" where
  "mark_queued env ev d =
     (if ev_status ev = event_status_value EV_QUEUED then d
      else modify_event (ev_id ev)
        (\<lambda>e. e\<lparr>ev_status := event_status_value EV_QUEUED, ev_updated_at := re_db_now env\<rparr>) d)"

definition replay_event :: "replay_env \<Rightarrow> uuid \<Rightarrow> auth_context \<Rightarrow> db \<Rightarrow>
    event_create_response result \<times> db" where
  "replay_event env event_id ctx d =
     (case get_event_row event_id d of
        None \<Rightarrow> (Inl (not_found ''event''), d)
      | Some ev \<Rightarrow>
          if ev_tenant_id ev \<noteq> ctx_tenant_id ctx then (Inl (not_found ''event''), d)
          else (case insert_outbox (replay_row env ctx ev) (mark_queued env ev d) of
                 Inl e \<Rightarrow> (Inl e, d)
               | Inr d2 \<Rightarrow> (Inr \<lparr>ers_event_id = ev_id ev, ers_status = ''queued''\<rparr>, d2)))"

section \<open>What a created event is\<close>

lemma truthy_str_Some_iff: "truthy_str x = Some k \<longleftrightarrow> x = Some k \<and> k \<noteq> []"
  by (auto simp: truthy_str_def split: option.splits list.splits)

lemma event_payload_fields [simp]:
  "dict_item (event_payload isof now t ev @ p) ''event_id'' = Inr (JStr (str_uuid (ev_id ev)))"
  "dict_item (event_payload isof now t ev @ p) ''tenant_id'' = Inr (JStr (str_uuid t))"
  "dict_item (event_payload isof now t ev @ p) ''type'' = Inr (JStr (ev_event_type ev))"
  "dict_get (event_payload isof now t ev @ p) ''target_endpoint_id'' = dict_get p ''target_endpoint_id''"
  by (simp_all add: event_payload_def dict_item_def dict_get_def)

text \<open>What the delivery engine reads from a payload that the API wrote.\<close>

lemma parse_event_payload:
  "parse_payload (event_payload isof now t ev @ p) =
     Inr (ev_id ev, t, JStr (ev_event_type ev), dict_get p ''target_endpoint_id'')"
  by (simp add: parse_payload_def json_uuid_def)

lemmas parse_event_payload_plain = parse_event_payload [where p = "[]", simplified]

lemma new_event_simps [simp]:
  "ev_id (new_event env body ctx) = ce_event_id env"
  "ev_tenant_id (new_event env body ctx) = ctx_tenant_id ctx"
  "ev_event_type (new_event env body ctx) = ecr_type body"
  "ev_payload (new_event env body ctx) = JObj (ecr_data body)"
  "ev_status (new_event env body ctx) = event_status_value EV_RECEIVED"
  by (simp_all add: new_event_def)

lemma new_outbox_simps [simp]:
  "ob_id (new_outbox i t a ev p) = i" "ob_event_id (new_outbox i t a ev p) = ev_id ev"
  "ob_payload (new_outbox i t a ev p) = p" "ob_attempts (new_outbox i t a ev p) = 0"
  "ob_status (new_outbox i t a ev p) = outbox_status_value OB_PENDING"
  by (simp_all add: new_outbox_def)

lemma create_rows_result:
  assumes "create_rows s env body ctx key d = Inr d'"
  shows "d' = d\<lparr>events := events d @ [new_event env body ctx],
      outbox_events := outbox_events d @
        [new_outbox (ce_outbox_id env) (ce_db_now env) ''event'' (new_event env body ctx)
           (event_payload (ce_isoformat env) (ce_now env) (ctx_tenant_id ctx) (new_event env body ctx))],
      idempotency_keys := idempotency_keys d @
        (case key of None \<Rightarrow> [] | Some k \<Rightarrow> [new_idempotency_key s env ctx k])\<rparr>"
    and "ce_event_id env \<notin> tab_keys ev_id (events d)"
proof -
  from assms obtain d1 d2 where
    1: "insert_event (new_event env body ctx) d = Inr d1" and
    2: "insert_outbox (new_outbox (ce_outbox_id env) (ce_db_now env) ''event'' (new_event env body ctx)
           (event_payload (ce_isoformat env) (ce_now env) (ctx_tenant_id ctx) (new_event env body ctx))) d1 = Inr d2" and
    3: "(case key of None \<Rightarrow> Inr d2
         | Some k \<Rightarrow> insert_idempotency_key (new_idempotency_key s env ctx k) d2) = Inr d'"
    by (auto simp: create_rows_def Let_def rbind_Inr_iff)
  show "ce_event_id env \<notin> tab_keys ev_id (events d)"
    using event_table.ins_fresh [OF 1] by simp
  show "d' = d\<lparr>events := events d @ [new_event env body ctx],
      outbox_events := outbox_events d @
        [new_outbox (ce_outbox_id env) (ce_db_now env) ''event'' (new_event env body ctx)
           (event_payload (ce_isoformat env) (ce_now env) (ctx_tenant_id ctx) (new_event env body ctx))],
      idempotency_keys := idempotency_keys d @
        (case key of None \<Rightarrow> [] | Some k \<Rightarrow> [new_idempotency_key s env ctx k])\<rparr>"
    using 3 insert_frame(1) [OF 1] insert_frame(6) [OF 2]
    by (auto dest!: insert_frame(5) split: option.splits)
qed

lemma db_ok_create_rows [db_ok_intros]:
  "create_rows s env body ctx key d = Inr d' \<Longrightarrow> db_ok d \<Longrightarrow> db_ok d'"
  unfolding create_rows_def Let_def rbind_Inr_iff
  by (cases key) (auto dest!: db_ok_insert_event db_ok_insert_outbox db_ok_insert_idempotency_key)

text \<open>The three ways \<open>create_event\<close> ends.\<close>

lemma found_idempotency_key:
  "find_idempotency_key ctx key d = Inr (Some row) \<Longrightarrow>
     \<exists>k. key = Some k \<and> filter (\<lambda>r. ik_tenant_id r = ctx_tenant_id ctx \<and> ik_key r = k) (idempotency_keys d) = [row]"
  by (cases key) (simp_all add: find_idempotency_key_def)

lemma create_event_cases:
  assumes "create_event s env body hdr ctx (d, ms) = (r, (d', ms'))"
  obtains
    (failed) e where "r = Inl e" "d' = d"
  | (known) k row where "truthy_str (hd_idempotency_key hdr) = Some k"
      "filter (\<lambda>r. ik_tenant_id r = ctx_tenant_id ctx \<and> ik_key r = k) (idempotency_keys d) = [row]"
      "r = Inr \<lparr>ers_event_id = ik_event_id row, ers_status = ''queued''\<rparr>" "d' = d"
  | (created) "create_rows s env body ctx (truthy_str (hd_idempotency_key hdr)) d = Inr d'"
      "r = Inr \<lparr>ers_event_id = ce_event_id env, ers_status = ''queued''\<rparr>"
  using assms unfolding create_event_def Let_def
  by atomize_elim (auto split: sum.splits if_splits option.splits dest!: found_idempotency_key)

text \<open>
  C4. Creating an event: an error leaves the database as it was. Otherwise the answer names either
  the event that the tenant's idempotency key already stands for, with nothing written, or a new event,
  and then the event (received, with the request's type and data) and exactly one pending outbox row are added
  together; the delivery engine reads that row's payload as this event of this tenant, for all subscribers.
\<close>

theorem create_event_outcome:
  assumes "create_event s env body hdr ctx (d, ms) = (r, (d', ms'))"
  shows "case r of
      Inl _ \<Rightarrow> d' = d
    | Inr rs \<Rightarrow>
        d' = d \<and> (\<exists>k row. hd_idempotency_key hdr = Some k \<and> row \<in> set (idempotency_keys d) \<and>
           ik_tenant_id row = ctx_tenant_id ctx \<and> ik_key row = k \<and> ers_event_id rs = ik_event_id row) \<or>
        get_event_row (ers_event_id rs) d = None \<and>
        (\<exists>ev ob. events d' = events d @ [ev] \<and> outbox_events d' = outbox_events d @ [ob] \<and>
           get_event_row (ers_event_id rs) d' = Some ev \<and>
           ev_tenant_id ev = ctx_tenant_id ctx \<and> ev_event_type ev = ecr_type body \<and>
           ev_payload ev = JObj (ecr_data body) \<and> ev_status ev = event_status_value EV_RECEIVED \<and>
           ob_event_id ob = ers_event_id rs \<and> ob_status ob = outbox_status_value OB_PENDING \<and>
           parse_payload (ob_payload ob) = Inr (ers_event_id rs, ctx_tenant_id ctx, JStr (ecr_type body), None))"
  using assms
proof (cases rule: create_event_cases)
  case (known k row)
  then have "row \<in> set (idempotency_keys d) \<and> ik_tenant_id row = ctx_tenant_id ctx \<and> ik_key row = k"
    by (blast dest: filter_Cons_mem)
  with known show ?thesis by (auto simp: truthy_str_Some_iff)
next
  case created
  note rows = create_rows_result [OF created(1)]
  then have "tab_get ev_id (ce_event_id env) (events d) = None" by (simp add: tab_get_None_iff)
  with rows created(2) show ?thesis
    by (simp add: get_event_row_def tab_get_append tab_get_Cons parse_event_payload_plain dict_get_def)
qed simp

text \<open>
  C5. A repeated request does not create a second event: once a key was accepted for a tenant, every
  later request of the tenant with that key, whatever its body and its time, gets the first
  event's identifier and writes nothing, as long as the key's row is in the database.
\<close>

theorem create_event_idempotent:
  assumes "create_event s env body hdr ctx (d, ms) = (Inr rs, (d', ms'))"
    "hd_idempotency_key hdr = Some k" "k \<noteq> []" "db_ok d''" "set (idempotency_keys d') \<subseteq> set (idempotency_keys d'')"
    "hd_idempotency_key hdr' = Some k" "ctx_tenant_id ctx' = ctx_tenant_id ctx"
    "content_length hdr' = Inr n" "n \<le> max_event_payload_bytes s'"
  shows "create_event s' env' body' hdr' ctx' (d'', ms'') =
     (Inr \<lparr>ers_event_id = ers_event_id rs, ers_status = ''queued''\<rparr>, (d'', ms''))"
proof -
  from assms(2,3) have key: "truthy_str (hd_idempotency_key hdr) = Some k" by (simp add: truthy_str_Some_iff)
  obtain row where row: "row \<in> set (idempotency_keys d')" "ik_tenant_id row = ctx_tenant_id ctx"
      "ik_key row = k" "ik_event_id row = ers_event_id rs"
    using assms(1)
  proof (cases rule: create_event_cases)
    case (known k' row)
    then have "row \<in> set (idempotency_keys d) \<and> ik_tenant_id row = ctx_tenant_id ctx \<and> ik_key row = k'"
      by (blast dest: filter_Cons_mem)
    with known key show ?thesis by (intro that [of row]) simp_all
  next
    case created
    from create_rows_result(1) [OF created(1)] key created(2) show ?thesis
      by (intro that [of "new_idempotency_key s env ctx k"]) (simp_all add: new_idempotency_key_def)
  qed simp
  from assms(4) have "distinct (map (\<lambda>k. (ik_tenant_id k, ik_key k)) (idempotency_keys d''))"
    by (simp add: db_ok_def keys_ok_def)
  from filter_unique [OF this, of row] row assms(5,7)
  have "filter (\<lambda>r. ik_tenant_id r = ctx_tenant_id ctx' \<and> ik_key r = k) (idempotency_keys d'') = [row]"
    by auto
  with assms(3,6,8,9) row(4) show ?thesis
    by (simp add: create_event_def Let_def find_idempotency_key_def truthy_str_Some_iff [THEN iffD2])
qed

definition sample_ctx :: auth_context where
  "sample_ctx = \<lparr>ctx_tenant_id = 1, ctx_api_key_id = 2, ctx_plan = ''free''\<rparr>"

definition sample_body :: event_create_request where
  "sample_body = \<lparr>ecr_type = ''order'', ecr_data = [(''n'', JInt 1)], ecr_source = None, ecr_entity_id = None,
     ecr_sequence = Some 7\<rparr>"

definition sample_headers :: create_headers where
  "sample_headers = \<lparr>hd_idempotency_key = Some ''key-1'', hd_content_length = None\<rparr>"

definition sample_create_env :: create_env where
  "sample_create_env = \<lparr>ce_event_id = 11, ce_outbox_id = 31, ce_key_id = 41, ce_now = 6, ce_key_now = 6,
     ce_db_now = 6, ce_isoformat = str_int\<rparr>"

lemmas sample_api_defs = sample_ctx_def sample_body_def sample_headers_def sample_create_env_def

lemma sample_created:
  "\<exists>d' ms'. create_event default_settings sample_create_env sample_body sample_headers sample_ctx (sample_db, []) =
     (Inr \<lparr>ers_event_id = 11, ers_status = ''queued''\<rparr>, (d', ms')) \<and> db_ok d'"
proof -
  have "\<exists>d'. create_rows default_settings sample_create_env sample_body sample_ctx (Some ''key-1'') sample_db = Inr d'"
    by (simp add: create_rows_def Let_def insert_defs new_event_def new_outbox_def new_idempotency_key_def
        sample_api_defs sample_defs fits_defs)
  then obtain d' where rows: "create_rows default_settings sample_create_env sample_body sample_ctx (Some ''key-1'') sample_db = Inr d'" ..
  then have "create_event default_settings sample_create_env sample_body sample_headers sample_ctx (sample_db, []) =
     (Inr \<lparr>ers_event_id = 11, ers_status = ''queued''\<rparr>, (d', [Events_ingested_total ''order'']))"
    by (simp add: create_event_def content_length_def truthy_str_def find_idempotency_key_def sample_headers_def)
       (simp add: sample_create_env_def sample_body_def sample_db_def)
  with db_ok_create_rows [OF rows sample_db_ok] show ?thesis by blast
qed

theorem create_event_outcome_witness:
  "\<exists>d' ms' ev ob. create_event default_settings sample_create_env sample_body sample_headers sample_ctx (sample_db, []) =
     (Inr \<lparr>ers_event_id = 11, ers_status = ''queued''\<rparr>, (d', ms')) \<and>
   events d' = events sample_db @ [ev] \<and> outbox_events d' = outbox_events sample_db @ [ob] \<and>
   parse_payload (ob_payload ob) = Inr (11, 1, JStr ''order'', None)"
proof -
  from sample_created obtain d' ms' where c:
    "create_event default_settings sample_create_env sample_body sample_headers sample_ctx (sample_db, []) =
     (Inr \<lparr>ers_event_id = 11, ers_status = ''queued''\<rparr>, (d', ms'))" by blast
  from create_event_outcome [OF c] obtain ev ob where
    "events d' = events sample_db @ [ev]" "outbox_events d' = outbox_events sample_db @ [ob]"
    "parse_payload (ob_payload ob) = Inr (11, 1, JStr ''order'', None)"
    by (auto simp: sample_db_def sample_ctx_def sample_body_def)
  with c show ?thesis by blast
qed

theorem create_event_idempotent_witness:
  "\<exists>d' ms'. create_event default_settings sample_create_env sample_body sample_headers sample_ctx (sample_db, []) =
     (Inr \<lparr>ers_event_id = 11, ers_status = ''queued''\<rparr>, (d', ms')) \<and>
   create_event default_settings (sample_create_env\<lparr>ce_event_id := 12\<rparr>) sample_body sample_headers sample_ctx (d', []) =
     (Inr \<lparr>ers_event_id = 11, ers_status = ''queued''\<rparr>, (d', []))"
proof -
  from sample_created obtain d' ms' where c:
    "create_event default_settings sample_create_env sample_body sample_headers sample_ctx (sample_db, []) =
     (Inr \<lparr>ers_event_id = 11, ers_status = ''queued''\<rparr>, (d', ms'))" "db_ok d'" by blast
  have "content_length sample_headers = Inr 0" "0 \<le> max_event_payload_bytes default_settings"
    by (simp_all add: content_length_def truthy_str_def sample_headers_def default_settings_def)
  from create_event_idempotent [where k = "''key-1''" and ctx' = sample_ctx, OF c(1) _ _ c(2) _ _ _ this] c(1)
  show ?thesis by (auto simp: sample_headers_def)
qed

section \<open>Paging\<close>

lemma before_cursor_iff: "before_cursor c e \<longleftrightarrow> event_key e < c"
  by (cases c) (auto simp: before_cursor_def event_key_def)

lemma filter_after_index:
  fixes f :: "'a \<Rightarrow> 'b::linorder"
  assumes "sorted_wrt (>) (map f xs)" "k < length xs"
  shows "filter (\<lambda>x. f x < f (xs ! k)) xs = drop (Suc k) xs"
proof -
  have xs: "xs = take k xs @ xs ! k # drop (Suc k) xs" using assms(2) by (rule id_take_nth_drop)
  with assms(1) have "sorted_wrt (\<lambda>x y. f x > f y) (take k xs @ xs ! k # drop (Suc k) xs)"
    by (simp add: sorted_wrt_map)
  then have "\<forall>x \<in> set (take k xs). \<not> f x < f (xs ! k)" "\<forall>x \<in> set (drop (Suc k) xs). f x < f (xs ! k)"
    by (auto simp: sorted_wrt_append)
  then show ?thesis by (subst (2) xs) (simp add: filter_empty_conv)
qed

lemma newest_first_sorted:
  assumes "distinct (map ev_id evs)"
  shows "sorted_wrt (>) (map event_key (newest_first evs))"
proof -
  from assms have "distinct (map event_key evs)"
    by (auto simp: distinct_map inj_on_def event_key_def)
  then have "distinct (map event_key (sort_key event_key evs))"
    by (simp add: distinct_map)
  then have "sorted_wrt (<) (map event_key (sort_key event_key evs))"
    by (simp add: strict_sorted_iff)
  then show ?thesis by (simp add: newest_first_def sorted_wrt_rev flip: rev_map)
qed

lemma newest_first_filter: "newest_first (filter P evs) = filter P (newest_first evs)"
  by (simp add: newest_first_def filter_sort flip: rev_filter)

lemma set_newest_first [simp]: "set (newest_first evs) = set evs"
  by (simp add: newest_first_def)

text \<open>
  The cursor a client makes from the last event of a page. Whether the answer's \<open>created_at\<close> carries a time zone depends
  on the type of the database's column: \<open>col\<close> is \<open>Naive\<close> or \<open>Aware\<close>.
\<close>

definition event_cursor :: "(stamp \<Rightarrow> string) \<Rightarrow> (datetime \<Rightarrow> stamp) \<Rightarrow> event_detail \<Rightarrow> string" where
  "event_cursor isof col e = isof (col (ed_created_at e)) @ ''|'' @ str_uuid (ed_id e)"

lemma truthy_event_cursor [simp]: "truthy_str (Some (event_cursor isof col e)) = Some (event_cursor isof col e)"
  by (simp add: truthy_str_Some_iff event_cursor_def)

text \<open>A pair of conversions like \<open>isoformat\<close> and \<open>fromisoformat\<close>: they keep the time and whether there is a time zone.\<close>

definition iso_codec :: "(stamp \<Rightarrow> string) \<Rightarrow> (string \<Rightarrow> stamp result) \<Rightarrow> bool" where
  "iso_codec isof fromiso \<longleftrightarrow> (\<forall>t. fromiso (isof t) = Inr t \<and> CHR ''|'' \<notin> set (isof t))"

lemma parse_event_cursor:
  assumes "iso_codec isof fromiso"
  shows "parse_cursor fromiso (event_cursor isof col e) = Inr (col (ed_created_at e), ed_id e)"
  using assms partition1_append [of "CHR ''|''" "isof (col (ed_created_at e))" "str_uuid (ed_id e)"]
  by (simp add: iso_codec_def parse_cursor_def event_cursor_def)

text \<open>With a column that returns times with a time zone no cursor of an event can be used.\<close>

lemma aware_cursor_fails:
  assumes "iso_codec isof fromiso"
  shows "\<exists>m. list_events fromiso ctx limit (Some (event_cursor isof Aware e)) et d = Inl (DataError m)"
  by (simp add: list_events_def Let_def parse_event_cursor [OF assms] bind_timestamp_def)

text \<open>The page that starts after the first \<open>k\<close> events.\<close>

lemma list_events_page:
  assumes "db_ok d" "iso_codec isof fromiso"
    "evs = newest_first (tenant_events (ctx_tenant_id ctx) (truthy_str et) d)" "k \<le> length evs"
  shows "list_events fromiso ctx limit
      (case k of 0 \<Rightarrow> None | Suc j \<Rightarrow> Some (event_cursor isof Naive (event_detail_of (evs ! j)))) et d =
    Inr (map event_detail_of (take (nat (clamp_limit limit)) (drop k evs)))"
proof (cases k)
  case (Suc j)
  from assms(1) have "distinct (map ev_id (tenant_events (ctx_tenant_id ctx) (truthy_str et) d))"
    by (simp add: tenant_events_def db_ok_def keys_ok_def distinct_map_filter)
  from newest_first_sorted [OF this] assms(3,4) Suc
  have "filter (before_cursor (event_key (evs ! j))) evs = drop k evs"
    by (simp add: before_cursor_iff [abs_def] filter_after_index)
  with assms(2,3) Suc show ?thesis
    by (simp add: list_events_def Let_def parse_event_cursor bind_timestamp_def event_detail_of_def event_key_def newest_first_filter)
qed (simp add: assms(3) list_events_def Let_def truthy_str_def)

text \<open>A client that reads page after page until one is empty; \<open>n\<close> bounds the requests.\<close>

fun follow_cursors :: "(string option \<Rightarrow> event_detail list result) \<Rightarrow> (event_detail \<Rightarrow> string) \<Rightarrow> nat \<Rightarrow>
    string option \<Rightarrow> event_detail list" where
  "follow_cursors page cur 0 c = []"
| "follow_cursors page cur (Suc n) c =
     (case page c of
        Inl _ \<Rightarrow> []
      | Inr es \<Rightarrow> if es = [] then [] else es @ follow_cursors page cur n (Some (cur (last es))))"

lemma follow_from:
  assumes "db_ok d" "iso_codec isof fromiso"
    "evs = newest_first (tenant_events (ctx_tenant_id ctx) (truthy_str et) d)" "k \<le> length evs"
    "length evs - k < n"
  shows "follow_cursors (\<lambda>c. list_events fromiso ctx limit c et d) (event_cursor isof Naive) n
      (case k of 0 \<Rightarrow> None | Suc j \<Rightarrow> Some (event_cursor isof Naive (event_detail_of (evs ! j)))) =
    map event_detail_of (drop k evs)"
  using assms(4,5)
proof (induction n arbitrary: k)
  case (Suc n)
  let ?m = "nat (clamp_limit limit)"
  have m: "0 < ?m" by (simp add: clamp_limit_def)
  note page = list_events_page [OF assms(1-3) Suc.prems(1), of limit]
  show ?case
  proof (cases "k = length evs")
    case True
    with page show ?thesis by simp
  next
    case False
    with Suc.prems(1) have k: "k < length evs" by simp
    define j where "j = min (k + ?m) (length evs)"
    with k m have j: "k < j" "j \<le> length evs" by auto
    have part: "take ?m (drop k evs) = take (j - k) (drop k evs)"
      by (simp add: j_def min_def)
    from j have last: "last (take (j - k) (drop k evs)) = evs ! (j - 1)"
      by (simp add: last_conv_nth)
    from j Suc.prems have "length evs - j < n" by linarith
    from Suc.IH [OF j(2) this] j have "follow_cursors (\<lambda>c. list_events fromiso ctx limit c et d) (event_cursor isof Naive) n
        (Some (event_cursor isof Naive (event_detail_of (evs ! (j - 1))))) = map event_detail_of (drop j evs)"
      by (cases j) simp_all
    moreover from j have "take (j - k) (drop k evs) @ drop j evs = drop k evs"
      by (metis append_take_drop_id drop_drop le_add_diff_inverse2 less_imp_le)
    ultimately show ?thesis
      using page part last j k
      by (simp add: last_map flip: map_append)
  qed
qed simp

text \<open>
  C29. Over the columns that the models declare, whose times have no time zone: listing events page by page, each page asked for with
  the cursor of the previous page's last event, returns every event of the tenant (of the asked type) exactly once, newest first, and nothing of another tenant;
  no page has more than 200 events, and the client stops after at most one request per event and one more.
\<close>

theorem paging_is_exact:
  assumes "db_ok d" "iso_codec isof fromiso"
    "es = follow_cursors (\<lambda>c. list_events fromiso ctx limit c et d) (event_cursor isof Naive) (Suc (length (events d))) None"
  shows "set es = event_detail_of ` {e \<in> set (events d). ev_tenant_id e = ctx_tenant_id ctx \<and>
       (\<forall>t. truthy_str et = Some t \<longrightarrow> ev_event_type e = t)} \<and>
    distinct (map ed_id es) \<and> sorted_wrt (>) (map (\<lambda>e. (ed_created_at e, ed_id e)) es) \<and>
    (\<forall>c page. list_events fromiso ctx limit c et d = Inr page \<longrightarrow> length page \<le> 200)"
proof -
  define evs where "evs = newest_first (tenant_events (ctx_tenant_id ctx) (truthy_str et) d)"
  have ids: "distinct (map ev_id (tenant_events (ctx_tenant_id ctx) (truthy_str et) d))"
    using assms(1) by (simp add: tenant_events_def db_ok_def keys_ok_def distinct_map_filter)
  have "length evs < Suc (length (events d))"
    by (simp add: evs_def newest_first_def tenant_events_def less_Suc_eq_le)
  with follow_from [OF assms(1,2) evs_def, where k = 0 and n = "Suc (length (events d))" and limit = limit] assms(3)
  have es: "es = map event_detail_of evs" by simp
  have "distinct (map ev_id evs)" using ids by (simp add: evs_def newest_first_def distinct_map)
  moreover have "map ed_id es = map ev_id evs" "map (\<lambda>e. (ed_created_at e, ed_id e)) es = map event_key evs"
    by (simp_all add: es event_detail_of_def event_key_def)
  moreover have "set es = event_detail_of ` {e \<in> set (events d). ev_tenant_id e = ctx_tenant_id ctx \<and>
       (\<forall>t. truthy_str et = Some t \<longrightarrow> ev_event_type e = t)}"
    by (auto simp: es evs_def tenant_events_def split: option.splits)
  moreover have "length page \<le> 200" if "list_events fromiso ctx limit c et d = Inr page" for c page
    using that by (auto simp: list_events_def Let_def clamp_limit_def rbind_Inr_iff split: option.splits)
  ultimately show ?thesis using newest_first_sorted [OF ids] by (simp add: evs_def)
qed

text \<open>A codec: a letter for the time zone and the number.\<close>

definition stamp_text :: "stamp \<Rightarrow> string" where
  "stamp_text ts = (case ts of Naive t \<Rightarrow> CHR ''n'' # str_int t | Aware t \<Rightarrow> CHR ''a'' # str_int t)"

definition text_stamp :: "string \<Rightarrow> stamp result" where
  "text_stamp s =
     (case s of
        c # cs \<Rightarrow>
          (case py_int 10 cs of
             Some t \<Rightarrow> Inr (if c = CHR ''n'' then Naive t else Aware t)
           | None \<Rightarrow> Inl (ValueError ''Invalid isoformat string''))
      | [] \<Rightarrow> Inl (ValueError ''Invalid isoformat string''))"

lemma stamp_codec: "iso_codec stamp_text text_stamp"
proof -
  have "text_stamp (stamp_text t) = Inr t \<and> CHR ''|'' \<notin> set (stamp_text t)" for t
    by (cases t) (simp_all add: stamp_text_def text_stamp_def str_int_not_mem)
  then show ?thesis by (simp add: iso_codec_def)
qed

theorem paging_is_exact_witness:
  "set (follow_cursors (\<lambda>c. list_events text_stamp sample_ctx 1 c None sample_db) (event_cursor stamp_text Naive) 2 None) =
     {event_detail_of sample_event}"
proof -
  have one: "{e \<in> set (events sample_db). ev_tenant_id e = ctx_tenant_id sample_ctx \<and>
      (\<forall>t. truthy_str None = Some t \<longrightarrow> ev_event_type e = t)} = {sample_event}"
    by (auto simp: sample_db_def sample_event_def sample_ctx_def truthy_str_def)
  have two: "Suc (length (events sample_db)) = 2" by (simp add: sample_db_def)
  show ?thesis
    using paging_is_exact [OF sample_db_ok stamp_codec refl, of sample_ctx 1 None, THEN conjunct1, unfolded one two]
    by (simp only: image_insert image_empty)
qed

section \<open>Replay and integrity\<close>

lemma db_ok_create_event:
  "create_event s env body hdr ctx (d, ms) = (r, (d', ms')) \<Longrightarrow> db_ok d \<Longrightarrow> db_ok d'"
  by (erule create_event_cases) (auto dest: db_ok_create_rows)

lemma mark_queued_simps:
  assumes "get_event_row i d = Some ev"
  shows "map ev_id (events (mark_queued env ev d)) = map ev_id (events d)"
    "outbox_events (mark_queued env ev d) = outbox_events d"
    "\<exists>ev'. get_event_row i (mark_queued env ev d) = Some ev' \<and> ev_status ev' = event_status_value EV_QUEUED"
proof -
  from assms have "ev_id ev = i" by (rule get_row_id)
  with assms show "map ev_id (events (mark_queued env ev d)) = map ev_id (events d)"
    "outbox_events (mark_queued env ev d) = outbox_events d"
    "\<exists>ev'. get_event_row i (mark_queued env ev d) = Some ev' \<and> ev_status ev' = event_status_value EV_QUEUED"
    by (simp_all add: mark_queued_def modify_event_def get_event_row_def tab_get_upd)
qed

lemma db_ok_mark_queued [db_ok_intros]: "db_ok d \<Longrightarrow> db_ok (mark_queued env ev d)"
  by (simp add: mark_queued_def db_ok_modify_event)

lemma db_ok_replay_event: "replay_event env i ctx d = (r, d') \<Longrightarrow> db_ok d \<Longrightarrow> db_ok d'"
  by (auto simp: replay_event_def dest: db_ok_insert_outbox [OF _ db_ok_mark_queued]
      split: option.splits if_splits sum.splits)

text \<open>
  Replaying an event of the tenant adds one pending outbox row for the same event, which the delivery
  engine reads as that event for all its subscribers, and marks the event queued; no second event
  appears. A replay of an event that is not there or of another tenant is answered 404 and changes nothing.
\<close>

lemma replay_event_outcome:
  assumes "replay_event env event_id ctx d = (r, d')"
  shows "case get_event_row event_id d of
      Some ev \<Rightarrow>
        if ev_tenant_id ev = ctx_tenant_id ctx then
          (case r of
             Inl _ \<Rightarrow> d' = d
           | Inr rs \<Rightarrow> ers_event_id rs = event_id \<and> map ev_id (events d') = map ev_id (events d) \<and>
               (\<exists>ev'. get_event_row event_id d' = Some ev' \<and> ev_status ev' = event_status_value EV_QUEUED) \<and>
               (\<exists>ob. outbox_events d' = outbox_events d @ [ob] \<and> ob_status ob = outbox_status_value OB_PENDING \<and>
                  parse_payload (ob_payload ob) = Inr (event_id, ctx_tenant_id ctx, JStr (ev_event_type ev), None)))
        else r = Inl (not_found ''event'') \<and> d' = d
    | None \<Rightarrow> r = Inl (not_found ''event'') \<and> d' = d"
proof (cases "get_event_row event_id d")
  case None
  with assms show ?thesis by (simp add: replay_event_def)
next
  case (Some ev)
  then have id: "ev_id ev = event_id" by (rule get_row_id)
  show ?thesis
  proof (cases "ev_tenant_id ev = ctx_tenant_id ctx")
    case False
    with assms Some show ?thesis by (simp add: replay_event_def)
  next
    case True
    show ?thesis
    proof (cases "insert_outbox (replay_row env ctx ev) (mark_queued env ev d)")
      case (Inl e)
      with assms Some True show ?thesis by (auto simp: replay_event_def)
    next
      case (Inr d2)
      with assms Some True have r: "r = Inr \<lparr>ers_event_id = ev_id ev, ers_status = ''queued''\<rparr>" and "d' = d2"
        by (auto simp: replay_event_def)
      with insert_frame(6) [OF Inr] have d': "d' = (mark_queued env ev d)\<lparr>outbox_events :=
          outbox_events (mark_queued env ev d) @ [replay_row env ctx ev]\<rparr>" by simp
      have ob: "ob_status (replay_row env ctx ev) = outbox_status_value OB_PENDING"
        "parse_payload (ob_payload (replay_row env ctx ev)) = Inr (event_id, ctx_tenant_id ctx, JStr (ev_event_type ev), None)"
        by (simp_all add: replay_row_def replay_payload_def parse_event_payload dict_get_def id)
      from mark_queued_simps(1,2) [OF Some, of env] mark_queued_simps(3) [OF Some, of env] ob r True Some id d'
      show ?thesis by (simp add: get_event_row_def del: event_status_value.simps outbox_status_value.simps)
    qed
  qed
qed

definition sample_replay_env :: replay_env where
  "sample_replay_env = \<lparr>re_outbox_id = 32, re_now = 9, re_db_now = 9, re_isoformat = str_int\<rparr>"

text \<open>An answer that names an event not seen before comes from writing it.\<close>

lemma create_event_new:
  assumes "db_ok d" "create_event s env body hdr ctx (d, ms) = (Inr rs, (d', ms'))"
    "get_event_row (ers_event_id rs) d = None"
  shows "create_rows s env body ctx (truthy_str (hd_idempotency_key hdr)) d = Inr d' \<and>
    ers_event_id rs = ce_event_id env"
  using assms(2)
proof (cases rule: create_event_cases)
  case (known k row)
  then have "row \<in> set (idempotency_keys d)" by (blast dest: filter_Cons_mem)
  with assms(1) have "ik_event_id row \<in> tab_keys ev_id (events d)" by (auto simp: db_ok_def refs_ok_def)
  with assms(3) known(3) show ?thesis by (simp add: get_event_row_def tab_get_None_iff)
qed simp_all

end
