(* ===== verification/Secrets.thy ===== *)
theory Secrets
  imports Sha256 Settings
begin

text \<open>
  Signing secrets at rest: \<open>_encrypt_secret\<close> and \<open>decrypt_secret\<close> of
  \<open>apps/api/eventmesh_api/routers/endpoints.py\<close> and \<open>_decrypt_secret\<close> of
  \<open>apps/worker/eventmesh_worker/main.py\<close>. Fernet is a pair of functions on a key and bytes; what the
  code relies on is that decryption under the same key undoes encryption and that a token is ASCII.
\<close>

section \<open>Base64 and UTF-8 decoding\<close>

definition b64_char :: "nat \<Rightarrow> char" where
  "b64_char k = ''ABCDEFGHIJKLMNOPQRSTUVWXYZabcdefghijklmnopqrstuvwxyz0123456789-_'' ! k"

fun urlsafe_b64encode :: "bytes \<Rightarrow> string" where
  "urlsafe_b64encode [] = []"
| "urlsafe_b64encode [a] =
     [b64_char (unat a div 4), b64_char (unat a mod 4 * 16), CHR ''='', CHR ''='']"
| "urlsafe_b64encode [a, b] =
     [b64_char (unat a div 4), b64_char (unat a mod 4 * 16 + unat b div 16),
      b64_char (unat b mod 16 * 4), CHR ''='']"
| "urlsafe_b64encode (a # b # c # bs) =
     [b64_char (unat a div 4), b64_char (unat a mod 4 * 16 + unat b div 16),
      b64_char (unat b mod 16 * 4 + unat c div 64), b64_char (unat c mod 64)] @ urlsafe_b64encode bs"

text \<open>
  \<open>bytes.decode()\<close> as far as the model's characters go, code points below 256; a sequence for a
  higher code point is treated like an invalid one.
\<close>

fun decode :: "bytes \<Rightarrow> string result" where
  "decode [] = Inr []"
| "decode [b] = (if unat b < 128 then Inr [char_of (unat b)] else Inl (ValueError ''invalid start byte''))"
| "decode (b # c # bs) =
     (if unat b < 128 then rbind (decode (c # bs)) (\<lambda>t. Inr (char_of (unat b) # t))
      else if unat b \<in> {194, 195} \<and> 128 \<le> unat c \<and> unat c < 192
      then rbind (decode bs) (\<lambda>t. Inr (char_of ((unat b - 192) * 64 + (unat c - 128)) # t))
      else Inl (ValueError ''invalid start byte''))"

section \<open>Encryption of the secret\<close>

record fernet =
  fn_encrypt :: "nat \<Rightarrow> string \<Rightarrow> bytes \<Rightarrow> bytes"
  fn_decrypt :: "string \<Rightarrow> bytes \<Rightarrow> bytes result"

text \<open>The first argument of \<open>fn_encrypt\<close> is its source of randomness and time.\<close>

definition fernet_key :: "settings \<Rightarrow> string" where
  "fernet_key s = urlsafe_b64encode (sha256 (encode (secret_encryption_key s)))"

definition encrypt_secret :: "fernet \<Rightarrow> settings \<Rightarrow> nat \<Rightarrow> string \<Rightarrow> string result" where
  "encrypt_secret F s seed raw = decode (fn_encrypt F seed (fernet_key s) (encode raw))"

definition decrypt_secret :: "fernet \<Rightarrow> settings \<Rightarrow> string \<Rightarrow> string result" where
  "decrypt_secret F s token = rbind (fn_decrypt F (fernet_key s) (encode token)) decode"

definition worker_decrypt_secret :: "fernet \<Rightarrow> settings \<Rightarrow> string \<Rightarrow> string result" where
  "worker_decrypt_secret F s token = rbind (fn_decrypt F (fernet_key s) (encode token)) decode"

definition fernet_laws :: "fernet \<Rightarrow> bool" where
  "fernet_laws F \<longleftrightarrow>
     (\<forall>seed k m. fn_decrypt F k (fn_encrypt F seed k m) = Inr m) \<and>
     (\<forall>seed k m. list_all (\<lambda>b. unat b < 128) (fn_encrypt F seed k m))"

section \<open>Round trips\<close>

lemma decode_low: "unat b < 128 \<Longrightarrow> decode (b # bs) = rbind (decode bs) (\<lambda>t. Inr (char_of (unat b) # t))"
  by (cases bs) simp_all

lemma unat_byte: "k < 256 \<Longrightarrow> unat (word_of_nat k :: byte) = k"
  by (simp add: unat_of_nat)

lemma decode_utf8_char: "decode (utf8_char c @ bs) = rbind (decode bs) (\<lambda>t. Inr (c # t))"
proof (cases "ord c < 128")
  case True
  then show ?thesis using decode_low [of "word_of_nat (ord c)" bs]
    by (simp add: utf8_char_def unat_byte) (simp add: ord_def)
next
  case False
  have lt: "ord c < 256" by (simp add: ord_def)
  define h l where "h = ord c div 64" and "l = ord c mod 64"
  define b1 b2 :: byte where "b1 = word_of_nat (192 + h)" and "b2 = word_of_nat (128 + l)"
  have hl: "h \<in> {2, 3}" "l < 64" "h * 64 + l = ord c"
    using False lt by (auto simp: h_def l_def)
  then have "192 + h < 256" "128 + l < 256" by auto
  from this [THEN unat_byte] have "unat b1 = 192 + h" "unat b2 = 128 + l"
    by (simp_all only: b1_def b2_def)
  moreover have "utf8_char c = [b1, b2]" using False by (simp add: utf8_char_def Let_def b1_def b2_def h_def l_def)
  moreover have "char_of (h * 64 + l) = c" by (simp add: hl(3)) (simp add: ord_def)
  ultimately show ?thesis using hl(1,2) by auto
qed

lemma decode_encode [simp]: "decode (encode s) = Inr s"
  by (induction s) (simp_all add: encode_def decode_utf8_char)

lemma encode_decode_ascii:
  "list_all (\<lambda>b. unat b < 128) bs \<Longrightarrow> \<exists>t. decode bs = Inr t \<and> encode t = bs"
proof (induction bs)
  case (Cons b bs)
  then obtain t where t: "decode bs = Inr t" "encode t = bs" by auto
  from Cons.prems have b: "unat b < 128" by simp
  then have "ord (char_of (unat b)) = unat b" by (simp add: ord_def)
  with b t show ?case
    by (auto simp: decode_low encode_def utf8_char_def)
qed (simp add: encode_def)

lemma secret_round_trip:
  assumes "fernet_laws F"
  shows "\<exists>token. encrypt_secret F s seed raw = Inr token \<and> decrypt_secret F s token = Inr raw \<and>
     worker_decrypt_secret F s token = Inr raw"
proof -
  from assms have "list_all (\<lambda>b. unat b < 128) (fn_encrypt F seed (fernet_key s) (encode raw))"
    by (simp add: fernet_laws_def)
  from encode_decode_ascii [OF this] obtain t where
    "decode (fn_encrypt F seed (fernet_key s) (encode raw)) = Inr t"
    "encode t = fn_encrypt F seed (fernet_key s) (encode raw)" by blast
  with assms show ?thesis
    by (simp add: encrypt_secret_def decrypt_secret_def worker_decrypt_secret_def fernet_laws_def)
qed

section \<open>An instance\<close>

text \<open>A reversible ASCII coding in place of the cipher, for the instances of the properties: two bytes per byte.\<close>

fun join_nibbles :: "bytes \<Rightarrow> bytes" where
  "join_nibbles (a # b # bs) = word_of_nat (16 * unat a + unat b) # join_nibbles bs"
| "join_nibbles bs = []"

definition sample_fernet :: fernet where
  "sample_fernet =
     \<lparr>fn_encrypt = (\<lambda>_ _ m. concat (map (\<lambda>b. [word_of_nat (unat b div 16), word_of_nat (unat b mod 16)]) m)),
      fn_decrypt = (\<lambda>_ t. Inr (join_nibbles t))\<rparr>"

lemma nibbles: "unat (word_of_nat (unat (b::byte) div 16) :: byte) = unat b div 16"
  "unat (word_of_nat (unat b mod 16) :: byte) = unat b mod 16"
  by (rule unat_byte, use unsigned_less [of b, where 'a = nat] in simp)+

lemma sample_fernet_laws: "fernet_laws sample_fernet"
proof -
  have "join_nibbles (concat (map (\<lambda>b. [word_of_nat (unat b div 16), word_of_nat (unat b mod 16)]) m)) = m" for m :: bytes
    by (induction m) (simp_all add: nibbles)
  moreover have "unat b div 16 < 128" for b :: byte
    using unsigned_less [of b, where 'a = nat] by simp
  ultimately show ?thesis
    by (auto simp: fernet_laws_def sample_fernet_def list_all_iff nibbles)
qed

end
