(* ===== verification/Api_Endpoints.thy ===== *)
theory Api_Endpoints
  imports Api_Events Secrets
begin

text \<open>
  The endpoints router, \<open>apps/api/eventmesh_api/routers/endpoints.py\<close>, with its schemas. A
  request's URL is the text pydantic prints for it. The handlers run over the committed database
  and leave it unchanged when they raise, because the session is rolled back.
\<close>

section \<open>Schemas\<close>

record endpoint_create_request =
  ncr_url :: string
  ncr_description :: "string option"
  ncr_events :: "string list"
  ncr_timeout_ms :: int
  ncr_max_retries :: int

text \<open>A request that gives only the URL.\<close>

definition endpoint_create_default :: "string \<Rightarrow> endpoint_create_request" where
  "endpoint_create_default url =
     \<lparr>ncr_url = url, ncr_description = None, ncr_events = [], ncr_timeout_ms = 10000, ncr_max_retries = 6\<rparr>"

record endpoint_update_request =
  nur_url :: "string option"
  nur_description :: "string option"
  nur_events :: "string list option"
  nur_status :: "string option"
  nur_timeout_ms :: "int option"
  nur_max_retries :: "int option"

record endpoint_detail =
  nd_id :: uuid
  nd_url :: string
  nd_description :: "string option"
  nd_status :: string
  nd_circuit_state :: string
  nd_timeout_ms :: int
  nd_max_retries :: int
  nd_events :: "string list"
  nd_created_at :: datetime

record endpoint_create_response = endpoint_detail +
  nd_signing_secret :: string

section \<open>Handlers\<close>

text \<open>The subscriptions come in an order the database chooses.\<close>

definition subscribed_types :: "uuid \<Rightarrow> db \<Rightarrow> string list" where
  "subscribed_types i d = map sub_event_type (filter (\<lambda>sb. sub_endpoint_id sb = i) (subscriptions d))"

definition to_detail :: "(string list \<Rightarrow> string list) \<Rightarrow> endpoint \<Rightarrow> db \<Rightarrow> endpoint_detail" where
  "to_detail scan ep d =
     \<lparr>nd_id = ep_id ep, nd_url = ep_url ep, nd_description = ep_description ep, nd_status = ep_status ep,
      nd_circuit_state = ep_circuit_state ep, nd_timeout_ms = ep_timeout_ms ep,
      nd_max_retries = ep_max_retries ep, nd_events = scan (subscribed_types (ep_id ep) d),
      nd_created_at = ep_created_at ep\<rparr>"

text \<open>\<open>validate_webhook_url\<close> with SSRFValidationError turned into 400.\<close>

definition checked_url :: "net_env \<Rightarrow> settings \<Rightarrow> string \<Rightarrow> unit result" where
  "checked_url net s url =
     (case validate_webhook_url net url (max_endpoint_url_length s) of
        Inl (SSRFValidationError m) \<Rightarrow> Inl (HTTPException 400 ''INVALID_URL'' m)
      | r \<Rightarrow> r)"

fun insert_subscriptions :: "uuid \<Rightarrow> string list \<Rightarrow> db \<Rightarrow> db result" where
  "insert_subscriptions i [] d = Inr d"
| "insert_subscriptions i (t # ts) d =
     rbind (insert_subscription \<lparr>sub_endpoint_id = i, sub_event_type = t\<rparr> d) (insert_subscriptions i ts)"

record endpoint_env =
  ne_net :: net_env
  ne_new_id :: uuid
  ne_token :: string
  ne_seed :: nat
  ne_db_now :: datetime
  ne_scan :: "string list \<Rightarrow> string list"

definition new_endpoint :: "endpoint_env \<Rightarrow> string \<Rightarrow> endpoint_create_request \<Rightarrow> auth_context \<Rightarrow> endpoint" where
  "new_endpoint env token body ctx =
     \<lparr>ep_id = ne_new_id env, ep_tenant_id = ctx_tenant_id ctx, ep_url = ncr_url body,
      ep_description = ncr_description body, ep_secret_encrypted = token,
      ep_status = endpoint_status_value EP_ACTIVE, ep_timeout_ms = ncr_timeout_ms body,
      ep_max_retries = ncr_max_retries body, ep_circuit_state = circuit_state_value CLOSED,
      ep_created_at = ne_db_now env, ep_updated_at = ne_db_now env\<rparr>"

definition raw_secret :: "endpoint_env \<Rightarrow> string" where
  "raw_secret env = ''whsec_'' @ ne_token env"

definition create_endpoint :: "fernet \<Rightarrow> settings \<Rightarrow> endpoint_env \<Rightarrow> endpoint_create_request \<Rightarrow> auth_context \<Rightarrow> db \<Rightarrow>
    endpoint_create_response result \<times> db" where
  "create_endpoint F s env body ctx d =
     (case rbind (checked_url (ne_net env) s (ncr_url body)) (\<lambda>_.
           rbind (encrypt_secret F s (ne_seed env) (raw_secret env)) (\<lambda>token.
           rbind (insert_endpoint (new_endpoint env token body ctx) d) (\<lambda>d1.
           rbind (insert_subscriptions (ne_new_id env) (ncr_events body) d1) (\<lambda>d2.
             Inr (new_endpoint env token body ctx, d2))))) of
        Inl e \<Rightarrow> (Inl e, d)
      | Inr (ep, d2) \<Rightarrow>
          (Inr (endpoint_detail.extend (to_detail (ne_scan env) ep d2)
                  (endpoint_create_response.fields (raw_secret env))), d2))"

definition tenant_endpoint :: "uuid \<Rightarrow> auth_context \<Rightarrow> db \<Rightarrow> endpoint result" where
  "tenant_endpoint i ctx d =
     (case get_endpoint i d of
        None \<Rightarrow> Inl (not_found ''endpoint'')
      | Some ep \<Rightarrow> if ep_tenant_id ep \<noteq> ctx_tenant_id ctx then Inl (not_found ''endpoint'') else Inr ep)"

definition list_endpoints :: "(endpoint list \<Rightarrow> endpoint list) \<Rightarrow> (string list \<Rightarrow> string list) \<Rightarrow> auth_context \<Rightarrow> db \<Rightarrow>
    endpoint_detail list" where
  "list_endpoints scan_eps scan ctx d =
     map (\<lambda>ep. to_detail scan ep d)
       (scan_eps (filter (\<lambda>ep. ep_tenant_id ep = ctx_tenant_id ctx) (endpoints d)))"

definition api_get_endpoint :: "(string list \<Rightarrow> string list) \<Rightarrow> uuid \<Rightarrow> auth_context \<Rightarrow> db \<Rightarrow> endpoint_detail result" where
  "api_get_endpoint scan i ctx d = rbind (tenant_endpoint i ctx d) (\<lambda>ep. Inr (to_detail scan ep d))"

text \<open>The columns \<open>update_endpoint\<close> sets; the URL has been checked before it is set.\<close>

definition patch_endpoint :: "endpoint_update_request \<Rightarrow> endpoint \<Rightarrow> endpoint" where
  "patch_endpoint body ep =
     ep\<lparr>ep_url := (case nur_url body of None \<Rightarrow> ep_url ep | Some u \<Rightarrow> u),
        ep_description := (case nur_description body of None \<Rightarrow> ep_description ep | Some t \<Rightarrow> Some t),
        ep_status := (case nur_status body of None \<Rightarrow> ep_status ep | Some t \<Rightarrow> t),
        ep_timeout_ms := (case nur_timeout_ms body of None \<Rightarrow> ep_timeout_ms ep | Some n \<Rightarrow> n),
        ep_max_retries := (case nur_max_retries body of None \<Rightarrow> ep_max_retries ep | Some n \<Rightarrow> n)\<rparr>"

text \<open>
  The UPDATE at flush: none if no column changed; the new values must fit their columns, and
  \<open>onupdate\<close> sets \<open>updated_at\<close>.
\<close>

definition flush_endpoint :: "datetime \<Rightarrow> endpoint \<Rightarrow> endpoint \<Rightarrow> db \<Rightarrow> db result" where
  "flush_endpoint db_now old new d =
     (if new = old then Inr d
      else guard (fits 30 (ep_status new) \<and> fits_int 32 (ep_timeout_ms new) \<and> fits_int 32 (ep_max_retries new))
        (DataError ''endpoints'')
        (Inr (modify_endpoint (ep_id old) (\<lambda>_. new\<lparr>ep_updated_at := db_now\<rparr>) d)))"

definition replace_subscriptions :: "uuid \<Rightarrow> string list option \<Rightarrow> db \<Rightarrow> db result" where
  "replace_subscriptions i evs d =
     (case evs of None \<Rightarrow> Inr d | Some ts \<Rightarrow> insert_subscriptions i ts (delete_subscriptions_of i d))"

definition update_endpoint :: "settings \<Rightarrow> endpoint_env \<Rightarrow> uuid \<Rightarrow> endpoint_update_request \<Rightarrow> auth_context \<Rightarrow> db \<Rightarrow>
    endpoint_detail result \<times> db" where
  "update_endpoint s env i body ctx d =
     (case rbind (tenant_endpoint i ctx d) (\<lambda>ep.
           rbind (case nur_url body of None \<Rightarrow> Inr () | Some u \<Rightarrow> checked_url (ne_net env) s u) (\<lambda>_.
           rbind (flush_endpoint (ne_db_now env) ep (patch_endpoint body ep) d) (\<lambda>d1.
           rbind (replace_subscriptions i (nur_events body) d1) (\<lambda>d2.
             Inr (patch_endpoint body ep, d2))))) of
        Inl e \<Rightarrow> (Inl e, d)
      | Inr (ep, d2) \<Rightarrow> (Inr (to_detail (ne_scan env) ep d2), d2))"

text \<open>\<open>session.delete\<close> removes the subscriptions with the endpoint (the relationship's cascade).\<close>

definition delete_endpoint :: "uuid \<Rightarrow> auth_context \<Rightarrow> db \<Rightarrow> unit result \<times> db" where
  "delete_endpoint i ctx d =
     (case rbind (tenant_endpoint i ctx d) (\<lambda>ep.
           delete_endpoint_row (ep_id ep) (delete_subscriptions_of (ep_id ep) d)) of
        Inl e \<Rightarrow> (Inl e, d)
      | Inr d2 \<Rightarrow> (Inr (), d2))"

section \<open>Lemmas\<close>

lemma checked_url_Inr [simp]:
  "checked_url net s url = Inr () \<longleftrightarrow> validate_webhook_url net url (max_endpoint_url_length s) = Inr ()"
  by (auto simp: checked_url_def split: sum.splits exn.splits)

lemma insert_subscriptions_iff:
  "insert_subscriptions i ts d = Inr d' \<longleftrightarrow>
     (ts = [] \<or> i \<in> tab_keys ep_id (endpoints d)) \<and> list_all (fits 255) ts \<and> distinct ts \<and>
     (\<forall>t \<in> set ts. \<lparr>sub_endpoint_id = i, sub_event_type = t\<rparr> \<notin> set (subscriptions d)) \<and>
     d' = d\<lparr>subscriptions := subscriptions d @ map (\<lambda>t. \<lparr>sub_endpoint_id = i, sub_event_type = t\<rparr>) ts\<rparr>"
proof (induction ts arbitrary: d)
  case Nil
  show ?case by auto
next
  case (Cons t ts)
  show ?case
    by (auto simp: rbind_Inr_iff insert_subscription_def Cons.IH)
qed

lemma db_ok_insert_subscriptions [db_ok_intros]:
  "insert_subscriptions i ts d = Inr d' \<Longrightarrow> db_ok d \<Longrightarrow> db_ok d'"
  by (induction ts arbitrary: d) (auto simp: rbind_Inr_iff dest: db_ok_insert_subscription)

lemma subscribed_types_append:
  "subscribed_types i (d\<lparr>subscriptions := xs @ ys\<rparr>) =
     subscribed_types i (d\<lparr>subscriptions := xs\<rparr>) @ subscribed_types i (d\<lparr>subscriptions := ys\<rparr>)"
  by (simp add: subscribed_types_def)

lemma subscribed_types_of:
  "subscribed_types i (d\<lparr>subscriptions := map (\<lambda>t. \<lparr>sub_endpoint_id = i, sub_event_type = t\<rparr>) ts\<rparr>) = ts"
  by (simp add: subscribed_types_def comp_def)

lemma tenant_endpoint_Inr:
  "tenant_endpoint i ctx d = Inr ep \<longleftrightarrow> get_endpoint i d = Some ep \<and> ep_tenant_id ep = ctx_tenant_id ctx"
  by (auto simp: tenant_endpoint_def split: option.splits if_splits)

lemma create_endpoint_cases:
  assumes "create_endpoint F s env body ctx d = (r, d')"
  obtains (failed) e where "r = Inl e" "d' = d"
  | (created) token d1 where
      "validate_webhook_url (ne_net env) (ncr_url body) (max_endpoint_url_length s) = Inr ()"
      "encrypt_secret F s (ne_seed env) (raw_secret env) = Inr token"
      "insert_endpoint (new_endpoint env token body ctx) d = Inr d1"
      "insert_subscriptions (ne_new_id env) (ncr_events body) d1 = Inr d'"
      "r = Inr (endpoint_detail.extend (to_detail (ne_scan env) (new_endpoint env token body ctx) d')
                  (endpoint_create_response.fields (raw_secret env)))"
proof (cases "rbind (checked_url (ne_net env) s (ncr_url body)) (\<lambda>_.
           rbind (encrypt_secret F s (ne_seed env) (raw_secret env)) (\<lambda>token.
           rbind (insert_endpoint (new_endpoint env token body ctx) d) (\<lambda>d1.
           rbind (insert_subscriptions (ne_new_id env) (ncr_events body) d1) (\<lambda>d2.
             Inr (new_endpoint env token body ctx, d2)))))")
  case (Inl e)
  with assms have "r = Inl e" "d' = d" by (simp_all add: create_endpoint_def)
  then show ?thesis by (rule failed)
next
  case (Inr p)
  obtain ep d2 where p: "p = (ep, d2)" by (cases p)
  from Inr p obtain token d1 where
    "validate_webhook_url (ne_net env) (ncr_url body) (max_endpoint_url_length s) = Inr ()"
    "encrypt_secret F s (ne_seed env) (raw_secret env) = Inr token"
    "insert_endpoint (new_endpoint env token body ctx) d = Inr d1"
    "insert_subscriptions (ne_new_id env) (ncr_events body) d1 = Inr d2" "ep = new_endpoint env token body ctx"
    by (auto simp: rbind_Inr_iff)
  moreover from assms Inr p have "d' = d2"
    "r = Inr (endpoint_detail.extend (to_detail (ne_scan env) ep d2) (endpoint_create_response.fields (raw_secret env)))"
    by (auto simp: create_endpoint_def)
  ultimately show ?thesis using created by simp
qed

lemma new_endpoint_simps [simp]:
  "ep_id (new_endpoint env token body ctx) = ne_new_id env"
  "ep_tenant_id (new_endpoint env token body ctx) = ctx_tenant_id ctx"
  "ep_url (new_endpoint env token body ctx) = ncr_url body"
  "ep_secret_encrypted (new_endpoint env token body ctx) = token"
  "ep_status (new_endpoint env token body ctx) = endpoint_status_value EP_ACTIVE"
  "ep_circuit_state (new_endpoint env token body ctx) = circuit_state_value CLOSED"
  by (simp_all add: new_endpoint_def)

text \<open>
  C37. Creating an endpoint: an error leaves the database as it was. Otherwise the URL passed the SSRF
  validation, one active endpoint of the tenant with a closed breaker is added, subscribed to exactly the
  requested types, and the secret shown in the answer is the one a worker decrypts from the stored row.
\<close>

theorem create_endpoint_outcome:
  assumes "fernet_laws F" "db_ok d" "create_endpoint F s env body ctx d = (r, d')"
  shows "case r of
      Inl _ \<Rightarrow> d' = d
    | Inr rs \<Rightarrow>
        validate_webhook_url (ne_net env) (ncr_url body) (max_endpoint_url_length s) = Inr () \<and>
        (\<exists>ep. endpoints d' = endpoints d @ [ep] \<and> ep_id ep = nd_id rs \<and> ep_tenant_id ep = ctx_tenant_id ctx \<and>
           ep_url ep = ncr_url body \<and> ep_status ep = endpoint_status_value EP_ACTIVE \<and>
           ep_circuit_state ep = circuit_state_value CLOSED \<and>
           worker_decrypt_secret F s (ep_secret_encrypted ep) = Inr (nd_signing_secret rs)) \<and>
        subscribed_types (nd_id rs) d' = ncr_events body \<and> nd_events rs = ne_scan env (ncr_events body) \<and>
        (\<forall>i. i \<noteq> nd_id rs \<longrightarrow> subscribed_types i d' = subscribed_types i d)"
  using assms(3)
proof (cases rule: create_endpoint_cases)
  case (created token d1)
  let ?new = "map (\<lambda>t. \<lparr>sub_endpoint_id = ne_new_id env, sub_event_type = t\<rparr>) (ncr_events body)"
  note d1 = insert_frame(2) [OF created(3)]
  from created(4) have d': "d' = d1\<lparr>subscriptions := subscriptions d1 @ ?new\<rparr>"
    by (simp add: insert_subscriptions_iff)
  have "ne_new_id env \<notin> tab_keys ep_id (endpoints d)"
    using endpoint_table.ins_fresh [OF created(3)] by simp
  with assms(2) have "subscribed_types (ne_new_id env) d = []"
    by (auto simp: subscribed_types_def filter_empty_conv db_ok_def refs_ok_def)
  then have subs: "subscribed_types (ne_new_id env) d' = ncr_events body"
    by (simp add: d' d1 subscribed_types_def comp_def)
  have others: "subscribed_types i d' = subscribed_types i d" if "i \<noteq> ne_new_id env" for i
    using that by (simp add: d' d1 subscribed_types_def filter_map comp_def)
  have "worker_decrypt_secret F s token = Inr (raw_secret env)"
    using secret_round_trip [OF assms(1), of s "ne_seed env" "raw_secret env"] created(2) by auto
  with created(1,5) d1 d' subs others show ?thesis
    by (simp add: endpoint_detail.defs endpoint_create_response.defs to_detail_def)
qed simp

lemma delete_endpoint_eq:
  "delete_endpoint i ctx d =
     (if \<exists>ep. get_endpoint i d = Some ep \<and> ep_tenant_id ep = ctx_tenant_id ctx then
        if i \<in> dl_endpoint_id ` set (deliveries d) then (Inl (IntegrityError ''endpoints_referenced''), d)
        else (Inr (), d\<lparr>endpoints := filter (\<lambda>ep. ep_id ep \<noteq> i) (endpoints d),
                       subscriptions := filter (\<lambda>sb. sub_endpoint_id sb \<noteq> i) (subscriptions d)\<rparr>)
      else (Inl (not_found ''endpoint''), d))"
proof (cases "tenant_endpoint i ctx d")
  case (Inl e)
  then show ?thesis
    by (auto simp: delete_endpoint_def tenant_endpoint_def split: option.splits if_splits)
next
  case (Inr ep)
  then have "get_endpoint i d = Some ep" "ep_tenant_id ep = ctx_tenant_id ctx" "ep_id ep = i"
    by (auto simp: tenant_endpoint_Inr dest: get_row_id)
  with Inr show ?thesis
    by (auto simp: delete_endpoint_def delete_endpoint_row_def delete_subscriptions_of_def guard_def)
qed

lemma update_endpoint_cases:
  assumes "update_endpoint s env i body ctx d = (r, d')"
  obtains (failed) e where "r = Inl e" "d' = d"
  | (updated) ep d1 where "get_endpoint i d = Some ep" "ep_tenant_id ep = ctx_tenant_id ctx"
      "\<And>u. nur_url body = Some u \<Longrightarrow> validate_webhook_url (ne_net env) u (max_endpoint_url_length s) = Inr ()"
      "flush_endpoint (ne_db_now env) ep (patch_endpoint body ep) d = Inr d1"
      "replace_subscriptions i (nur_events body) d1 = Inr d'"
      "r = Inr (to_detail (ne_scan env) (patch_endpoint body ep) d')"
proof (cases "rbind (tenant_endpoint i ctx d) (\<lambda>ep.
           rbind (case nur_url body of None \<Rightarrow> Inr () | Some u \<Rightarrow> checked_url (ne_net env) s u) (\<lambda>_.
           rbind (flush_endpoint (ne_db_now env) ep (patch_endpoint body ep) d) (\<lambda>d1.
           rbind (replace_subscriptions i (nur_events body) d1) (\<lambda>d2.
             Inr (patch_endpoint body ep, d2)))))")
  case (Inl e)
  with assms have "r = Inl e" "d' = d" by (simp_all add: update_endpoint_def)
  then show ?thesis by (rule failed)
next
  case (Inr p)
  obtain q d2 where p: "p = (q, d2)" by (cases p)
  from Inr p obtain ep u d1 where ep: "tenant_endpoint i ctx d = Inr ep"
    "(case nur_url body of None \<Rightarrow> Inr () | Some u \<Rightarrow> checked_url (ne_net env) s u) = Inr u"
    "flush_endpoint (ne_db_now env) ep (patch_endpoint body ep) d = Inr d1"
    "replace_subscriptions i (nur_events body) d1 = Inr d2" "q = patch_endpoint body ep"
    by (auto simp: rbind_Inr_iff)
  moreover from assms Inr p have "d' = d2" "r = Inr (to_detail (ne_scan env) q d2)"
    by (auto simp: update_endpoint_def)
  ultimately show ?thesis by (intro updated [of ep d1]) (simp_all add: tenant_endpoint_Inr)
qed

lemma patch_endpoint_simps [simp]:
  "ep_id (patch_endpoint body ep) = ep_id ep" "ep_tenant_id (patch_endpoint body ep) = ep_tenant_id ep"
  "ep_secret_encrypted (patch_endpoint body ep) = ep_secret_encrypted ep"
  "ep_circuit_state (patch_endpoint body ep) = ep_circuit_state ep"
  "nur_url body = Some u \<Longrightarrow> ep_url (patch_endpoint body ep) = u"
  "nur_url body = None \<Longrightarrow> ep_url (patch_endpoint body ep) = ep_url ep"
  "nur_status body = Some t \<Longrightarrow> ep_status (patch_endpoint body ep) = t"
  by (simp_all add: patch_endpoint_def)

text \<open>A tenant's endpoint as the update leaves it: the patched row, up to the time of the update.\<close>

lemma flush_endpoint_result:
  assumes "flush_endpoint now ep new d = Inr d1" "get_endpoint i d = Some ep" "ep_id new = ep_id ep" "db_ok d"
  shows "\<exists>t. get_endpoint i d1 = Some (new\<lparr>ep_updated_at := t\<rparr>)"
    and "j \<noteq> i \<Longrightarrow> get_endpoint j d1 = get_endpoint j d"
    and "d1\<lparr>endpoints := endpoints d\<rparr> = d"
    and "ep_tenant_id new = ep_tenant_id ep \<Longrightarrow> db_ok d1"
proof -
  have id: "ep_id ep = i" using assms(2) by (rule get_row_id)
  let ?f = "\<lambda>e. if ep_id e = i then new\<lparr>ep_updated_at := now\<rparr> else e"
  consider (same) "new = ep" "d1 = d"
    | (changed) "d1 = modify_endpoint i (\<lambda>_. new\<lparr>ep_updated_at := now\<rparr>) d"
    using assms(1) id by (auto simp: flush_endpoint_def split: if_splits)
  note cases = this
  have upd: "modify_endpoint i (\<lambda>_. new\<lparr>ep_updated_at := now\<rparr>) d = modify_endpoint i ?f d"
    by (simp add: modify_endpoint_def tab_upd_def cong: if_cong)
  have key: "ep_id (?f e) = ep_id e" for e using assms(3) id by simp
  show "\<exists>t. get_endpoint i d1 = Some (new\<lparr>ep_updated_at := t\<rparr>)"
  proof (cases rule: cases)
    case same
    with assms(2) show ?thesis by (intro exI [of _ "ep_updated_at ep"]) simp
  next
    case changed
    with endpoint_table.get_modified [of ?f i i d, OF key] assms(2) id show ?thesis
      by (intro exI [of _ now]) (simp add: upd get_endpoint_def)
  qed
  show "get_endpoint j d1 = get_endpoint j d" if "j \<noteq> i"
  proof (cases rule: cases)
    case changed
    with endpoint_table.get_modified [of ?f j i d, OF key] that show ?thesis
      by (simp add: upd get_endpoint_def)
  qed simp
  show "d1\<lparr>endpoints := endpoints d\<rparr> = d"
    by (cases rule: cases) (simp_all add: modify_endpoint_def)
  show "db_ok d1" if "ep_tenant_id new = ep_tenant_id ep"
  proof (cases rule: cases)
    case changed
    have "tab_upd ep_id i (\<lambda>_. new\<lparr>ep_updated_at := now\<rparr>) (endpoints d) =
        tab_upd ep_id i (\<lambda>e. new\<lparr>ep_updated_at := now, ep_id := ep_id e, ep_tenant_id := ep_tenant_id e\<rparr>) (endpoints d)"
      unfolding tab_upd_def
    proof (rule map_cong [OF refl])
      fix e assume "e \<in> set (endpoints d)"
      from db_ok_get(2) [OF assms(4) this] assms(2) have "ep_id e = i \<Longrightarrow> e = ep" by simp
      with assms(3) that show "(if ep_id e = i then new\<lparr>ep_updated_at := now\<rparr> else e) =
          (if ep_id e = i then new\<lparr>ep_updated_at := now, ep_id := ep_id e, ep_tenant_id := ep_tenant_id e\<rparr> else e)"
        by (cases new) auto
    qed
    then have "d1 = modify_endpoint i (\<lambda>e. new\<lparr>ep_updated_at := now, ep_id := ep_id e, ep_tenant_id := ep_tenant_id e\<rparr>) d"
      using changed by (simp add: modify_endpoint_def)
    then show ?thesis using assms(4) by (simp add: db_ok_modify_endpoint)
  qed (simp add: assms(4))
qed

lemma replace_subscriptions_result:
  assumes "replace_subscriptions i evs d = Inr d'"
  shows "subscribed_types i d' = (case evs of None \<Rightarrow> subscribed_types i d | Some ts \<Rightarrow> ts)"
    and "j \<noteq> i \<Longrightarrow> subscribed_types j d' = subscribed_types j d"
    and "d'\<lparr>subscriptions := subscriptions d\<rparr> = d"
    and "db_ok d \<Longrightarrow> db_ok d'"
proof -
  consider (keep) "evs = None" "d' = d"
    | (new) ts where "evs = Some ts" "insert_subscriptions i ts (delete_subscriptions_of i d) = Inr d'"
    using assms by (auto simp: replace_subscriptions_def split: option.splits)
  note cases = this
  have new_rows: "d' = d\<lparr>subscriptions := filter (\<lambda>sb. sub_endpoint_id sb \<noteq> i) (subscriptions d) @
      map (\<lambda>t. \<lparr>sub_endpoint_id = i, sub_event_type = t\<rparr>) ts\<rparr>"
    if "insert_subscriptions i ts (delete_subscriptions_of i d) = Inr d'" for ts
    using that by (simp add: insert_subscriptions_iff delete_subscriptions_of_def)
  show "subscribed_types i d' = (case evs of None \<Rightarrow> subscribed_types i d | Some ts \<Rightarrow> ts)"
  proof (cases rule: cases)
    case (new ts)
    with new_rows [of ts] show ?thesis by (simp add: subscribed_types_def comp_def)
  qed simp
  show "subscribed_types j d' = subscribed_types j d" if "j \<noteq> i"
  proof (cases rule: cases)
    case (new ts)
    have "filter (\<lambda>sb. sub_endpoint_id sb \<noteq> i \<and> sub_endpoint_id sb = j) (subscriptions d) =
        filter (\<lambda>sb. sub_endpoint_id sb = j) (subscriptions d)"
      using that by (intro filter_cong) auto
    with new_rows [of ts] new that show ?thesis
      by (simp add: subscribed_types_def filter_map comp_def)
  qed simp
  show "d'\<lparr>subscriptions := subscriptions d\<rparr> = d"
  proof (cases rule: cases)
    case (new ts)
    with new_rows [of ts] show ?thesis by simp
  qed simp
  show "db_ok d'" if "db_ok d"
  proof (cases rule: cases)
    case (new ts)
    with that show ?thesis by (blast intro: db_ok_insert_subscriptions db_ok_delete_subscriptions_of)
  qed (simp add: that)
qed

text \<open>
  C38. Updating an endpoint: an error (404 for another tenant's endpoint, 400 for a URL that fails the SSRF
  validation, a value that does not fit its column) leaves the database as it was. Otherwise each of the URL, the
  description, the status, the timeout and the number of retries of the tenant's endpoint is the given value, or
  what it was where none is given; its owner, secret, circuit state and creation time are kept, and it has the given
  subscriptions; no other endpoint and no other table changes, and the schema's constraints hold. The status is any
  string of the request: the route does not ask that it be one of the endpoint statuses.
\<close>

theorem update_endpoint_outcome:
  assumes "db_ok d" "update_endpoint s env i body ctx d = (r, d')"
  shows "db_ok d' \<and>
    (case r of
       Inl _ \<Rightarrow> d' = d
     | Inr rs \<Rightarrow>
         (\<forall>u. nur_url body = Some u \<longrightarrow> validate_webhook_url (ne_net env) u (max_endpoint_url_length s) = Inr ()) \<and>
         (\<exists>ep ep'. get_endpoint i d = Some ep \<and> ep_tenant_id ep = ctx_tenant_id ctx \<and>
            get_endpoint i d' = Some ep' \<and>
            ep_url ep' = (case nur_url body of None \<Rightarrow> ep_url ep | Some u \<Rightarrow> u) \<and>
            ep_description ep' = (case nur_description body of None \<Rightarrow> ep_description ep | Some t \<Rightarrow> Some t) \<and>
            ep_status ep' = (case nur_status body of None \<Rightarrow> ep_status ep | Some t \<Rightarrow> t) \<and>
            ep_timeout_ms ep' = (case nur_timeout_ms body of None \<Rightarrow> ep_timeout_ms ep | Some n \<Rightarrow> n) \<and>
            ep_max_retries ep' = (case nur_max_retries body of None \<Rightarrow> ep_max_retries ep | Some n \<Rightarrow> n) \<and>
            ep_id ep' = i \<and> ep_tenant_id ep' = ep_tenant_id ep \<and>
            ep_secret_encrypted ep' = ep_secret_encrypted ep \<and> ep_circuit_state ep' = ep_circuit_state ep \<and>
            ep_created_at ep' = ep_created_at ep) \<and>
         subscribed_types i d' = (case nur_events body of None \<Rightarrow> subscribed_types i d | Some ts \<Rightarrow> ts) \<and>
         (\<forall>j. j \<noteq> i \<longrightarrow> get_endpoint j d' = get_endpoint j d \<and> subscribed_types j d' = subscribed_types j d) \<and>
         d'\<lparr>endpoints := endpoints d, subscriptions := subscriptions d\<rparr> = d)"
  using assms(2)
proof (cases rule: update_endpoint_cases)
  case (failed e)
  with assms(1) show ?thesis by simp
next
  case (updated ep d1)
  note f = flush_endpoint_result [OF updated(4,1) patch_endpoint_simps(1) assms(1)]
  note rep = replace_subscriptions_result [OF updated(5)]
  have d1: "d1 = d\<lparr>endpoints := endpoints d1\<rparr>" using f(3) by (metis db.surjective db.update_convs(3))
  have d': "d' = d1\<lparr>subscriptions := subscriptions d'\<rparr>" using rep(3) by (metis db.surjective db.update_convs(4))
  have eps: "get_endpoint j d' = get_endpoint j d1" for j
    by (subst d') (simp add: get_endpoint_def)
  have subs: "subscribed_types j d1 = subscribed_types j d" for j
    by (subst d1) (simp add: subscribed_types_def)
  have "d'\<lparr>endpoints := endpoints d, subscriptions := subscriptions d\<rparr> = d"
    by (subst d', subst d1) simp
  obtain t where t: "get_endpoint i d1 = Some ((patch_endpoint body ep)\<lparr>ep_updated_at := t\<rparr>)" using f(1) by blast
  have id: "ep_id ep = i" using updated(1) by (rule get_row_id)
  obtain ep' where ep': "get_endpoint i d' = Some ep'" "ep' = (patch_endpoint body ep)\<lparr>ep_updated_at := t\<rparr>"
    using eps t by simp
  have cols: "ep_url ep' = (case nur_url body of None \<Rightarrow> ep_url ep | Some u \<Rightarrow> u)"
    "ep_description ep' = (case nur_description body of None \<Rightarrow> ep_description ep | Some t \<Rightarrow> Some t)"
    "ep_status ep' = (case nur_status body of None \<Rightarrow> ep_status ep | Some t \<Rightarrow> t)"
    "ep_timeout_ms ep' = (case nur_timeout_ms body of None \<Rightarrow> ep_timeout_ms ep | Some n \<Rightarrow> n)"
    "ep_max_retries ep' = (case nur_max_retries body of None \<Rightarrow> ep_max_retries ep | Some n \<Rightarrow> n)"
    "ep_id ep' = i" "ep_tenant_id ep' = ep_tenant_id ep" "ep_secret_encrypted ep' = ep_secret_encrypted ep"
    "ep_circuit_state ep' = ep_circuit_state ep" "ep_created_at ep' = ep_created_at ep"
    using id by (simp_all add: ep'(2) patch_endpoint_def)
  note frame = \<open>d'\<lparr>endpoints := endpoints d, subscriptions := subscriptions d\<rparr> = d\<close>
  have others: "get_endpoint j d' = get_endpoint j d \<and> subscribed_types j d' = subscribed_types j d" if "j \<noteq> i" for j
    using that f(2) rep(2) eps subs by simp
  have types: "subscribed_types i d' = (case nur_events body of None \<Rightarrow> subscribed_types i d | Some ts \<Rightarrow> ts)"
    using rep(1) subs by (simp split: option.splits)
  have "db_ok d'" using rep(4) f(4) by simp
  moreover have "\<forall>u. nur_url body = Some u \<longrightarrow> validate_webhook_url (ne_net env) u (max_endpoint_url_length s) = Inr ()"
    using updated(3) by auto
  ultimately show ?thesis
    unfolding updated(6) sum.case using updated(1,2) ep'(1) cols types others frame by blast
qed

lemma db_ok_create_endpoint:
  "create_endpoint F s env body ctx d = (r, d') \<Longrightarrow> db_ok d \<Longrightarrow> db_ok d'"
  by (erule create_endpoint_cases) (auto dest: db_ok_insert_endpoint db_ok_insert_subscriptions)

lemma db_ok_delete_endpoint: "delete_endpoint i ctx d = (r, d') \<Longrightarrow> db_ok d \<Longrightarrow> db_ok d'"
  by (auto simp: delete_endpoint_def rbind_Inr_iff split: sum.splits
      dest!: db_ok_delete_endpoint_row intro: db_ok_delete_subscriptions_of)

text \<open>The stored row of a created endpoint holds the secret that the answer shows.\<close>

lemma created_secret:
  assumes "fernet_laws F" "create_endpoint F s env body ctx d = (Inr rs, d')"
  shows "\<exists>ep. get_endpoint (nd_id rs) d' = Some ep \<and>
    worker_decrypt_secret F s (ep_secret_encrypted ep) = Inr (nd_signing_secret rs)"
  using assms(2)
proof (cases rule: create_endpoint_cases)
  case (created token d1)
  have "get_endpoint (ne_new_id env) d' = get_endpoint (ne_new_id env) d1"
    using created(4) by (simp add: insert_subscriptions_iff get_endpoint_def)
  moreover have "get_endpoint (ne_new_id env) d1 = Some (new_endpoint env token body ctx)"
    using endpoint_table.get_inserted [OF created(3)] by (simp add: get_endpoint_def)
  moreover have "worker_decrypt_secret F s token = Inr (raw_secret env)"
    using secret_round_trip [OF assms(1), of s "ne_seed env" "raw_secret env"] created(2) by auto
  ultimately show ?thesis
    using created(5) by (simp add: endpoint_detail.defs endpoint_create_response.defs to_detail_def)
qed simp

lemma created_rows:
  assumes "create_endpoint F s env body ctx d = (Inr rs, d')"
  shows "\<exists>token. nd_id rs = ne_new_id env \<and> endpoints d' = endpoints d @ [new_endpoint env token body ctx] \<and>
    events d' = events d \<and> deliveries d' = deliveries d"
  using assms
proof (cases rule: create_endpoint_cases)
  case (created token d1)
  from insert_frame(2) [OF created(3)] created(4,5) show ?thesis
    by (auto simp: insert_subscriptions_iff endpoint_detail.defs endpoint_create_response.defs to_detail_def)
qed simp

section \<open>Instances\<close>

definition sample_endpoint_env :: endpoint_env where
  "sample_endpoint_env = \<lparr>ne_net = sample_net, ne_new_id = 21, ne_token = ''tok'', ne_seed = 0, ne_db_now = 7,
     ne_scan = (\<lambda>xs. xs)\<rparr>"

definition sample_new_endpoint :: endpoint_create_request where
  "sample_new_endpoint = (endpoint_create_default ''https://example.com/hook'')\<lparr>ncr_events := [''order'', ''refund'']\<rparr>"

lemma sample_endpoint_created:
  "\<exists>rs d'. create_endpoint sample_fernet default_settings sample_endpoint_env sample_new_endpoint sample_ctx sample_db =
     (Inr rs, d')"
proof -
  obtain token where token: "encrypt_secret sample_fernet default_settings 0 (raw_secret sample_endpoint_env) = Inr token"
    using secret_round_trip [OF sample_fernet_laws] by blast
  have url: "checked_url sample_net default_settings ''https://example.com/hook'' = Inr ()"
    using sample_url_ok by (simp add: default_settings_def)
  show ?thesis
    using token url
    by (simp add: create_endpoint_def sample_endpoint_env_def sample_new_endpoint_def endpoint_create_default_def
        insert_endpoint_def insert_subscription_def new_endpoint_def sample_ctx_def sample_defs fits_def fits_int_def
        del: checked_url_Inr)
qed

theorem create_endpoint_outcome_witness:
  "\<exists>rs d'. create_endpoint sample_fernet default_settings sample_endpoint_env sample_new_endpoint sample_ctx sample_db =
     (Inr rs, d') \<and> subscribed_types (nd_id rs) d' = [''order'', ''refund''] \<and>
   (\<exists>ep. endpoints d' = endpoints sample_db @ [ep] \<and>
      worker_decrypt_secret sample_fernet default_settings (ep_secret_encrypted ep) = Inr (nd_signing_secret rs))"
proof -
  from sample_endpoint_created obtain rs d' where c:
    "create_endpoint sample_fernet default_settings sample_endpoint_env sample_new_endpoint sample_ctx sample_db =
     (Inr rs, d')" by blast
  with create_endpoint_outcome [OF sample_fernet_laws sample_db_ok c] show ?thesis
    by (auto simp: sample_new_endpoint_def)
qed

definition sample_patch :: endpoint_update_request where
  "sample_patch = \<lparr>nur_url = None, nur_description = Some ''hook'', nur_events = Some [''refund''],
     nur_status = Some ''disabled'', nur_timeout_ms = None, nur_max_retries = None\<rparr>"

theorem update_endpoint_outcome_witness:
  "\<exists>rs d'. update_endpoint default_settings sample_endpoint_env 20 sample_patch sample_ctx sample_db = (Inr rs, d') \<and>
     db_ok d' \<and> subscribed_types 20 d' = [''refund''] \<and>
     (\<exists>ep'. get_endpoint 20 d' = Some ep' \<and> ep_status ep' = ''disabled'' \<and> ep_timeout_ms ep' = ep_timeout_ms sample_endpoint)"
proof -
  have ep: "get_endpoint 20 sample_db = Some sample_endpoint"
    by (simp add: get_endpoint_def sample_db_def sample_endpoint_def tab_get_Cons)
  have "\<exists>rs d'. update_endpoint default_settings sample_endpoint_env 20 sample_patch sample_ctx sample_db = (Inr rs, d')"
    unfolding update_endpoint_def tenant_endpoint_def ep
    by (simp add: sample_patch_def sample_ctx_def flush_endpoint_def patch_endpoint_def replace_subscriptions_def
        insert_subscription_def delete_subscriptions_of_def modify_endpoint_def tab_upd_Cons sample_defs fits_def fits_int_def)
  then obtain rs d' where u:
    "update_endpoint default_settings sample_endpoint_env 20 sample_patch sample_ctx sample_db = (Inr rs, d')" by blast
  with update_endpoint_outcome [OF sample_db_ok u] ep show ?thesis by (auto simp: sample_patch_def)
qed

end
