(* ===== verification/Api_Deliveries.thy ===== *)
theory Api_Deliveries
  imports Api_Endpoints
begin

text \<open>
  The deliveries router, \<open>apps/api/eventmesh_api/routers/deliveries.py\<close>: reading delivery rows and the
  dead-letter queue, and replaying a dead-letter entry. A delivery belongs to a tenant through its
  event. Rows with the same creation time come in an order the database chooses.
\<close>

section \<open>Handlers\<close>

record delivery_detail =
  dd_id :: uuid
  dd_event_id :: uuid
  dd_endpoint_id :: uuid
  dd_attempt_number :: int
  dd_status :: string
  dd_http_status :: "int option"
  dd_latency_ms :: "int option"
  dd_error_message :: "string option"
  dd_next_retry_at :: "datetime option"
  dd_created_at :: datetime

definition delivery_detail_of :: "delivery \<Rightarrow> delivery_detail" where
  "delivery_detail_of r =
     \<lparr>dd_id = dl_id r, dd_event_id = dl_event_id r, dd_endpoint_id = dl_endpoint_id r,
      dd_attempt_number = dl_attempt_number r, dd_status = dl_status r, dd_http_status = dl_http_status r,
      dd_latency_ms = dl_latency_ms r, dd_error_message = dl_error_message r,
      dd_next_retry_at = dl_next_retry_at r, dd_created_at = dl_created_at r\<rparr>"

text \<open>\<open>ORDER BY created_at DESC LIMIT limit\<close>.\<close>

definition latest_deliveries :: "(delivery list \<Rightarrow> delivery list) \<Rightarrow> int \<Rightarrow> delivery list \<Rightarrow> delivery list" where
  "latest_deliveries scan limit rows =
     take (nat (clamp_limit limit)) (sort_key (\<lambda>r. - dl_created_at r) (scan rows))"

definition list_endpoint_deliveries :: "(delivery list \<Rightarrow> delivery list) \<Rightarrow> uuid \<Rightarrow> auth_context \<Rightarrow> int \<Rightarrow> db \<Rightarrow>
    delivery_detail list result" where
  "list_endpoint_deliveries scan i ctx limit d =
     rbind (tenant_endpoint i ctx d) (\<lambda>_.
       Inr (map delivery_detail_of
         (latest_deliveries scan limit (filter (\<lambda>r. dl_endpoint_id r = i) (deliveries d)))))"

definition tenant_delivery :: "string \<Rightarrow> uuid \<Rightarrow> auth_context \<Rightarrow> db \<Rightarrow> (delivery \<times> event) result" where
  "tenant_delivery what i ctx d =
     (case get_delivery_row i d of
        None \<Rightarrow> Inl (not_found what)
      | Some r \<Rightarrow>
          (case get_event_row (dl_event_id r) d of
             None \<Rightarrow> Inl (not_found what)
           | Some ev \<Rightarrow> if ev_tenant_id ev \<noteq> ctx_tenant_id ctx then Inl (not_found what) else Inr (r, ev)))"

definition get_delivery :: "uuid \<Rightarrow> auth_context \<Rightarrow> db \<Rightarrow> delivery_detail result" where
  "get_delivery i ctx d =
     rbind (tenant_delivery ''delivery'' i ctx d) (\<lambda>(r, _). Inr (delivery_detail_of r))"

text \<open>The join with the events gives a delivery row once per event with its identifier.\<close>

definition dlq_rows :: "auth_context \<Rightarrow> db \<Rightarrow> delivery list" where
  "dlq_rows ctx d =
     concat (map (\<lambda>r. map (\<lambda>_. r)
         (filter (\<lambda>ev. ev_id ev = dl_event_id r \<and> ev_tenant_id ev = ctx_tenant_id ctx \<and>
                       dl_status r = delivery_status_value DL_DLQ) (events d)))
       (deliveries d))"

definition list_dlq :: "(delivery list \<Rightarrow> delivery list) \<Rightarrow> auth_context \<Rightarrow> int \<Rightarrow> db \<Rightarrow> delivery_detail list" where
  "list_dlq scan ctx limit d = map delivery_detail_of (latest_deliveries scan limit (dlq_rows ctx d))"

definition dlq_replay_payload :: "replay_env \<Rightarrow> uuid \<Rightarrow> delivery \<Rightarrow> event \<Rightarrow> (string \<times> json) list" where
  "dlq_replay_payload env tenant_id r ev =
     event_payload (re_isoformat env) (re_now env) tenant_id ev @
     [(''is_replay'', JBool True), (''target_endpoint_id'', JStr (str_uuid (dl_endpoint_id r)))]"

definition dlq_replay_row :: "replay_env \<Rightarrow> auth_context \<Rightarrow> delivery \<Rightarrow> event \<Rightarrow> outbox_event" where
  "dlq_replay_row env ctx r ev =
     new_outbox (re_outbox_id env) (re_db_now env) ''dlq_replay'' ev (dlq_replay_payload env (ctx_tenant_id ctx) r ev)"

definition replay_dlq_entry :: "replay_env \<Rightarrow> uuid \<Rightarrow> auth_context \<Rightarrow> db \<Rightarrow> event_create_response result \<times> db" where
  "replay_dlq_entry env i ctx d =
     (case tenant_delivery ''DLQ entry'' i ctx d of
        Inl e \<Rightarrow> (Inl e, d)
      | Inr (r, ev) \<Rightarrow>
          if dl_status r \<noteq> delivery_status_value DL_DLQ
          then (Inl (HTTPException 409 ''INVALID_STATE'' ''delivery is not in the DLQ''), d)
          else (case insert_outbox (dlq_replay_row env ctx r ev) d of
                  Inl e \<Rightarrow> (Inl e, d)
                | Inr d' \<Rightarrow> (Inr \<lparr>ers_event_id = ev_id ev, ers_status = ''queued''\<rparr>, d')))"

section \<open>The dead-letter queue\<close>

lemma tenant_delivery_Inr:
  "tenant_delivery what i ctx d = Inr (r, ev) \<longleftrightarrow> get_delivery_row i d = Some r \<and>
     get_event_row (dl_event_id r) d = Some ev \<and> ev_tenant_id ev = ctx_tenant_id ctx"
  by (auto simp: tenant_delivery_def split: option.splits if_splits)

text \<open>With unique event identifiers the join yields each row at most once.\<close>

definition in_dlq_of :: "uuid \<Rightarrow> db \<Rightarrow> delivery \<Rightarrow> bool" where
  "in_dlq_of tid d r \<longleftrightarrow> dl_status r = delivery_status_value DL_DLQ \<and>
     (\<exists>ev. get_event_row (dl_event_id r) d = Some ev \<and> ev_tenant_id ev = tid)"

lemma dlq_rows_filter:
  assumes "db_ok d"
  shows "dlq_rows ctx d = filter (in_dlq_of (ctx_tenant_id ctx) d) (deliveries d)"
proof -
  have "map (\<lambda>_. r) (filter (\<lambda>ev. ev_id ev = dl_event_id r \<and> ev_tenant_id ev = ctx_tenant_id ctx \<and>
            dl_status r = delivery_status_value DL_DLQ) (events d)) =
        (if in_dlq_of (ctx_tenant_id ctx) d r then [r] else [])" for r
  proof (cases "in_dlq_of (ctx_tenant_id ctx) d r")
    case True
    then obtain ev where ev: "get_event_row (dl_event_id r) d = Some ev" "ev_tenant_id ev = ctx_tenant_id ctx"
      "dl_status r = delivery_status_value DL_DLQ"
      by (auto simp: in_dlq_of_def)
    from assms have dist: "distinct (map ev_id (events d))" by (simp add: db_ok_def keys_ok_def)
    have "filter (\<lambda>x. ev_id x = dl_event_id r) (events d) = [ev]"
      using filter_unique [OF dist get_row_mem(1) [OF ev(1)]] get_row_id(1) [OF ev(1)] by simp
    then have "filter (\<lambda>x. ev_tenant_id x = ctx_tenant_id ctx) (filter (\<lambda>x. ev_id x = dl_event_id r) (events d)) = [ev]"
      using ev(2) by simp
    with True ev(3) show ?thesis by (simp add: conj_commute)
  next
    case False
    with db_ok_get(1) [OF assms] show ?thesis
      by (simp add: in_dlq_of_def filter_empty_conv) metis
  qed
  then show ?thesis by (simp add: dlq_rows_def concat_map_if [where f = "\<lambda>x. x", simplified])
qed

lemma set_latest_deliveries: "is_scan scan \<Longrightarrow> set (latest_deliveries scan limit rows) \<subseteq> set rows"
  using set_take_subset by (fastforce simp: latest_deliveries_def is_scan_set)

lemma latest_deliveries_all:
  assumes "is_scan scan" "int (length rows) \<le> clamp_limit limit"
  shows "set (latest_deliveries scan limit rows) = set rows"
  using assms by (simp add: latest_deliveries_def is_scan_set is_scan_length)

lemma latest_deliveries_newest:
  assumes "is_scan scan"
  shows "sorted_wrt (\<ge>) (map dl_created_at (latest_deliveries scan limit rows))"
    and "r \<in> set rows \<Longrightarrow> r \<notin> set (latest_deliveries scan limit rows) \<Longrightarrow>
      x \<in> set (latest_deliveries scan limit rows) \<Longrightarrow> dl_created_at r \<le> dl_created_at x"
    and "length (latest_deliveries scan limit rows) \<le> 200"
proof -
  let ?xs = "sort_key (\<lambda>r. - dl_created_at r) (scan rows)"
  let ?n = "nat (clamp_limit limit)"
  have "sorted (map (\<lambda>r. - dl_created_at r) ?xs)" by (rule sorted_sort_key)
  then have s: "sorted_wrt (\<lambda>a b. dl_created_at a \<ge> dl_created_at b) ?xs"
    by (simp add: sorted_map)
  then show "sorted_wrt (\<ge>) (map dl_created_at (latest_deliveries scan limit rows))"
    by (simp add: latest_deliveries_def sorted_wrt_map sorted_wrt_take)
  have "sorted_wrt (\<lambda>a b. dl_created_at a \<ge> dl_created_at b) (take ?n ?xs @ drop ?n ?xs)"
    using s by simp
  then have split: "\<forall>x \<in> set (take ?n ?xs). \<forall>y \<in> set (drop ?n ?xs). dl_created_at x \<ge> dl_created_at y"
    by (simp add: sorted_wrt_append del: append_take_drop_id)
  show "dl_created_at r \<le> dl_created_at x" if "r \<in> set rows" "r \<notin> set (latest_deliveries scan limit rows)"
    "x \<in> set (latest_deliveries scan limit rows)"
  proof -
    have "r \<in> set (take ?n ?xs @ drop ?n ?xs)" using that(1) assms by (simp add: is_scan_set)
    with that(2) have "r \<in> set (drop ?n ?xs)" by (simp only: latest_deliveries_def set_append Un_iff simp_thms)
    with split that(3) show ?thesis by (simp add: latest_deliveries_def)
  qed
  show "length (latest_deliveries scan limit rows) \<le> 200"
    by (simp add: latest_deliveries_def clamp_limit_def)
qed

text \<open>
  The dead-letter listing shows only dead-letter rows of the tenant's own events, newest first and at most
  200; a row it leaves out is not newer than any it shows, and if they fit the limit all are shown.
\<close>

lemma dlq_listing:
  assumes "db_ok d" "is_scan scan"
    "dlq = {r \<in> set (deliveries d). dl_status r = delivery_status_value DL_DLQ \<and>
       (\<exists>ev. get_event_row (dl_event_id r) d = Some ev \<and> ev_tenant_id ev = ctx_tenant_id ctx)}"
  shows "\<exists>rows. list_dlq scan ctx limit d = map delivery_detail_of rows \<and> length rows \<le> 200 \<and> set rows \<subseteq> dlq \<and>
    sorted_wrt (\<ge>) (map dl_created_at rows) \<and>
    (\<forall>r \<in> dlq - set rows. \<forall>x \<in> set rows. dl_created_at r \<le> dl_created_at x) \<and>
    (int (card dlq) \<le> clamp_limit limit \<longrightarrow> set rows = dlq)"
proof -
  let ?rows = "latest_deliveries scan limit (dlq_rows ctx d)"
  have dlq: "set (dlq_rows ctx d) = dlq"
    by (auto simp: dlq_rows_filter [OF assms(1)] in_dlq_of_def assms(3))
  have "distinct (deliveries d)"
    using assms(1) by (simp add: db_ok_def keys_ok_def distinct_map)
  then have "distinct (dlq_rows ctx d)" by (simp add: dlq_rows_filter [OF assms(1)])
  from distinct_card [OF this] dlq have "length (dlq_rows ctx d) = card dlq" by simp
  with latest_deliveries_all [OF assms(2), of "dlq_rows ctx d" limit] dlq
  have "int (card dlq) \<le> clamp_limit limit \<longrightarrow> set ?rows = dlq" by simp
  with latest_deliveries_newest [OF assms(2)] set_latest_deliveries [OF assms(2), of limit "dlq_rows ctx d"] dlq
  show ?thesis
    by (intro exI [of _ ?rows] conjI ballI) (auto simp: list_dlq_def)
qed

lemma replay_dlq_entry_cases:
  assumes "replay_dlq_entry env i ctx d = (r, d')"
  obtains (unknown) "r = Inl (not_found ''DLQ entry'')" "d' = d"
      "\<forall>dl ev. get_delivery_row i d = Some dl \<longrightarrow> get_event_row (dl_event_id dl) d = Some ev \<longrightarrow> ev_tenant_id ev \<noteq> ctx_tenant_id ctx"
  | (refused) dl ev where "tenant_delivery ''DLQ entry'' i ctx d = Inr (dl, ev)" "dl_status dl \<noteq> delivery_status_value DL_DLQ"
      "r = Inl (HTTPException 409 ''INVALID_STATE'' ''delivery is not in the DLQ'')" "d' = d"
  | (failed) dl ev e where "tenant_delivery ''DLQ entry'' i ctx d = Inr (dl, ev)" "dl_status dl = delivery_status_value DL_DLQ"
      "r = Inl e" "d' = d"
  | (replayed) dl ev where "tenant_delivery ''DLQ entry'' i ctx d = Inr (dl, ev)" "dl_status dl = delivery_status_value DL_DLQ"
      "insert_outbox (dlq_replay_row env ctx dl ev) d = Inr d'" "r = Inr \<lparr>ers_event_id = ev_id ev, ers_status = ''queued''\<rparr>"
proof (cases "tenant_delivery ''DLQ entry'' i ctx d")
  case (Inl e)
  then have "e = not_found ''DLQ entry''" by (auto simp: tenant_delivery_def split: option.splits if_splits)
  with Inl assms show thesis
    by (intro unknown) (auto simp: replay_dlq_entry_def tenant_delivery_def split: option.splits if_splits)
next
  case (Inr p)
  obtain dl ev where "p = (dl, ev)" by (cases p)
  with assms Inr refused failed replayed show thesis
    by (auto simp: replay_dlq_entry_def split: if_splits sum.splits simp del: delivery_status_value.simps)
qed

text \<open>
  C33. Replaying a dead-letter entry of the tenant adds one pending outbox row for the original event that
  targets exactly the entry's endpoint, and changes nothing else, so that the entry stays in the queue;
  an unknown entry or another tenant's is answered 404, one that is not in the queue 409, with nothing written.
\<close>

theorem replay_dlq_outcome:
  assumes "replay_dlq_entry env i ctx d = (r, d')"
  shows "case get_delivery_row i d of
      None \<Rightarrow> r = Inl (not_found ''DLQ entry'') \<and> d' = d
    | Some dl \<Rightarrow>
        (if \<exists>ev. get_event_row (dl_event_id dl) d = Some ev \<and> ev_tenant_id ev = ctx_tenant_id ctx then
           if dl_status dl = delivery_status_value DL_DLQ then
             (case r of
                Inl _ \<Rightarrow> d' = d
              | Inr rs \<Rightarrow> ers_event_id rs = dl_event_id dl \<and>
                  (\<exists>ob et. d' = d\<lparr>outbox_events := outbox_events d @ [ob]\<rparr> \<and>
                     ob_status ob = outbox_status_value OB_PENDING \<and>
                     parse_payload (ob_payload ob) =
                       Inr (dl_event_id dl, ctx_tenant_id ctx, JStr et, Some (JStr (str_uuid (dl_endpoint_id dl))))))
           else r = Inl (HTTPException 409 ''INVALID_STATE'' ''delivery is not in the DLQ'') \<and> d' = d
         else r = Inl (not_found ''DLQ entry'') \<and> d' = d)"
  using assms
proof (cases rule: replay_dlq_entry_cases)
  case unknown
  then show ?thesis by (auto split: option.split)
next
  case (replayed dl ev)
  then have dl: "get_delivery_row i d = Some dl" "get_event_row (dl_event_id dl) d = Some ev" "ev_tenant_id ev = ctx_tenant_id ctx"
    by (simp_all add: tenant_delivery_Inr)
  from dl(2) have id: "ev_id ev = dl_event_id dl" by (rule get_row_id)
  have "ob_status (dlq_replay_row env ctx dl ev) = outbox_status_value OB_PENDING"
    "parse_payload (ob_payload (dlq_replay_row env ctx dl ev)) =
       Inr (dl_event_id dl, ctx_tenant_id ctx, JStr (ev_event_type ev), Some (JStr (str_uuid (dl_endpoint_id dl))))"
    by (simp_all add: dlq_replay_row_def dlq_replay_payload_def parse_event_payload dict_get_def id)
  with insert_frame(6) [OF replayed(3)] dl id replayed(2,4) show ?thesis by (simp del: delivery_status_value.simps) blast
qed (auto simp: tenant_delivery_Inr simp del: delivery_status_value.simps)

lemma db_ok_replay_dlq_entry: "replay_dlq_entry env i ctx d = (r, d') \<Longrightarrow> db_ok d \<Longrightarrow> db_ok d'"
  by (auto simp: replay_dlq_entry_def dest: db_ok_insert_outbox split: sum.splits if_splits)

section \<open>Instances\<close>

definition sample_dead :: delivery where
  "sample_dead = \<lparr>dl_id = 50, dl_event_id = 10, dl_endpoint_id = 20, dl_attempt_number = 1, dl_status = ''dlq'',
     dl_http_status = Some 400, dl_latency_ms = Some 3, dl_error_code = Some ''BAD_REQUEST'', dl_error_message = None,
     dl_started_at = Some 6, dl_completed_at = Some 7, dl_next_retry_at = None, dl_is_replay = False, dl_created_at = 6\<rparr>"

definition sample_dlq_db :: db where
  "sample_dlq_db = sample_db\<lparr>deliveries := [sample_dead]\<rparr>"

lemma sample_dlq_db_ok: "db_ok sample_dlq_db"
  by (simp add: db_ok_def keys_ok_def refs_ok_def sample_dlq_db_def sample_dead_def sample_defs)

lemma sample_dlq_rows:
  "get_delivery_row 50 sample_dlq_db = Some sample_dead" "get_event_row 10 sample_dlq_db = Some sample_event"
  by (simp_all add: get_defs sample_dlq_db_def sample_dead_def sample_defs tab_get_Cons)

theorem replay_dlq_outcome_witness:
  "\<exists>rs d' ob et. replay_dlq_entry sample_replay_env 50 sample_ctx sample_dlq_db = (Inr rs, d') \<and>
     outbox_events d' = outbox_events sample_dlq_db @ [ob] \<and>
     parse_payload (ob_payload ob) = Inr (10, 1, JStr et, Some (JStr (str_uuid 20)))"
proof -
  have "\<exists>d'. insert_outbox (dlq_replay_row sample_replay_env sample_ctx sample_dead sample_event) sample_dlq_db = Inr d'"
    by (simp add: insert_outbox_def fits_defs dlq_replay_row_def new_outbox_def sample_replay_env_def sample_dlq_db_def sample_defs)
  with sample_dlq_rows have "\<exists>rs d'. replay_dlq_entry sample_replay_env 50 sample_ctx sample_dlq_db = (Inr rs, d')"
    by (auto simp: replay_dlq_entry_def tenant_delivery_def) (simp_all add: sample_dead_def sample_event_def sample_ctx_def)
  then obtain rs d' where r: "replay_dlq_entry sample_replay_env 50 sample_ctx sample_dlq_db = (Inr rs, d')" by blast
  have "\<exists>ob et. d' = sample_dlq_db\<lparr>outbox_events := outbox_events sample_dlq_db @ [ob]\<rparr> \<and>
     parse_payload (ob_payload ob) = Inr (10, 1, JStr et, Some (JStr (str_uuid 20)))"
    using replay_dlq_outcome [OF r] sample_dlq_rows
    by (auto simp: sample_dead_def sample_event_def sample_ctx_def)
  with r show ?thesis by force
qed

end
