(* ===== verification/Api_Main.thy ===== *)
theory Api_Main
  imports Api_Deliveries Json_Text
begin

text \<open>
  The API application, \<open>apps/api/eventmesh_api/main.py\<close>, and its health routes,
  \<open>routers/health.py\<close>: the request identifier, the two exception handlers and the probes. A handler's
  exception that no handler of the application covers propagates.
\<close>

section \<open>Requests, responses and exceptions\<close>

record response =
  rp_status :: int
  rp_headers :: "(string \<times> string) list"
  rp_body :: json

record http_exc =
  hx_status :: int
  hx_detail :: json
  hx_headers :: "(string \<times> string) list option"

text \<open>The exception object that the code raises: the detail of \<open>schemas.ErrorResponse\<close>'s shape, and the header of a 429.\<close>

definition error_detail :: "string \<Rightarrow> string \<Rightarrow> (string \<times> json) list" where
  "error_detail code message = [(''code'', JStr code), (''message'', JStr message)]"

definition http_exc_of :: "exn \<Rightarrow> http_exc option" where
  "http_exc_of e =
     (case e of
        HTTPException st code message \<Rightarrow>
          Some \<lparr>hx_status = st, hx_detail = JObj [(''error'', JObj (error_detail code message))],
                hx_headers = (if code = ''RATE_LIMITED'' then Some [(''Retry-After'', ''60'')] else None)\<rparr>
      | _ \<Rightarrow> None)"

section \<open>Middleware and handlers\<close>

definition request_id :: "string option \<Rightarrow> uuid \<Rightarrow> string" where
  "request_id incoming fresh =
     (case incoming of
        Some x \<Rightarrow>
          if x \<noteq> [] \<and> 1 \<le> length x \<and> length x \<le> 128 \<and> isascii x then x
          else ''req_'' @ take 20 (hex_digits 32 (unat fresh))
      | None \<Rightarrow> ''req_'' @ take 20 (hex_digits 32 (unat fresh)))"

definition set_header :: "string \<Rightarrow> string \<Rightarrow> (string \<times> string) list \<Rightarrow> (string \<times> string) list" where
  "set_header k v hs = filter (\<lambda>(k', _). str_lower k' \<noteq> str_lower k) hs @ [(k, v)]"

definition request_id_middleware :: "string option \<Rightarrow> uuid \<Rightarrow> (string \<Rightarrow> response result) \<Rightarrow> response result" where
  "request_id_middleware incoming fresh call_next =
     (let rid = request_id incoming fresh in
      rbind (call_next rid) (\<lambda>resp.
        Inr (resp\<lparr>rp_headers := set_header ''X-Request-ID'' rid (rp_headers resp)\<rparr>)))"

text \<open>\<open>repr_json\<close> is Python's \<open>str\<close> on a detail that is not a string.\<close>

definition http_exception_handler :: "(json \<Rightarrow> string) \<Rightarrow> string \<Rightarrow> http_exc \<Rightarrow> response result" where
  "http_exception_handler repr_json rid exc =
     (case (case hx_detail exc of JObj d \<Rightarrow> map_of d ''error'' | _ \<Rightarrow> None) of
        Some (JObj err) \<Rightarrow>
          (case hx_detail exc of
             JObj d \<Rightarrow>
               Inr \<lparr>rp_status = hx_status exc,
                    rp_headers = (case hx_headers exc of None \<Rightarrow> [] | Some hs \<Rightarrow> hs),
                    rp_body = JObj (dict_put d ''error'' (JObj (dict_put err ''request_id'' (JStr rid))))\<rparr>
           | _ \<Rightarrow> Inl (TypeError ''unreachable''))
      | Some _ \<Rightarrow> Inl (TypeError ''object does not support item assignment'')
      | None \<Rightarrow>
          Inr \<lparr>rp_status = hx_status exc, rp_headers = [],
               rp_body = JObj [(''error'', JObj [(''code'', JStr ''ERROR''),
                 (''message'', JStr (case hx_detail exc of JStr t \<Rightarrow> t | j \<Rightarrow> repr_json j)),
                 (''request_id'', JStr rid)])]\<rparr>)"

text \<open>The errors of a RequestValidationError: the parts of the location as text, and the message.\<close>

definition validation_exception_handler :: "string \<Rightarrow> (string list \<times> string) list \<Rightarrow> response" where
  "validation_exception_handler rid errors =
     \<lparr>rp_status = 422, rp_headers = [],
      rp_body = JObj [(''error'', JObj [(''code'', JStr ''INVALID_REQUEST''),
        (''message'', JStr (join ''; '' (map (\<lambda>(loc, msg). join ''.'' loc @ '': '' @ msg) errors))),
        (''request_id'', JStr rid)])]\<rparr>"

text \<open>A route with the exception handler of the application around it.\<close>

definition handled :: "(json \<Rightarrow> string) \<Rightarrow> string \<Rightarrow> response result \<Rightarrow> response result" where
  "handled repr_json rid res =
     (case res of
        Inr resp \<Rightarrow> Inr resp
      | Inl e \<Rightarrow> (case http_exc_of e of Some exc \<Rightarrow> http_exception_handler repr_json rid exc | None \<Rightarrow> Inl e))"

definition serve :: "(json \<Rightarrow> string) \<Rightarrow> string option \<Rightarrow> uuid \<Rightarrow> response result \<Rightarrow> response result" where
  "serve repr_json incoming fresh res =
     request_id_middleware incoming fresh (\<lambda>rid. handled repr_json rid res)"

text \<open>
  A route that depends on \<open>require_auth\<close>: the dependency is resolved first, and the handler, an operation of one
  of the routers with its answer, runs only with a context.
\<close>

definition require_auth ::
    "'c counter_client \<Rightarrow> string \<Rightarrow> datetime \<Rightarrow> real \<Rightarrow> 'c api_state \<Rightarrow> auth_context result \<times> 'c api_state" where
  "require_auth C authz now time st =
     (case get_auth_context C authz now time st of (Inl e, st1) \<Rightarrow> (Inl e, st1) | (Inr ctx, st1) \<Rightarrow> (Inr ctx, st1))"

definition authed_route ::
    "'c counter_client \<Rightarrow> string \<Rightarrow> datetime \<Rightarrow> real \<Rightarrow>
     (auth_context \<Rightarrow> 'c api_state \<Rightarrow> response result \<times> 'c api_state) \<Rightarrow> 'c api_state \<Rightarrow> response result \<times> 'c api_state" where
  "authed_route C authz now time handler st =
     (case require_auth C authz now time st of (Inl e, st1) \<Rightarrow> (Inl e, st1) | (Inr ctx, st1) \<Rightarrow> handler ctx st1)"

definition api_request ::
    "(json \<Rightarrow> string) \<Rightarrow> string option \<Rightarrow> uuid \<Rightarrow> 'c counter_client \<Rightarrow> string \<Rightarrow> datetime \<Rightarrow> real \<Rightarrow>
     (auth_context \<Rightarrow> 'c api_state \<Rightarrow> response result \<times> 'c api_state) \<Rightarrow> 'c api_state \<Rightarrow> response result \<times> 'c api_state" where
  "api_request repr_json incoming fresh C authz now time handler st =
     (case authed_route C authz now time handler st of (res, st1) \<Rightarrow> (serve repr_json incoming fresh res, st1))"

section \<open>Health\<close>

definition health :: json where
  "health = JObj [(''status'', JStr ''ok'')]"

text \<open>The probes of PostgreSQL and Redis, each the text of the exception it raised or nothing.\<close>

definition check_text :: "string option \<Rightarrow> json" where
  "check_text failure = JStr (case failure of None \<Rightarrow> ''ok'' | Some e \<Rightarrow> ''error: '' @ e)"

definition ready_probe :: "string option \<Rightarrow> string option \<Rightarrow> response" where
  "ready_probe postgres redis =
     (let healthy = (postgres = None \<and> redis = None) in
      \<lparr>rp_status = (if healthy then 200 else 503), rp_headers = [],
       rp_body = JObj [(''status'', JStr (if healthy then ''ok'' else ''degraded'')),
         (''checks'', JObj [(''postgres'', check_text postgres), (''redis'', check_text redis)])]\<rparr>)"

section \<open>Error responses\<close>

lemma request_id_form:
  "request_id incoming fresh \<noteq> []" "length (request_id incoming fresh) \<le> 128" "isascii (request_id incoming fresh)"
proof -
  let ?g = "''req_'' @ take 20 (hex_digits 32 (unat fresh))"
  have "set (take 20 (hex_digits 32 (unat fresh))) \<subseteq> digit_char ` {..<16}"
    using set_hex_digits [of 32 "unat fresh"] set_take_subset by fastforce
  moreover have "ord (digit_char k) < 128" if "k < 16" for k
    using that by (auto simp: digit_char_def ord_def)
  ultimately have "isascii ?g"
    by (auto simp: isascii_def list_all_iff ord_def simp del: hex_digits.simps)
  then show "request_id incoming fresh \<noteq> []" "length (request_id incoming fresh) \<le> 128"
    "isascii (request_id incoming fresh)"
    by (auto simp: request_id_def simp del: hex_digits.simps split: option.splits)
qed

lemma map_of_set_header: "map_of (set_header k v hs) k = Some v"
  by (induction hs) (auto simp: set_header_def)

text \<open>
  Every HTTPException of a route is answered with its status and the documented error object, carrying the
  request's identifier, which is also the answer's \<open>X-Request-ID\<close> header; the client's identifier is used if it is
  non-empty ASCII of at most 128 characters, otherwise a fresh one that is. Any other exception
  propagates, and an answer without an exception keeps its status and body.
\<close>

lemma error_responses:
  "request_id incoming fresh \<noteq> [] \<and> length (request_id incoming fresh) \<le> 128 \<and> isascii (request_id incoming fresh) \<and>
   (case serve repr_json incoming fresh res of
     Inr resp \<Rightarrow>
       map_of (rp_headers resp) ''X-Request-ID'' = Some (request_id incoming fresh) \<and>
       (case res of
          Inr ok \<Rightarrow> rp_status resp = rp_status ok \<and> rp_body resp = rp_body ok
        | Inl e \<Rightarrow> \<exists>st code message. e = HTTPException st code message \<and> rp_status resp = st \<and>
            rp_body resp = JObj [(''error'', JObj [(''code'', JStr code), (''message'', JStr message),
              (''request_id'', JStr (request_id incoming fresh))])])
   | Inl e \<Rightarrow> res = Inl e \<and> (\<forall>st code message. e \<noteq> HTTPException st code message))"
proof -
  show ?thesis
  proof (cases res)
    case (Inr ok)
    then show ?thesis by (simp add: request_id_form serve_def handled_def request_id_middleware_def Let_def map_of_set_header)
  next
    case (Inl e)
    then show ?thesis
      by (cases e)
        (simp_all add: request_id_form serve_def handled_def request_id_middleware_def Let_def map_of_set_header http_exc_of_def
          http_exception_handler_def error_detail_def)
  qed
qed

section \<open>Requests that are turned away\<close>

text \<open>The answer to a request that fails with the error object of the program.\<close>

definition error_answer :: "int \<Rightarrow> string \<Rightarrow> string \<Rightarrow> string \<Rightarrow> response" where
  "error_answer st code message rid =
     \<lparr>rp_status = st,
      rp_headers = (if code = ''RATE_LIMITED'' then [(''Retry-After'', ''60'')] else []) @ [(''X-Request-ID'', rid)],
      rp_body = JObj [(''error'', JObj (error_detail code message @ [(''request_id'', JStr rid)]))]\<rparr>"

lemma serve_http_exception:
  "serve repr_json incoming fresh (Inl (HTTPException st code message)) =
     Inr (error_answer st code message (request_id incoming fresh))"
proof -
  have "str_lower ''Retry-After'' \<noteq> str_lower ''X-Request-ID''" by code_simp
  then show ?thesis
    by (simp add: serve_def handled_def request_id_middleware_def Let_def http_exc_of_def http_exception_handler_def
        error_detail_def error_answer_def set_header_def)
qed

lemma api_request_refused:
  assumes "get_auth_context C authz now time st = (Inl (HTTPException code t message), st1)"
  shows "api_request repr_json incoming fresh C authz now time handler st =
    (Inr (error_answer code t message (request_id incoming fresh)), st1)"
  by (simp add: api_request_def authed_route_def require_auth_def assms serve_http_exception)

lemma api_request_admitted:
  assumes "get_auth_context C authz now time st = (Inr ctx, st1)"
  shows "api_request repr_json incoming fresh C authz now time handler st =
    (case handler ctx st1 of (res, st2) \<Rightarrow> (serve repr_json incoming fresh res, st2))"
  by (simp add: api_request_def authed_route_def require_auth_def assms)

text \<open>
  C27. A request to an authenticated route that fits its schema (FastAPI answers 422 to others, before the authentication and outside the
  model) and carries no key the database accepts is answered with 401 and the error object with the
  request's identifier, whatever the route would do: its handler does not run, and neither the database nor
  the tenant's rate-limit counter nor a metric changes. A request with such a key that the limiter counts past the limit of the
  plan is answered with 429 and \<open>Retry-After\<close>; the handler does not run, the rejection is counted, and the database
  changes in the key's time of last use only.
\<close>

theorem rejected_requests_stop_at_the_door:
  assumes "db_ok (as_db st)"
  shows "((\<forall>k tn. \<not> opens (strip (removeprefix authz ''Bearer '')) (as_db st) k tn) \<longrightarrow>
      (\<exists>message. api_request repr_json incoming fresh C authz now time handler st =
         (Inr (error_answer 401 ''UNAUTHORIZED'' message (request_id incoming fresh)), st))) \<and>
    (\<forall>ctx d1 c1 n. startswith authz ''Bearer '' \<and> strip (removeprefix authz ''Bearer '') \<noteq> [] \<and>
        auth_session now (hash_api_key (strip (removeprefix authz ''Bearer ''))) (as_db st) = Inr (ctx, d1) \<and>
        incr C (rate_limit_key (ctx_tenant_id ctx) (window_of time)) (as_counters st) = (Inr n, c1) \<and>
        plan_limit (ctx_plan ctx) < n \<longrightarrow>
      api_request repr_json incoming fresh C authz now time handler st =
        (Inr (error_answer 429 ''RATE_LIMITED'' ''rate limit exceeded'' (request_id incoming fresh)),
         st\<lparr>as_db := d1, as_counters := c1, as_metrics := as_metrics st @ [Rate_limit_rejections_total ''tenant'']\<rparr>))"
    (is "?unknown \<and> ?limited")
proof
  show ?unknown using bad_credentials [OF assms] api_request_refused by (metis (no_types, lifting))
  have "n \<noteq> 1" if "plan_limit plan < n" for plan n
    using that by (auto simp: plan_limit_def RATE_LIMITS_def split: if_splits)
  then show ?limited
    by (auto intro!: api_request_refused simp: get_auth_context_def enforce_rate_limit_def Let_def)
qed

text \<open>A state whose tenant has a key and has used up its window.\<close>

definition sample_busy_state :: "counters api_state" where
  "sample_busy_state =
     \<lparr>as_db = sample_db\<lparr>api_keys := [sample_api_key\<lparr>ak_key_hash := hash_api_key ''k''\<rparr>]\<rparr>,
      as_counters = \<lparr>ct_val = (\<lambda>_. 10000), ct_ttl = (\<lambda>_. None), ct_up = True\<rparr>, as_metrics = []\<rparr>"

lemma sample_busy_state_ok: "db_ok (as_db sample_busy_state)"
  by (simp add: sample_busy_state_def db_ok_def keys_ok_def refs_ok_def sample_defs tab_get_Cons)

theorem rejected_requests_stop_at_the_door_witness:
  "(\<exists>message. api_request (\<lambda>_. []) (Some ''r1'') 0 reference_counters ''Basic x'' 0 0
       (\<lambda>ctx st. (Inl (OtherError ''handler''), st)) (sample_api_state\<lparr>as_db := sample_db\<lparr>api_keys := []\<rparr>\<rparr>) =
     (Inr (error_answer 401 ''UNAUTHORIZED'' message ''r1''), sample_api_state\<lparr>as_db := sample_db\<lparr>api_keys := []\<rparr>\<rparr>)) \<and>
   fst (api_request (\<lambda>_. []) (Some ''r1'') 0 reference_counters ''Bearer k'' 0 0
       (\<lambda>ctx st. (Inl (OtherError ''handler''), st)) sample_busy_state) =
     Inr (error_answer 429 ''RATE_LIMITED'' ''rate limit exceeded'' ''r1'')"
proof
  let ?handler = "\<lambda>(ctx :: auth_context) st :: counters api_state. (Inl (OtherError ''handler''), st)"
  have rid: "request_id (Some ''r1'') 0 = ''r1''" by code_simp
  let ?st = "sample_api_state\<lparr>as_db := sample_db\<lparr>api_keys := []\<rparr>\<rparr>"
  have "db_ok (as_db ?st)" by (simp add: db_ok_def keys_ok_def refs_ok_def sample_defs)
  with rid show "\<exists>message. api_request (\<lambda>_. []) (Some ''r1'') 0 reference_counters ''Basic x'' 0 0 ?handler ?st =
      (Inr (error_answer 401 ''UNAUTHORIZED'' message ''r1''), ?st)"
    using rejected_requests_stop_at_the_door [of ?st "''Basic x''" "\<lambda>_. []" "Some ''r1''" 0 reference_counters 0 0 ?handler]
    by (simp add: opens_def)
  let ?ctx = "\<lparr>ctx_tenant_id = 1, ctx_api_key_id = ak_id sample_api_key, ctx_plan = tn_plan sample_tenant\<rparr>"
  have raw: "strip (removeprefix ''Bearer k'' ''Bearer '') = ''k''" "startswith ''Bearer k'' ''Bearer ''" by code_simp+
  have "get_tenant 1 (as_db sample_busy_state) = Some sample_tenant"
    by (simp add: sample_busy_state_def get_tenant_def sample_defs tab_get_Cons)
  then obtain d1 where "auth_session 0 (hash_api_key ''k'') (as_db sample_busy_state) = Inr (?ctx, d1)"
    by (simp add: auth_session_def scalar_one_or_none_def sample_busy_state_def sample_api_key_def sample_tenant_def)
  moreover have "incr reference_counters (rate_limit_key 1 (window_of 0)) (as_counters sample_busy_state) =
      (Inr 10001, \<lparr>ct_val = (\<lambda>_. 10000)(rate_limit_key 1 (window_of 0) := 10001), ct_ttl = (\<lambda>_. None), ct_up = True\<rparr>)"
    by (simp add: reference_counters_def rc_incr_def sample_busy_state_def)
  moreover have "plan_limit (tn_plan sample_tenant) < 10001"
    by (simp add: plan_limit_def RATE_LIMITS_def sample_tenant_def)
  ultimately show "fst (api_request (\<lambda>_. []) (Some ''r1'') 0 reference_counters ''Bearer k'' 0 0 ?handler sample_busy_state) =
      Inr (error_answer 429 ''RATE_LIMITED'' ''rate limit exceeded'' ''r1'')"
    using rejected_requests_stop_at_the_door [OF sample_busy_state_ok, of "''Bearer k''" "\<lambda>_. []" "Some ''r1''" 0
        reference_counters 0 0 ?handler, THEN conjunct2, rule_format, of ?ctx d1] raw rid by simp
qed

end
