(* ===== verification/System.thy ===== *)
theory System
  imports Outbox_Publisher Worker Engine_Properties Scheduler Api_Main
begin

text \<open>
  The components together: what a message carries from the API through the outbox and the stream to the
  worker, and one step relation for everything that changes the shared database and stream.
\<close>

section \<open>From a row to a message and back\<close>

text \<open>The worker reads from a message the payload that was published.\<close>

lemma message_payload_printed:
  assumes "map_of (msg_fields m) ''payload'' = Some (json_dumps (JObj p))" "wf_json (JObj p)"
  shows "message_payload m = Inr p"
  using json_loads_dumps [OF assms(2)] assms(1) by (simp add: message_payload_def)

lemma message_of_outbox:
  "msg_fields m = outbox_fields ob \<Longrightarrow> wf_json (JObj (ob_payload ob)) \<Longrightarrow> message_payload m = Inr (ob_payload ob)"
  by (rule message_payload_printed) (simp_all add: outbox_fields_def)

lemma message_of_retry:
  "msg_fields m = retry_fields isof ev dl \<Longrightarrow> wf_json (JObj (retry_payload isof ev dl)) \<Longrightarrow>
   message_payload m = Inr (retry_payload isof ev dl)"
  by (rule message_payload_printed) (simp_all add: retry_fields_def)

lemma wf_json_opt [simp]: "wf_json (opt_str x)" "wf_json (opt_int n)"
  by (simp_all add: opt_str_def opt_int_def split: option.split)

lemma wf_event_payload:
  "wf_json (ev_payload ev) \<Longrightarrow> wf_json (JObj (event_payload isof now t ev))"
  "wf_json (ev_payload ev) \<Longrightarrow> wf_json (JObj (replay_payload renv t ev))"
  "wf_json (ev_payload ev) \<Longrightarrow> wf_json (JObj (dlq_replay_payload renv t dl ev))"
  "wf_json (ev_payload ev) \<Longrightarrow> wf_json (JObj (retry_payload isof ev dl))"
  by (simp_all add: event_payload_def replay_payload_def dlq_replay_payload_def retry_payload_def)

lemma parse_retry_payload:
  "parse_payload (retry_payload isof ev dl) =
     Inr (ev_id ev, ev_tenant_id ev, JStr (ev_event_type ev), Some (JStr (str_uuid (dl_endpoint_id dl))))"
  by (simp add: retry_payload_def parse_payload_def dict_item_def dict_get_def json_uuid_def)

lemma str_uuid_neq_Nil [simp]: "str_uuid u \<noteq> []"
  by (simp add: str_uuid_def Let_def)

lemma resolve_target:
  "resolve_endpoints scan tid et (Some (JStr (str_uuid i))) d =
     Inr (case get_endpoint i d of
            Some ep \<Rightarrow> if ep_status ep = endpoint_status_value EP_ACTIVE then [i] else []
          | None \<Rightarrow> [])"
  by (auto simp: resolve_endpoints_def truthy_def json_uuid_def dest: get_row_id split: option.split)

section \<open>When a request is sent\<close>

text \<open>A call for a closed endpoint whose row can be written, whose URL is safe and whose secret decrypts sends its request.\<close>

lemma closed_endpoint_is_sent:
  assumes "get_event_row eid (es_db st) = Some ev" "get_endpoint epid (es_db st) = Some ep"
    "ep_circuit_state ep = circuit_state_value CLOSED"
    "insert_delivery (started_row env ev ep n) (es_db st) = Inr d1"
    "validate_webhook_url (de_net env) (ep_url ep) (max_endpoint_url_length s) = Inr ()"
    "de_decrypt env (ep_secret_encrypted ep) = Inr sec"
  shows "es_sent (snd (deliver_to_endpoint s env eid epid n st)) = es_sent st @ [delivery_request env sec ev ep n]"
proof -
  obtain cb where cb: "load_circuit_breaker s ep = Inr cb" "state (cb_state cb) = CLOSED"
    using assms(3) by (simp add: load_circuit_breaker_def Let_def del: circuit_state_value.simps)
  have "deliver_to_endpoint s env eid epid n st = send_and_finish s env sec ev ep cb n (started_state ev d1 st)"
    using assms(1,2,6) cb(1) loaded_closed_allows [OF cb(2)] attempt_valid [OF assms(4,5)]
    by (simp add: deliver_to_endpoint_def)
  with send_and_finish_sent [OF prod.collapse [symmetric], of s env sec ev ep cb n "started_state ev d1 st"]
  show ?thesis by simp
qed

section \<open>What the engine leaves alone\<close>

definition other_tables :: "db \<Rightarrow> tenant list \<times> api_key list \<times> endpoint_subscription list \<times> idempotency_key list \<times>
    outbox_event list" where
  "other_tables d = (tenants d, api_keys d, subscriptions d, idempotency_keys d, outbox_events d)"

lemma other_tables_modify [simp]:
  "other_tables (modify_event i f d) = other_tables d" "other_tables (modify_endpoint i g d) = other_tables d"
  "other_tables (modify_delivery i h d) = other_tables d"
  by (simp_all add: other_tables_def modify_defs)

lemma other_tables_insert: "insert_delivery r d = Inr d' \<Longrightarrow> other_tables d' = other_tables d"
  by (auto simp: other_tables_def dest: insert_frame(4))

lemma other_tables_steps [simp]:
  "other_tables (save_circuit_breaker now ep cb d) = other_tables d"
  "other_tables (maybe_complete_event now ev d) = other_tables d"
  "other_tables (set_processing now ev d) = other_tables d"
  by (simp_all add: save_circuit_breaker_def maybe_complete_event_def set_processing_def Let_def)

lemma other_tables_failure:
  "finish_failure s env ev ep cb c res n st = (r, st') \<Longrightarrow> other_tables (es_db st') = other_tables (es_db st)"
  by (auto simp: finish_failure_def Let_def split: if_splits sum.splits prod.splits)

lemma other_tables_answer_step:
  assumes "answer_step s a h eps st = (pt', st')"
  shows "other_tables (es_db st') = other_tables (es_db st)"
  using assms by (cases rule: answer_step_cases) (auto dest: other_tables_failure)

lemma other_tables_task_step:
  assumes "task_step s E msg pt st = (pt', st')"
  shows "other_tables (es_db st') = other_tables (es_db st)"
proof (cases pt)
  case (Looping eid eps)
  with assms show ?thesis by (cases eps) (auto simp: task_step_def)
next
  case (Answered a h eps)
  with assms other_tables_answer_step show ?thesis by (simp add: task_step_def)
qed (use assms in \<open>auto simp: task_step_def record_step_def send_step_def success_step_def commit_processing_def
      complete_event_def schedule_retry_def Let_def split: if_splits sum.splits exn.splits http_result.splits
      dest: other_tables_insert\<close>)

section \<open>All writers of the database\<close>

text \<open>A request to the API, whatever its outcome; authentication records the key's last use.\<close>

inductive api_step :: "fernet \<Rightarrow> settings \<Rightarrow> db \<Rightarrow> db \<Rightarrow> bool" for F s where
  api_auth: "auth_session now h d = Inr (ctx, d') \<Longrightarrow> api_step F s d d'"
| api_create_event: "create_event s env body hdr ctx (d, ms) = (r, (d', ms')) \<Longrightarrow> api_step F s d d'"
| api_replay_event: "replay_event renv i ctx d = (r', d') \<Longrightarrow> api_step F s d d'"
| api_create_endpoint: "create_endpoint F s nenv nbody ctx d = (nr, d') \<Longrightarrow> api_step F s d d'"
| api_update_endpoint: "update_endpoint s nenv i ubody ctx d = (ur, d') \<Longrightarrow> api_step F s d d'"
| api_delete_endpoint: "delete_endpoint i ctx d = (xr, d') \<Longrightarrow> api_step F s d d'"
| api_replay_dlq: "replay_dlq_entry renv i ctx d = (r', d') \<Longrightarrow> api_step F s d d'"

text \<open>
  The API, the outbox publisher, the workers, and the scheduler's start and two loops, each step on the database and the
  stream that the others left; the worker's record holds both.
\<close>

definition wk_db :: "'r fleet \<Rightarrow> db" where
  "wk_db w = es_db (wk_engine w)"

definition with_db :: "db \<Rightarrow> 'r fleet \<Rightarrow> 'r fleet" where
  "with_db d w = w\<lparr>wk_engine := (wk_engine w)\<lparr>es_db := d\<rparr>\<rparr>"

inductive system_step :: "fernet \<Rightarrow> settings \<Rightarrow> 'r redis_client \<Rightarrow> 'r fleet \<Rightarrow> 'r fleet \<Rightarrow> bool" for F s R where
  sys_worker: "worker_step s R w w' \<Longrightarrow> system_step F s R w w'"
| sys_api: "api_step F s (wk_db w) d' \<Longrightarrow> system_step F s R w (with_db d' w)"
| sys_publisher: "is_scan scan \<Longrightarrow>
    publish_batch R (worker_stream_name s) n scan locked nows now (wk_db w, wk_redis w) = (k, (d', r')) \<Longrightarrow>
    system_step F s R w (with_db d' (w\<lparr>wk_redis := r'\<rparr>))"
| sys_retry: "is_scan dscan \<Longrightarrow>
    retry_requeue_pass s R isof dscan locked now (wk_db w, wk_redis w) = (d', r') \<Longrightarrow>
    system_step F s R w (with_db d' (w\<lparr>wk_redis := r'\<rparr>))"
| sys_cleanup: "system_step F s R w (with_db (cleanup_pass s now (wk_db w)) w)"
| sys_scheduler_start: "ensure_group R (worker_stream_name s) (worker_consumer_group s) (wk_redis w) = (eres, r') \<Longrightarrow>
    system_step F s R w (w\<lparr>wk_redis := r'\<rparr>)"

inductive system_reach :: "fernet \<Rightarrow> settings \<Rightarrow> 'r redis_client \<Rightarrow> 'r fleet \<Rightarrow> 'r fleet \<Rightarrow> bool" for F s R w where
  sys_refl: "system_reach F s R w w"
| sys_step: "system_reach F s R w w' \<Longrightarrow> system_step F s R w' w'' \<Longrightarrow> system_reach F s R w w''"

lemma with_db_simps [simp]:
  "wk_db (with_db d w) = d" "wk_redis (with_db d w) = wk_redis w" "wk_done (with_db d w) = wk_done w"
  "wk_db (w\<lparr>wk_redis := r\<rparr>) = wk_db w"
  by (simp_all add: wk_db_def with_db_def)

section \<open>The schema's constraints\<close>

lemma auth_session_writes:
  assumes "auth_session now h d = Inr (ctx, d')"
  shows "\<exists>i. d' = modify_api_key i (\<lambda>r. r\<lparr>ak_last_used_at := Some now\<rparr>) d"
proof -
  from assms obtain row where row: "scalar_one_or_none (filter (\<lambda>k. ak_key_hash k = h) (api_keys d)) = Inr row"
    unfolding auth_session_def rbind_Inr_iff by blast
  show ?thesis
  proof (cases row)
    case None
    with assms row show ?thesis by (simp add: auth_session_def)
  next
    case (Some k)
    with row have "filter (\<lambda>k. ak_key_hash k = h) (api_keys d) = [k]" by simp
    from auth_session_row [OF this, of now] assms show ?thesis
      by (auto split: if_splits option.splits)
  qed
qed

lemma db_ok_auth_session: "auth_session now h d = Inr (ctx, d') \<Longrightarrow> db_ok d \<Longrightarrow> db_ok d'"
  by (auto dest!: auth_session_writes intro!: db_ok_modify_api_key)

lemma db_ok_update_endpoint:
  assumes "update_endpoint s env i body ctx d = (r, d')" "db_ok d"
  shows "db_ok d'"
  using assms(1)
proof (cases rule: update_endpoint_cases)
  case (failed e)
  with assms(2) show ?thesis by simp
next
  case (updated ep d1)
  from flush_endpoint_result(4) [OF updated(4,1) patch_endpoint_simps(1) assms(2)]
  have "db_ok d1" by simp
  from replace_subscriptions_result(4) [OF updated(5) this] show ?thesis .
qed

lemma db_ok_api_step: "api_step F s d d' \<Longrightarrow> db_ok d \<Longrightarrow> db_ok d'"
  by (induction rule: api_step.induct)
    (blast intro: db_ok_auth_session db_ok_create_event db_ok_replay_event db_ok_create_endpoint
      db_ok_update_endpoint db_ok_delete_endpoint db_ok_replay_dlq_entry)+

lemma db_ok_system_step:
  assumes "system_step F s R w w'" "db_ok (wk_db w)"
  shows "db_ok (wk_db w')"
  using assms
proof (induction rule: system_step.induct)
  case (sys_worker w w')
  then show ?case unfolding wk_db_def by (rule worker_step_db_ok)
next
  case (sys_api w d')
  then show ?case by (simp add: db_ok_api_step)
next
  case (sys_publisher scan n locked nows now w k d' r')
  with db_ok_publish_batch [of "(wk_db w, wk_redis w)" R "worker_stream_name s" n scan locked nows now]
  show ?case by simp
next
  case (sys_retry dscan isof locked now w d' r')
  from sys_retry(2,3) show ?case
    by (auto elim!: retry_requeue_pass_cases dest: db_ok_requeue_rows)
next
  case (sys_cleanup w now)
  then show ?case by (simp add: db_ok_cleanup_pass)
next
  case (sys_scheduler_start w eres r')
  then show ?case by simp
qed

lemma db_ok_system_reach:
  "system_reach F s R w w' \<Longrightarrow> db_ok (wk_db w) \<Longrightarrow> db_ok (wk_db w')"
  by (induction rule: system_reach.induct) (auto dest: db_ok_system_step)

section \<open>Published rows and their messages\<close>

text \<open>What happens to the outbox in a step: rows go, or stay, or are added as pending.\<close>

definition outbox_grows :: "db \<Rightarrow> db \<Rightarrow> bool" where
  "outbox_grows d d' \<longleftrightarrow>
     (\<forall>ob \<in> set (outbox_events d'). ob \<in> set (outbox_events d) \<or> ob_status ob = outbox_status_value OB_PENDING)"

lemma outbox_grows_same: "outbox_events d' = outbox_events d \<Longrightarrow> outbox_grows d d'"
  by (simp add: outbox_grows_def)

lemma outbox_grows_snoc:
  "outbox_events d' = outbox_events d @ [ob] \<Longrightarrow> ob_status ob = outbox_status_value OB_PENDING \<Longrightarrow> outbox_grows d d'"
  by (auto simp: outbox_grows_def)

lemma outbox_create_event:
  assumes "create_event s env body hdr ctx (d, ms) = (r, (d', ms'))"
  shows "outbox_grows d d'"
  using assms
proof (cases rule: create_event_cases)
  case created
  from create_rows_result(1) [OF created(1)] show ?thesis by - (rule outbox_grows_snoc, simp, simp)
qed (simp_all add: outbox_grows_same)

lemma outbox_replay_event:
  assumes "replay_event env i ctx d = (r, d')"
  shows "outbox_grows d d'"
proof (cases "get_event_row i d")
  case None
  with assms show ?thesis by (simp add: replay_event_def outbox_grows_same)
next
  case (Some ev)
  show ?thesis
  proof (cases "insert_outbox (replay_row env ctx ev) (mark_queued env ev d)")
    case (Inl e)
    with assms Some show ?thesis by (simp add: replay_event_def outbox_grows_same split: if_splits)
  next
    case (Inr d2)
    from insert_frame(6) [OF Inr] mark_queued_simps(2) [OF Some, of env]
    have "outbox_grows d d2" by - (rule outbox_grows_snoc, simp, simp add: replay_row_def)
    with assms Some Inr show ?thesis by (simp add: replay_event_def outbox_grows_same split: if_splits)
  qed
qed

lemma outbox_replay_dlq:
  assumes "replay_dlq_entry env i ctx d = (r, d')"
  shows "outbox_grows d d'"
  using assms
proof (cases rule: replay_dlq_entry_cases)
  case (replayed dl ev)
  from insert_frame(6) [OF replayed(3)] show ?thesis
    by - (rule outbox_grows_snoc, simp, simp add: dlq_replay_row_def)
qed (simp_all add: outbox_grows_same)

lemma outbox_create_endpoint:
  assumes "create_endpoint F s env body ctx d = (r, d')"
  shows "outbox_grows d d'"
  using assms
proof (cases rule: create_endpoint_cases)
  case (created token d1)
  from insert_frame(2) [OF created(3)] created(4) show ?thesis
    by (intro outbox_grows_same) (simp add: insert_subscriptions_iff)
qed (simp add: outbox_grows_same)

lemma outbox_update_endpoint:
  assumes "update_endpoint s env i body ctx d = (r, d')"
  shows "outbox_grows d d'"
  using assms
proof (cases rule: update_endpoint_cases)
  case (updated ep d1)
  from updated(4) have "outbox_events d1 = outbox_events d"
    by (auto simp: flush_endpoint_def modify_endpoint_def split: if_splits)
  moreover have "outbox_events d' = outbox_events d1"
    using replace_subscriptions_result(3) [OF updated(5)] by (metis db.ext_inject db.surjective db.update_convs(4))
  ultimately show ?thesis by (simp add: outbox_grows_same)
qed (simp add: outbox_grows_same)

lemma outbox_delete_endpoint: "delete_endpoint i ctx d = (r, d') \<Longrightarrow> outbox_grows d d'"
  using delete_endpoint_eq [of i ctx d] by (auto intro!: outbox_grows_same split: if_splits)

lemma outbox_api_step: "api_step F s d d' \<Longrightarrow> outbox_grows d d'"
proof (induction rule: api_step.induct)
  case (api_auth now h d ctx d')
  then show ?case by (auto dest!: auth_session_writes simp: modify_api_key_def intro!: outbox_grows_same)
qed (fact outbox_create_event outbox_replay_event outbox_create_endpoint outbox_update_endpoint
    outbox_delete_endpoint outbox_replay_dlq)+

lemma outbox_cleanup: "outbox_grows d (cleanup_pass s now d)"
  by (auto simp: outbox_grows_def cleanup_pass_cases cleanup_children_def Let_def delete_defs)

lemma outbox_requeue_rows:
  "requeue_rows R stream isof dls d r = (Inr d', r') \<Longrightarrow> outbox_events d' = outbox_events d"
  by (induction R stream isof dls d r rule: requeue_rows.induct)
    (auto split: option.splits prod.splits sum.splits simp: modify_delivery_def)

lemma outbox_retry_pass:
  "retry_requeue_pass s R isof scan locked now (d, r) = (d', r') \<Longrightarrow> outbox_events d' = outbox_events d"
  by (auto elim!: retry_requeue_pass_cases dest: outbox_requeue_rows)

lemma outbox_worker_step:
  assumes "worker_step s R w w'"
  shows "outbox_events (wk_db w') = outbox_events (wk_db w)"
  using assms
proof (induction rule: worker_step.induct)
  case (step_task w ts t us E pt st)
  from other_tables_task_step [OF step_task(2)] show ?case by (simp add: wk_db_def other_tables_def)
qed (auto simp: wk_db_def worker_process_defs split: prod.splits sum.splits)

text \<open>The API and the publisher do not touch deliveries.\<close>

lemma deliveries_update_endpoint:
  assumes "update_endpoint s env i body ctx d = (r, d')" "db_ok d"
  shows "deliveries d' = deliveries d"
  using assms(1)
proof (cases rule: update_endpoint_cases)
  case (updated ep d1)
  have "deliveries d1 = deliveries d"
    using flush_endpoint_result(3) [OF updated(4,1) patch_endpoint_simps(1) assms(2)]
    by (metis db.ext_inject db.surjective db.update_convs(3))
  moreover have "deliveries d' = deliveries d1"
    using replace_subscriptions_result(3) [OF updated(5)] by (metis db.ext_inject db.surjective db.update_convs(4))
  ultimately show ?thesis by simp
qed simp

lemma deliveries_create_endpoint:
  assumes "create_endpoint F s env body ctx d = (r, d')"
  shows "deliveries d' = deliveries d"
  using assms
proof (cases rule: create_endpoint_cases)
  case (created token d1)
  from created(4) insert_frame(2) [OF created(3)] show ?thesis by (simp add: insert_subscriptions_iff)
qed simp

lemma deliveries_create_event:
  assumes "create_event s env body hdr ctx (d, ms) = (r, (d', ms'))"
  shows "deliveries d' = deliveries d"
  using assms
proof (cases rule: create_event_cases)
  case created
  from create_rows_result(1) [OF created(1)] show ?thesis by simp
qed simp_all

lemma deliveries_replays:
  "replay_event renv i ctx d = (r, d') \<Longrightarrow> deliveries d' = deliveries d"
  "replay_dlq_entry renv i ctx d = (r, d') \<Longrightarrow> deliveries d' = deliveries d"
  by (auto simp: replay_event_def replay_dlq_entry_def mark_queued_def modify_event_def
      split: option.splits sum.splits prod.splits if_splits dest!: insert_frame(6))

lemma deliveries_api_step:
  assumes "api_step F s d d'" "db_ok d"
  shows "deliveries d' = deliveries d"
  using assms
proof (induction rule: api_step.induct)
  case (api_auth now h d ctx d')
  then show ?case by (auto dest!: auth_session_writes simp: modify_api_key_def)
next
  case (api_delete_endpoint i ctx d xr d')
  then show ?case using delete_endpoint_eq [of i ctx d] by (auto split: if_splits)
qed (blast intro: deliveries_create_event deliveries_replays deliveries_create_endpoint deliveries_update_endpoint)+

lemma deliveries_publish_row: "deliveries (fst (publish_row R stream now db_now row st)) = deliveries (fst st)"
  by (cases st) (auto simp: publish_row_def queue_event_def modify_defs split: prod.split sum.split option.split)

lemma deliveries_publish_rows: "deliveries (fst (publish_rows R stream nows k db_now rows st)) = deliveries (fst st)"
  by (induction rows arbitrary: k st) (simp_all add: deliveries_publish_row)

lemma deliveries_publish_batch:
  "publish_batch R stream n scan locked nows now (d, r) = (k, (d', r')) \<Longrightarrow> deliveries d' = deliveries d"
  using deliveries_publish_rows [of R stream nows 0 now "select_batch scan locked n d" "(d, r)"]
  by (auto simp: publish_batch_def Let_def split: if_splits)

text \<open>A message that the group still has to process, or one whose processing returned: this message, not one like it.\<close>

definition safe_message :: "(string \<Rightarrow> string \<Rightarrow> 'r \<Rightarrow> stream_message list) \<Rightarrow> (string \<Rightarrow> string \<Rightarrow> 'r \<Rightarrow> stream_message list) \<Rightarrow>
    settings \<Rightarrow> 'r fleet \<Rightarrow> stream_message \<Rightarrow> bool" where
  "safe_message undelivered pending s w m \<longleftrightarrow>
     m \<in> set (undelivered (worker_stream_name s) (worker_consumer_group s) (wk_redis w)) \<union>
         set (pending (worker_stream_name s) (worker_consumer_group s) (wk_redis w)) \<union> set (wk_done w)"

definition published_kept :: "(string \<Rightarrow> string \<Rightarrow> 'r \<Rightarrow> stream_message list) \<Rightarrow> (string \<Rightarrow> string \<Rightarrow> 'r \<Rightarrow> stream_message list) \<Rightarrow>
    settings \<Rightarrow> 'r fleet \<Rightarrow> bool" where
  "published_kept undelivered pending s w \<longleftrightarrow>
     (\<forall>ob \<in> set (outbox_events (wk_db w)). ob_status ob = outbox_status_value OB_PUBLISHED \<longrightarrow>
        (\<exists>m. msg_fields m = outbox_fields ob \<and> safe_message undelivered pending s w m))"

lemma published_kept_grows:
  assumes "published_kept undelivered pending s w" "outbox_grows (wk_db w) (wk_db w')"
    "\<And>m. safe_message undelivered pending s w m \<Longrightarrow> safe_message undelivered pending s w' m"
  shows "published_kept undelivered pending s w'"
  unfolding published_kept_def
proof (intro ballI impI)
  fix ob assume ob: "ob \<in> set (outbox_events (wk_db w'))" "ob_status ob = outbox_status_value OB_PUBLISHED"
  then have "ob_status ob \<noteq> outbox_status_value OB_PENDING" by simp
  with ob(1) assms(2) have "ob \<in> set (outbox_events (wk_db w))" unfolding outbox_grows_def by blast
  with ob(2) assms(1,3) show "\<exists>m. msg_fields m = outbox_fields ob \<and> safe_message undelivered pending s w' m"
    unfolding published_kept_def by blast
qed

lemma outbox_fields_published [simp]: "outbox_fields (published_row now ob) = outbox_fields ob"
  by (simp add: outbox_fields_def published_row_def)

context redis_log
begin

lemma publish_rows_grow_log:
  "publish_rows R stream nows k db_now rows (d, r) = (d', r') \<Longrightarrow> set (entries stream r) \<subseteq> set (entries stream r')"
proof (induction rows arbitrary: k d r)
  case (Cons row rows)
  obtain d1 r1 where s1: "publish_row R stream (nows k) db_now row (d, r) = (d1, r1)" by fastforce
  then have "r1 = snd (publish R stream (outbox_fields row) r)"
    by (auto simp: publish_row_def split: prod.splits sum.splits)
  then have "set (entries stream r) \<subseteq> set (entries stream r1)" using pub_log [OF surjective_pairing] by simp
  moreover have "set (entries stream r1) \<subseteq> set (entries stream r')" using Cons s1 by simp
  ultimately show ?case by blast
qed simp

lemma requeue_rows_grow_log:
  "requeue_rows R stream isof dls d r = (res, r') \<Longrightarrow> set (entries stream r) \<subseteq> set (entries stream r')"
proof (induction dls arbitrary: d r)
  case (Cons dl dls)
  show ?case
  proof (cases "get_event_row (dl_event_id dl) d")
    case None
    with Cons show ?thesis by simp
  next
    case (Some ev)
    obtain pres r1 where p: "publish R stream (retry_fields isof ev dl) r = (pres, r1)" by fastforce
    note grown = pub_log [OF p]
    show ?thesis
    proof (cases pres)
      case (Inl e)
      with grown Cons.prems Some p show ?thesis by simp
    next
      case (Inr i)
      with Cons.prems Some p have "requeue_rows R stream isof dls (modify_delivery (dl_id dl) requeued d) r1 = (res, r')"
        by simp
      from Cons.IH [OF this] grown show ?thesis by blast
    qed
  qed
qed simp

lemma system_step_grows_log:
  assumes "system_step F s R w w'"
  shows "set (entries (worker_stream_name s) (wk_redis w)) \<subseteq> set (entries (worker_stream_name s) (wk_redis w'))"
  using assms
proof (cases rule: system_step.cases)
  case sys_worker
  then show ?thesis by (rule step_log_grows)
next
  case (sys_publisher scan n locked nows now k d' r')
  from publish_rows_grow_log [OF publish_batch_rows(2) [OF sys_publisher(3)]] sys_publisher(1) show ?thesis by simp
next
  case (sys_retry dscan isof locked now d' r')
  then obtain res where "requeue_rows R (worker_stream_name s) isof (select_due dscan locked now (wk_db w)) (wk_db w)
      (wk_redis w) = (res, r')"
    by (auto elim!: retry_requeue_pass_cases)
  from requeue_rows_grow_log [OF this] sys_retry(1) show ?thesis by simp
next
  case (sys_scheduler_start eres r')
  from ens_log [OF sys_scheduler_start(2)] sys_scheduler_start(1) show ?thesis by simp
qed simp_all

lemma system_step_keeps_log:
  assumes "system_step F s R w w'" "ready (worker_stream_name s) (worker_consumer_group s) (wk_redis w)"
    "fleet_messages w \<subseteq> set (entries (worker_stream_name s) (wk_redis w))"
  shows "fleet_messages w' \<subseteq> set (entries (worker_stream_name s) (wk_redis w'))"
proof -
  have "fleet_messages w' = fleet_messages w \<or> worker_step s R w w'"
    using assms(1) by (cases rule: system_step.cases) (simp_all add: fleet_messages_def with_db_def)
  with step_keeps_log [OF _ assms(2,3)] system_step_grows_log [OF assms(1)] assms(3) show ?thesis by blast
qed

lemma safe_in_log:
  assumes "safe_message undelivered pending s w m" "ready (worker_stream_name s) (worker_consumer_group s) (wk_redis w)"
    "fleet_messages w \<subseteq> set (entries (worker_stream_name s) (wk_redis w))"
  shows "m \<in> set (entries (worker_stream_name s) (wk_redis w))"
  using assms(1,3) log_covers [OF assms(2)] unfolding safe_message_def fleet_messages_def by blast


lemma kept_publish:
  assumes "publish_batch R (worker_stream_name s) n scan locked nows now (wk_db w, wk_redis w) = (k, (d', r'))"
    "is_scan scan" "db_ok (wk_db w)" "ready (worker_stream_name s) (worker_consumer_group s) (wk_redis w)"
    "published_kept undelivered pending s w"
  shows "ready (worker_stream_name s) (worker_consumer_group s) r' \<and>
    published_kept undelivered pending s (with_db d' (w\<lparr>wk_redis := r'\<rparr>))"
proof -
  let ?w' = "with_db d' (w\<lparr>wk_redis := r'\<rparr>)"
  define batch where "batch = select_batch scan locked n (wk_db w)"
  note rows = publish_batch_rows(2) [OF assms(1), folded batch_def]
  have cur: "\<forall>ob \<in> set batch. get_outbox (ob_id ob) (wk_db w) = Some ob"
    using batch_rows_current [OF assms(3,2)] by (simp add: batch_def)
  have dist: "distinct (map ob_id batch)" using select_batch_distinct [OF assms(2,3)] by (simp add: batch_def)
  note out = publish_rows_outbox [OF rows dist cur]
  from publish_rows_log [OF rows dist cur assms(4)] obtain ms where
    rdy: "ready (worker_stream_name s) (worker_consumer_group s) r'" and ms:
    "undelivered (worker_stream_name s) (worker_consumer_group s) r' =
       undelivered (worker_stream_name s) (worker_consumer_group s) (wk_redis w) @ ms"
    "pending (worker_stream_name s) (worker_consumer_group s) r' =
       pending (worker_stream_name s) (worker_consumer_group s) (wk_redis w)"
    "\<forall>ob \<in> set batch. is_published (ob_id ob) d' \<longrightarrow> outbox_fields ob \<in> msg_fields ` set ms" by blast
  have safe: "safe_message undelivered pending s ?w' m" if "safe_message undelivered pending s w m" for m
    using that ms(1,2) by (auto simp: safe_message_def with_db_def)
  have new: "safe_message undelivered pending s ?w' m" if "m \<in> set ms" for m
    using that ms(1) by (simp add: safe_message_def with_db_def)
  have ok: "db_ok d'" using db_ok_publish_batch [of "(wk_db w, wk_redis w)"] assms(1,3) by (metis fst_conv snd_conv)
  have "\<exists>m. msg_fields m = outbox_fields ob \<and> safe_message undelivered pending s ?w' m"
    if ob: "ob \<in> set (outbox_events d')" "ob_status ob = outbox_status_value OB_PUBLISHED" for ob
  proof (cases "ob_id ob \<in> ob_id ` set batch")
    case True
    then obtain row where row: "row \<in> set batch" "ob_id row = ob_id ob" by auto
    have here: "get_outbox (ob_id row) d' = Some ob" using db_ok_get(4) [OF ok ob(1)] row(2) by simp
    with ob(2) have "is_published (ob_id row) d'" by (simp add: is_published_def)
    with ms(3) row(1) obtain m where m: "m \<in> set ms" "msg_fields m = outbox_fields row" by (metis imageE)
    from here ob(2) failed_row_not_published [of row] out row(1) obtain t where "ob = published_row t row"
      by (metis option.inject)
    with m new show ?thesis by auto
  next
    case False
    with out db_ok_get(4) [OF ok ob(1)] have "get_outbox (ob_id ob) (wk_db w) = Some ob" by simp
    then have "ob \<in> set (outbox_events (wk_db w))" by (rule get_row_mem)
    with assms(5) ob(2) safe show ?thesis unfolding published_kept_def by blast
  qed
  then have "published_kept undelivered pending s ?w'" by (simp add: published_kept_def)
  with rdy show ?thesis ..
qed

lemma kept_step:
  assumes "system_step F s R w w'" "db_ok (wk_db w)"
    "ready (worker_stream_name s) (worker_consumer_group s) (wk_redis w)" "published_kept undelivered pending s w"
    "fleet_messages w \<subseteq> set (entries (worker_stream_name s) (wk_redis w))"
  shows "ready (worker_stream_name s) (worker_consumer_group s) (wk_redis w') \<and>
    published_kept undelivered pending s w'"
  using assms
proof (induction rule: system_step.induct)
  case (sys_worker w w')
  have "safe_message undelivered pending s w' m" if "safe_message undelivered pending s w m" for m
    using step_keeps_own_message [OF sys_worker(1,3,5) that [unfolded safe_message_def]]
      safe_in_log [OF that sys_worker(3,5)] step_log_grows [OF sys_worker(1)] unfolding safe_message_def by blast
  with published_kept_grows [OF sys_worker(4) outbox_grows_same [OF outbox_worker_step [OF sys_worker(1)]]]
    step_keeps_messages [OF sys_worker(1,3)]
  show ?case by blast
next
  case (sys_api w d')
  have "published_kept undelivered pending s (with_db d' w)"
    using sys_api outbox_api_step [OF sys_api(1)]
    by (intro published_kept_grows [OF sys_api(4)]) (simp_all add: safe_message_def)
  with sys_api(3) show ?case by simp
next
  case (sys_publisher scan n locked nows now w k d' r')
  from kept_publish [OF sys_publisher(2,1,3,4,5)] show ?case by simp
next
  case (sys_retry dscan isof locked now w d' r')
  obtain res where "requeue_rows R (worker_stream_name s) isof (select_due dscan locked now (wk_db w)) (wk_db w)
      (wk_redis w) = (res, r')"
    using sys_retry(2) by (auto elim!: retry_requeue_pass_cases)
  from requeue_rows_log [OF this sys_retry(4)] obtain ms where log:
    "ready (worker_stream_name s) (worker_consumer_group s) r'"
    "undelivered (worker_stream_name s) (worker_consumer_group s) r' =
       undelivered (worker_stream_name s) (worker_consumer_group s) (wk_redis w) @ ms"
    "pending (worker_stream_name s) (worker_consumer_group s) r' =
       pending (worker_stream_name s) (worker_consumer_group s) (wk_redis w)" by blast
  have "published_kept undelivered pending s (with_db d' (w\<lparr>wk_redis := r'\<rparr>))"
    using log(2,3) outbox_retry_pass [OF sys_retry(2)]
    by (intro published_kept_grows [OF sys_retry(5)])
      (auto simp: safe_message_def with_db_def wk_db_def intro!: outbox_grows_same)
  with log(1) show ?case by simp
next
  case (sys_cleanup w now)
  have "published_kept undelivered pending s (with_db (cleanup_pass s now (wk_db w)) w)"
    by (intro published_kept_grows [OF sys_cleanup(3)]) (simp_all add: safe_message_def outbox_cleanup)
  with sys_cleanup(2) show ?case by simp
next
  case (sys_scheduler_start w eres r')
  from ens_law [OF sys_scheduler_start(1,3)] have log:
    "ready (worker_stream_name s) (worker_consumer_group s) r'"
    "undelivered (worker_stream_name s) (worker_consumer_group s) r' =
       undelivered (worker_stream_name s) (worker_consumer_group s) (wk_redis w)"
    "pending (worker_stream_name s) (worker_consumer_group s) r' =
       pending (worker_stream_name s) (worker_consumer_group s) (wk_redis w)" by simp_all
  have "published_kept undelivered pending s (w\<lparr>wk_redis := r'\<rparr>)"
    using log(2,3) by (intro published_kept_grows [OF sys_scheduler_start(4)]) (simp_all add: safe_message_def outbox_grows_same)
  with log(1) show ?case by simp
qed

lemma kept_reach:
  assumes "system_reach F s R w w'" "db_ok (wk_db w)"
    "ready (worker_stream_name s) (worker_consumer_group s) (wk_redis w)" "published_kept undelivered pending s w"
    "fleet_messages w \<subseteq> set (entries (worker_stream_name s) (wk_redis w))"
  shows "ready (worker_stream_name s) (worker_consumer_group s) (wk_redis w') \<and>
    published_kept undelivered pending s w' \<and>
    fleet_messages w' \<subseteq> set (entries (worker_stream_name s) (wk_redis w'))"
  using assms
proof (induction rule: system_reach.induct)
  case (sys_step w' w'')
  from kept_step [OF sys_step(2) db_ok_system_reach [OF sys_step(1,4)]] system_step_keeps_log [OF sys_step(2)]
    sys_step.IH [OF sys_step.prems]
  show ?case by blast
qed simp

end

section \<open>Ownership\<close>

definition owns_event :: "uuid \<Rightarrow> uuid \<Rightarrow> db \<Rightarrow> bool" where
  "owns_event tenant_id i d \<longleftrightarrow> (\<exists>ev. get_event_row i d = Some ev \<and> ev_tenant_id ev = tenant_id)"

definition owns_endpoint :: "uuid \<Rightarrow> uuid \<Rightarrow> db \<Rightarrow> bool" where
  "owns_endpoint tenant_id i d \<longleftrightarrow> (\<exists>ep. get_endpoint i d = Some ep \<and> ep_tenant_id ep = tenant_id)"

definition owns_delivery :: "uuid \<Rightarrow> uuid \<Rightarrow> db \<Rightarrow> bool" where
  "owns_delivery tenant_id i d \<longleftrightarrow> (\<exists>dl. get_delivery_row i d = Some dl \<and> owns_event tenant_id (dl_event_id dl) d)"

lemma foreign_event:
  assumes "\<not> owns_event (ctx_tenant_id ctx) i d"
  shows "get_event i ctx d = Inl (not_found ''event'')" "replay_event renv i ctx d = (Inl (not_found ''event''), d)"
  using assms by (auto simp: owns_event_def get_event_def replay_event_def split: option.split)

lemma foreign_endpoint:
  assumes "\<not> owns_endpoint (ctx_tenant_id ctx) i d"
  shows "tenant_endpoint i ctx d = Inl (not_found ''endpoint'')"
  using assms by (auto simp: owns_endpoint_def tenant_endpoint_def split: option.split)

lemma foreign_delivery:
  assumes "\<not> owns_delivery (ctx_tenant_id ctx) i d"
  shows "tenant_delivery what i ctx d = Inl (not_found what)"
  using assms by (auto simp: owns_delivery_def owns_event_def tenant_delivery_def split: option.split)

section \<open>A run of the publisher\<close>

lemma publish_sample:
  assumes "db_ok d" "length (pending_outbox d) \<le> 50" "ob \<in> set (pending_outbox d)" "rs_ready stream g r" "rd_up r"
  shows "\<exists>k d' r'. publish_batch reference_redis stream 50 (\<lambda>xs. xs) (\<lambda>_. False) (\<lambda>_. 7) 7 (d, r) = (k, (d', r')) \<and>
    is_published (ob_id ob) d'"
proof -
  obtain k d' r' where p: "publish_batch reference_redis stream 50 (\<lambda>xs. xs) (\<lambda>_. False) (\<lambda>_. 7) 7 (d, r) = (k, (d', r'))"
    by (metis prod_cases3)
  have "ob \<in> set (select_batch (\<lambda>xs. xs) (\<lambda>_. False) 50 d)"
    using assms(2,3) by (simp add: select_batch_def)
  with publish_batch_accepted(5) [OF reference.redis_broker_axioms reference_accepts assms(5,1) is_scan_id assms(4) p refl] p
  show ?thesis by blast
qed

end
