(* ===== verification/Lifecycle.thy ===== *)
theory Lifecycle
  imports System
begin

text \<open>
  How single rows change while the whole system runs: a machine per table (a row is created in an initial shape
  and moves along transitions), and the proof that every step of the API, the publisher, the worker and the
  scheduler either creates and moves rows along the machine or deletes some, unchanged, but never both. In runs that do not draw an
  identifier twice a row is then one run of its machine, whatever happens between two looks at it; and what is
  initially true of a row and kept by its transitions is true of every stored row.
\<close>

section \<open>Life cycles\<close>

text \<open>The row under one key before and after writes that delete nothing.\<close>

definition lives :: "('r \<Rightarrow> bool) \<Rightarrow> ('r \<Rightarrow> 'r \<Rightarrow> bool) \<Rightarrow> 'r option \<Rightarrow> 'r option \<Rightarrow> bool" where
  "lives born moves x y \<longleftrightarrow>
     (case y of
        None \<Rightarrow> x = None
      | Some r' \<Rightarrow> (case x of Some r \<Rightarrow> moves\<^sup>*\<^sup>* r r' | None \<Rightarrow> \<exists>r. born r \<and> moves\<^sup>*\<^sup>* r r'))"

lemma lives_simps [simp]:
  "lives born moves x None \<longleftrightarrow> x = None"
  "lives born moves (Some r) (Some r') \<longleftrightarrow> moves\<^sup>*\<^sup>* r r'"
  "lives born moves None (Some r') \<longleftrightarrow> (\<exists>r. born r \<and> moves\<^sup>*\<^sup>* r r')"
  by (simp_all add: lives_def)

lemma lives_refl [simp, intro]: "lives born moves x x"
  by (cases x) simp_all

lemma lives_born: "born r \<Longrightarrow> lives born moves None (Some r)"
  by auto

lemma lives_moves: "moves r r' \<Longrightarrow> lives born moves (Some r) (Some r')"
  by simp

lemma lives_trans: "lives born moves x y \<Longrightarrow> lives born moves y z \<Longrightarrow> lives born moves x z"
  by (cases x; cases y; cases z) (auto intro: rtranclp_trans)

text \<open>Deletions leave a row as it is or remove it.\<close>

definition lasts :: "'r option \<Rightarrow> 'r option \<Rightarrow> bool" where
  "lasts x y \<longleftrightarrow> y = None \<or> y = x"

text \<open>
  The row at an earlier and a later time of a run, when both exist; a step prolongs it unless it brings back a row
  that was gone.
\<close>

definition stays :: "('r \<Rightarrow> 'r \<Rightarrow> bool) \<Rightarrow> 'r option \<Rightarrow> 'r option \<Rightarrow> bool" where
  "stays moves x y \<longleftrightarrow> (\<forall>r r'. x = Some r \<longrightarrow> y = Some r' \<longrightarrow> moves\<^sup>*\<^sup>* r r')"

lemma stays_step:
  assumes "stays moves x y" "lives born moves y z \<or> lasts y z" "x \<noteq> None \<Longrightarrow> y = None \<Longrightarrow> z = None"
  shows "stays moves x z"
  using assms by (cases x; cases y; cases z) (auto simp: stays_def lasts_def intro: rtranclp_trans)

text \<open>A condition on rows that the initial shape has and every transition keeps.\<close>

locale row_condition =
  fixes born :: "'r \<Rightarrow> bool"
    and moves :: "'r \<Rightarrow> 'r \<Rightarrow> bool"
    and ok :: "'r \<Rightarrow> bool"
  assumes born_ok: "born r \<Longrightarrow> ok r"
    and moves_ok: "moves r r' \<Longrightarrow> ok r \<Longrightarrow> ok r'"
begin

lemma moved_ok: "moves\<^sup>*\<^sup>* r r' \<Longrightarrow> ok r \<Longrightarrow> ok r'"
  by (induction rule: rtranclp_induct) (auto intro: moves_ok)

lemma lives_ok: "lives born moves x y \<Longrightarrow> pred_option ok x \<Longrightarrow> pred_option ok y"
  by (cases x; cases y) (auto intro: moved_ok born_ok)

lemma lasts_ok: "lasts x y \<Longrightarrow> pred_option ok x \<Longrightarrow> pred_option ok y"
  by (auto simp: lasts_def)

end

section \<open>The machines\<close>

text \<open>
  Deliveries: an attempt starts as DELIVERING and ends as DELIVERED, RETRYING or DLQ; a call blocked by the breaker
  is recorded as RETRYING; the scheduler turns RETRYING into QUEUED. A row that waits for a retry knows when.
\<close>

fun delivery_next :: "delivery_status \<Rightarrow> delivery_status \<Rightarrow> bool" where
  "delivery_next DL_DELIVERING s = (s \<in> {DL_DELIVERED, DL_RETRYING, DL_DLQ})"
| "delivery_next DL_RETRYING s = (s = DL_QUEUED)"
| "delivery_next _ s = False"

definition delivery_ok :: "delivery \<Rightarrow> bool" where
  "delivery_ok r \<longleftrightarrow> dl_status r \<in> range delivery_status_value \<and>
     (dl_status r = delivery_status_value DL_RETRYING \<longrightarrow> dl_next_retry_at r \<noteq> None) \<and>
     (dl_status r \<in> {delivery_status_value DL_DELIVERED, delivery_status_value DL_DLQ} \<longrightarrow> dl_completed_at r \<noteq> None)"

definition delivery_born :: "delivery \<Rightarrow> bool" where
  "delivery_born r \<longleftrightarrow> delivery_ok r \<and> dl_completed_at r = None \<and>
     dl_status r \<in> {delivery_status_value DL_DELIVERING, delivery_status_value DL_RETRYING}"

definition delivery_moves :: "delivery \<Rightarrow> delivery \<Rightarrow> bool" where
  "delivery_moves r r' \<longleftrightarrow> same_attempt r r' \<and> dl_is_replay r' = dl_is_replay r \<and> dl_started_at r' = dl_started_at r \<and>
     delivery_ok r' \<and>
     (\<exists>s s'. dl_status r = delivery_status_value s \<and> dl_status r' = delivery_status_value s' \<and> delivery_next s s')"

text \<open>
  Outbox rows: PENDING until published, or given up with the tenth failed attempt; what is to be sent never changes.
\<close>

definition outbox_ok :: "outbox_event \<Rightarrow> bool" where
  "outbox_ok r \<longleftrightarrow>
     ob_status r = outbox_status_value OB_PENDING \<and> 0 \<le> ob_attempts r \<and> ob_attempts r < 10 \<and> ob_published_at r = None \<or>
     ob_status r = outbox_status_value OB_PUBLISHED \<and> 0 \<le> ob_attempts r \<and> ob_attempts r < 10 \<and> ob_published_at r \<noteq> None \<or>
     ob_status r = outbox_status_value OB_FAILED \<and> ob_attempts r = 10 \<and> ob_published_at r = None"

definition outbox_born :: "outbox_event \<Rightarrow> bool" where
  "outbox_born r \<longleftrightarrow> ob_status r = outbox_status_value OB_PENDING \<and> ob_attempts r = 0 \<and> ob_published_at r = None"

definition outbox_moves :: "outbox_event \<Rightarrow> outbox_event \<Rightarrow> bool" where
  "outbox_moves r r' \<longleftrightarrow> ob_status r = outbox_status_value OB_PENDING \<and>
     (\<exists>s n t. r' = r\<lparr>ob_status := outbox_status_value s, ob_attempts := n, ob_published_at := t\<rparr> \<and>
        (s = OB_PUBLISHED \<and> n = ob_attempts r \<and> t \<noteq> None \<or>
         s = (if n \<ge> 10 then OB_FAILED else OB_PENDING) \<and> n = ob_attempts r + 1 \<and> t = ob_published_at r))"

text \<open>Events: RECEIVED, then QUEUED, PROCESSING and COMPLETED as they are processed and replayed; nothing else changes.\<close>

definition event_ok :: "event \<Rightarrow> bool" where
  "event_ok r \<longleftrightarrow> ev_status r \<in> range event_status_value"

definition event_born :: "event \<Rightarrow> bool" where
  "event_born r \<longleftrightarrow> ev_status r = event_status_value EV_RECEIVED"

definition event_moves :: "event \<Rightarrow> event \<Rightarrow> bool" where
  "event_moves r r' \<longleftrightarrow>
     (\<exists>s t. s \<in> {EV_QUEUED, EV_PROCESSING, EV_COMPLETED} \<and>
        r' = r\<lparr>ev_status := event_status_value s, ev_updated_at := t\<rparr>)"

text \<open>Endpoints: the owner, the secret and the breaker's vocabulary stay.\<close>

definition endpoint_ok :: "endpoint \<Rightarrow> bool" where
  "endpoint_ok r \<longleftrightarrow> ep_circuit_state r \<in> range circuit_state_value"

definition endpoint_born :: "endpoint \<Rightarrow> bool" where
  "endpoint_born r \<longleftrightarrow> ep_status r = endpoint_status_value EP_ACTIVE \<and> ep_circuit_state r = circuit_state_value CLOSED"

definition endpoint_moves :: "endpoint \<Rightarrow> endpoint \<Rightarrow> bool" where
  "endpoint_moves r r' \<longleftrightarrow>
     ep_id r' = ep_id r \<and> ep_tenant_id r' = ep_tenant_id r \<and> ep_secret_encrypted r' = ep_secret_encrypted r \<and>
     ep_created_at r' = ep_created_at r \<and>
     (ep_circuit_state r' = ep_circuit_state r \<or> ep_circuit_state r' \<in> range circuit_state_value)"

interpretation delivery_rows: row_condition delivery_born delivery_moves delivery_ok
  by unfold_locales (simp_all add: delivery_born_def delivery_moves_def)

interpretation outbox_rows: row_condition outbox_born outbox_moves outbox_ok
  by unfold_locales (auto simp: outbox_born_def outbox_moves_def outbox_ok_def split: if_splits)

interpretation event_rows: row_condition event_born event_moves event_ok
  by unfold_locales (auto simp: event_born_def event_moves_def event_ok_def simp del: event_status_value.simps)

interpretation endpoint_rows: row_condition endpoint_born endpoint_moves endpoint_ok
  by unfold_locales (auto simp: endpoint_born_def endpoint_moves_def endpoint_ok_def simp del: circuit_state_value.simps)

section \<open>Evolution of the database\<close>

definition evolves :: "db \<Rightarrow> db \<Rightarrow> bool" where
  "evolves d d' \<longleftrightarrow> (\<forall>i.
     lives event_born event_moves (get_event_row i d) (get_event_row i d') \<and>
     lives delivery_born delivery_moves (get_delivery_row i d) (get_delivery_row i d') \<and>
     lives outbox_born outbox_moves (get_outbox i d) (get_outbox i d') \<and>
     lives endpoint_born endpoint_moves (get_endpoint i d) (get_endpoint i d'))"

lemma evolves_refl [simp, intro]: "evolves d d"
  by (simp add: evolves_def)

lemma evolves_trans: "evolves d d' \<Longrightarrow> evolves d' d'' \<Longrightarrow> evolves d d''"
  unfolding evolves_def by (blast intro: lives_trans)

text \<open>Writes to the other tables.\<close>

lemma evolves_same:
  "events d' = events d \<Longrightarrow> deliveries d' = deliveries d \<Longrightarrow> outbox_events d' = outbox_events d \<Longrightarrow>
   endpoints d' = endpoints d \<Longrightarrow> evolves d d'"
  by (simp add: evolves_def get_defs)

text \<open>An insert of a row in its initial shape.\<close>

lemma lives_insert:
  assumes "key r \<notin> tab_keys key rows" "born r"
  shows "lives born moves (tab_get key i rows) (tab_get key i (rows @ [r]))"
proof (cases "tab_get key i rows")
  case None
  show ?thesis using None assms(2) by (auto simp: tab_get_append tab_get_Cons)
qed (simp add: tab_get_append)

lemma evolves_insert:
  "insert_event ev d = Inr d' \<Longrightarrow> event_born ev \<Longrightarrow> evolves d d'"
  "insert_delivery dl d = Inr d' \<Longrightarrow> delivery_born dl \<Longrightarrow> evolves d d'"
  "insert_outbox ob d = Inr d' \<Longrightarrow> outbox_born ob \<Longrightarrow> evolves d d'"
  "insert_endpoint ep d = Inr d' \<Longrightarrow> endpoint_born ep \<Longrightarrow> evolves d d'"
  "insert_idempotency_key ik d = Inr d' \<Longrightarrow> evolves d d'"
  by (auto simp: insert_defs evolves_def get_defs lives_insert)

text \<open>An update of one row along a transition.\<close>

lemma evolves_modify_event:
  assumes "\<And>r. ev_id (f r) = ev_id r" "\<And>r. get_event_row i d = Some r \<Longrightarrow> event_moves r (f r)"
  shows "evolves d (modify_event i f d)"
proof -
  have "lives event_born event_moves (get_event_row j d) (get_event_row j (modify_event i f d))" for j
    using assms(2) event_table.get_modified [of f j i d, OF assms(1)]
    by (cases "get_event_row i d") (auto simp: get_event_row_def)
  then show ?thesis by (simp add: evolves_def) (simp add: get_defs modify_event_def)
qed

lemma evolves_modify_delivery:
  assumes "\<And>r. dl_id (f r) = dl_id r" "\<And>r. get_delivery_row i d = Some r \<Longrightarrow> delivery_moves r (f r)"
  shows "evolves d (modify_delivery i f d)"
proof -
  have "lives delivery_born delivery_moves (get_delivery_row j d) (get_delivery_row j (modify_delivery i f d))" for j
    using assms(2) delivery_table.get_modified [of f j i d, OF assms(1)]
    by (cases "get_delivery_row i d") (auto simp: get_delivery_row_def)
  then show ?thesis by (simp add: evolves_def) (simp add: get_defs modify_delivery_def)
qed

lemma evolves_modify_outbox:
  assumes "\<And>r. ob_id (f r) = ob_id r" "\<And>r. get_outbox i d = Some r \<Longrightarrow> outbox_moves r (f r)"
  shows "evolves d (modify_outbox i f d)"
proof -
  have "lives outbox_born outbox_moves (get_outbox j d) (get_outbox j (modify_outbox i f d))" for j
    using assms(2) outbox_table.get_modified [of f j i d, OF assms(1)]
    by (cases "get_outbox i d") (auto simp: get_outbox_def)
  then show ?thesis by (simp add: evolves_def) (simp add: get_defs modify_outbox_def)
qed

lemma evolves_modify_endpoint:
  assumes "\<And>r. ep_id (f r) = ep_id r" "\<And>r. get_endpoint i d = Some r \<Longrightarrow> endpoint_moves r (f r)"
  shows "evolves d (modify_endpoint i f d)"
proof -
  have "lives endpoint_born endpoint_moves (get_endpoint j d) (get_endpoint j (modify_endpoint i f d))" for j
    using assms(2) endpoint_table.get_modified [of f j i d, OF assms(1)]
    by (cases "get_endpoint i d") (auto simp: get_endpoint_def)
  then show ?thesis by (simp add: evolves_def) (simp add: get_defs modify_endpoint_def)
qed

text \<open>A deletion.\<close>

definition shrinks :: "db \<Rightarrow> db \<Rightarrow> bool" where
  "shrinks d d' \<longleftrightarrow> (\<forall>i.
     lasts (get_event_row i d) (get_event_row i d') \<and> lasts (get_delivery_row i d) (get_delivery_row i d') \<and>
     lasts (get_outbox i d) (get_outbox i d') \<and> lasts (get_endpoint i d) (get_endpoint i d'))"

lemma lasts_filter:
  assumes "distinct (map key rows)"
  shows "lasts (tab_get key i rows) (tab_get key i (filter P rows))"
proof (cases "tab_get key i (filter P rows)")
  case None
  then show ?thesis by (simp add: lasts_def)
next
  case (Some r)
  then have "r \<in> set rows" "key r = i" by (auto dest: tab_get_SomeD)
  with tab_get_unique [OF assms] Some show ?thesis by (auto simp: lasts_def)
qed

lemma shrinks_refl [simp, intro]: "shrinks d d"
  by (simp add: shrinks_def lasts_def)

lemma shrinks_delete:
  assumes "db_ok d" "events d' = filter P (events d)" "deliveries d' = filter Q (deliveries d)"
    "outbox_events d' = filter S (outbox_events d)" "endpoints d' = filter T (endpoints d)"
  shows "shrinks d d'"
  using assms by (simp add: shrinks_def get_defs lasts_filter db_ok_def keys_ok_def)

section \<open>The delivery engine\<close>

lemma event_moves_to:
  "s \<in> {EV_QUEUED, EV_PROCESSING, EV_COMPLETED} \<Longrightarrow>
     event_moves r (r\<lparr>ev_status := event_status_value s, ev_updated_at := t\<rparr>)"
  unfolding event_moves_def by blast

lemma evolves_event_steps:
  "evolves d (maybe_complete_event now ev d)" "evolves d (set_processing now ev d)"
  "evolves d (queue_event now i d)" "evolves d (mark_queued env ev d)"
  by (simp_all add: maybe_complete_event_def set_processing_def queue_event_def mark_queued_def Let_def
      evolves_modify_event event_moves_to split: option.split del: event_status_value.simps)

lemma evolves_save_circuit_breaker: "evolves d (save_circuit_breaker now ep cb d)"
  unfolding save_circuit_breaker_def Let_def
  by (auto simp: endpoint_moves_def simp del: circuit_state_value.simps intro!: evolves_modify_endpoint)

text \<open>The end of an attempt, on the row that its start committed.\<close>

definition delivering :: "uuid \<Rightarrow> db \<Rightarrow> bool" where
  "delivering i d \<longleftrightarrow> (\<exists>r. get_delivery_row i d = Some r \<and> dl_status r = delivery_status_value DL_DELIVERING)"

lemma delivering_moves:
  assumes "delivering i d" "get_delivery_row i d = Some r" "same_attempt r r'" "dl_is_replay r' = dl_is_replay r"
    "dl_started_at r' = dl_started_at r" "dl_completed_at r' \<noteq> None" "dl_status r' = delivery_status_value s"
    "s \<in> {DL_DELIVERED, DL_RETRYING, DL_DLQ}" "s = DL_RETRYING \<Longrightarrow> dl_next_retry_at r' \<noteq> None"
  shows "delivery_moves r r'"
proof -
  have "dl_status r = delivery_status_value DL_DELIVERING" using assms(1,2) by (auto simp: delivering_def)
  moreover have "delivery_next DL_DELIVERING s" using assms(8) by simp
  moreover have "delivery_ok r'" using assms(6-9) by (auto simp: delivery_ok_def)
  ultimately show ?thesis using assms(3-5,7) unfolding delivery_moves_def by blast
qed

lemma failure_disposition_status:
  assumes "failure_disposition s env out n = Inr (status, retry_at)"
  shows "status \<in> {DL_RETRYING, DL_DLQ}" "status = DL_RETRYING \<Longrightarrow> retry_at \<noteq> None"
  using assms by (auto simp: failure_disposition_def rbind_Inr_iff split: if_splits option.splits)

lemma evolves_finish_failure:
  assumes "finish_failure s env ev ep cb c res n st = (r, st')" "delivering (de_new_id env) (es_db st)"
  shows "evolves (es_db st) (es_db st')"
proof (cases "failure_disposition s env (cl_outcome res) n")
  case (Inl e)
  with assms(1) show ?thesis by (auto simp: finish_failure_def Let_def split: if_splits)
next
  case (Inr p)
  then obtain status retry_at where disp: "failure_disposition s env (cl_outcome res) n = Inr (status, retry_at)"
    by (cases p) simp
  note status = failure_disposition_status [OF disp]
  have "evolves (es_db st) (modify_delivery (de_new_id env)
     (\<lambda>r. r\<lparr>dl_http_status := c, dl_latency_ms := Some (latency_ms env), dl_completed_at := Some (de_completed env),
           dl_error_message := Some (cl_reason res), dl_status := delivery_status_value status,
           dl_next_retry_at := retry_at\<rparr>) (es_db st))"
    using status by (intro evolves_modify_delivery delivering_moves [OF assms(2), where s = status]) (auto simp: same_attempt_def)
  from evolves_trans [OF this evolves_save_circuit_breaker] assms(1) disp show ?thesis
    by (auto simp: finish_failure_def Let_def)
qed

lemma started_born: "delivery_born (started_row env ev ep n)"
  by (simp add: delivery_born_def delivery_ok_def new_delivery_def del: delivery_status_value.simps)

lemma retry_born: "delivery_born ((new_delivery i eid epid n DL_RETRYING now)\<lparr>dl_next_retry_at := Some t\<rparr>)"
  by (simp add: delivery_born_def delivery_ok_def new_delivery_def del: delivery_status_value.simps)

lemma started_delivering:
  assumes "insert_delivery (started_row env ev ep n) d = Inr d1"
  shows "delivering (de_new_id env) d1"
  using delivery_table.get_inserted [OF assms] by (simp add: delivering_def get_delivery_row_def)

text \<open>The row that a task has committed and still has to finish; it is as the task left it, or deleted.\<close>

fun committed :: "task_point \<Rightarrow> uuid option" where
  "committed (Recorded a eps) = Some (de_new_id (at_env a))"
| "committed (Answered a h eps) = Some (de_new_id (at_env a))"
| "committed (Deciding a c terminal eps) = Some (de_new_id (at_env a))"
| "committed _ = None"

definition untouched :: "uuid \<Rightarrow> db \<Rightarrow> bool" where
  "untouched i d \<longleftrightarrow> get_delivery_row i d = None \<or> delivering i d"

lemma evolves_ssrf: "delivering (de_new_id env) d \<Longrightarrow> evolves d (modify_delivery (de_new_id env) (ssrf_row env m) d)"
  by (intro evolves_modify_delivery delivering_moves [where i = "de_new_id env" and d = d and s = DL_DLQ])
    (simp_all add: same_attempt_def ssrf_row_def)

lemma evolves_delivered:
  "delivering (de_new_id env) d \<Longrightarrow> evolves d (modify_delivery (de_new_id env) (delivered_row env c) d)"
  by (intro evolves_modify_delivery delivering_moves [where i = "de_new_id env" and d = d and s = DL_DELIVERED])
    (simp_all add: same_attempt_def delivered_row_def)

lemma evolves_complete: "evolves d (complete_event now ev d)"
  by (simp add: complete_event_def evolves_modify_event event_moves_to del: event_status_value.simps)

lemma evolves_answer_step:
  assumes "answer_step s a h eps st = (pt', st')" "untouched (de_new_id (at_env a)) (es_db st)"
  shows "evolves (es_db st) (es_db st')"
  using assms(1)
proof (cases rule: answer_step_cases)
  case (failed c res st1 st2)
  with assms(2) have "delivering (de_new_id (at_env a)) (es_db st)" by (auto simp: untouched_def)
  with evolves_finish_failure [OF failed(1)] failed(2,3) show ?thesis by simp
qed simp

lemma evolves_success_step:
  assumes "success_step a c terminal eps st = (pt', st')" "untouched (de_new_id (at_env a)) (es_db st)"
  shows "evolves (es_db st) (es_db st')"
proof (cases "st' = st")
  case False
  let ?d1 = "modify_delivery (de_new_id (at_env a)) (delivered_row (at_env a) c) (es_db st)"
  from False assms have "delivering (de_new_id (at_env a)) (es_db st)"
    by (auto simp: success_step_def Let_def stale_def untouched_def split: if_splits)
  note steps = evolves_delivered [OF this, of c] evolves_complete [of ?d1 "de_db_now (at_env a)" "at_event a"]
  let ?d2 = "if terminal \<and> ev_status (at_event a) \<noteq> event_status_value EV_COMPLETED
    then complete_event (de_db_now (at_env a)) (at_event a) ?d1 else ?d1"
  from False assms(1) have "es_db st' = save_circuit_breaker (de_db_now (at_env a)) (at_endpoint a)
      (cb_record_success (at_breaker a)) ?d2"
    by (auto simp: success_step_def Let_def split: if_splits)
  moreover have "evolves (es_db st) ?d2" using steps by (auto intro: evolves_trans)
  ultimately show ?thesis by (simp only: evolves_trans [OF _ evolves_save_circuit_breaker])
qed simp

lemma evolves_task_step:
  assumes "task_step s E msg pt st = (pt', st')" "\<And>i. committed pt = Some i \<Longrightarrow> untouched i (es_db st)"
  shows "evolves (es_db st) (es_db st')"
proof (cases pt)
  case (Looping eid eps)
  with assms show ?thesis by (cases eps) (auto simp: task_step_def)
next
  case (Loaded a ok eps)
  with assms show ?thesis
    by (auto simp: task_step_def record_step_def schedule_retry_def Let_def split: if_splits sum.splits
        intro: evolves_insert(2) [OF _ started_born] evolves_insert(2) [OF _ retry_born])
next
  case (Recorded a eps)
  with assms show ?thesis
    by (auto simp: task_step_def send_step_def untouched_def Let_def split: if_splits sum.splits exn.splits
        http_result.splits intro: evolves_ssrf)
next
  case (Answered a h eps)
  with assms evolves_answer_step show ?thesis by (simp add: task_step_def)
next
  case (Deciding a c terminal eps)
  with assms evolves_success_step show ?thesis by (simp add: task_step_def)
qed (use assms in \<open>auto simp: task_step_def commit_processing_def split: if_splits intro: evolves_event_steps\<close>)

lemma committed_after:
  assumes "task_step s E msg pt st = (pt', st')" "committed pt' = Some i"
    "\<And>j. committed pt = Some j \<Longrightarrow> untouched j (es_db st)"
  shows "untouched i (es_db st') \<and> held pt = Some i"
proof (cases pt)
  case (Looping eid eps)
  with assms(1,2) show ?thesis
    by (cases eps) (auto simp: task_step_def load_step_def split: option.splits sum.splits prod.splits)
next
  case (Loaded a ok eps)
  with assms(1,2) show ?thesis
    by (auto simp: task_step_def record_step_def Let_def untouched_def split: if_splits sum.splits dest: started_delivering)
next
  case (Answered a h eps)
  with assms show ?thesis
    by (auto simp: task_step_def answer_step_def Let_def split: if_splits sum.splits prod.splits)
next
  case (Recorded a eps)
  with assms show ?thesis
    by (auto simp: task_step_def send_step_def Let_def split: if_splits sum.splits exn.splits http_result.splits)
qed (use assms in \<open>auto simp: task_step_def resolve_step_def success_step_def commit_processing_def Let_def
      split: if_splits sum.splits prod.splits option.splits\<close>)

section \<open>The publisher and the scheduler\<close>

lemma outbox_row_moves:
  assumes "ob_status r = outbox_status_value OB_PENDING"
  shows "outbox_moves r (published_row now r)" "outbox_moves r (failed_row r)"
proof -
  have "published_row now r = r\<lparr>ob_status := outbox_status_value OB_PUBLISHED, ob_attempts := ob_attempts r,
      ob_published_at := Some now\<rparr>"
    by (simp add: published_row_def)
  with assms show "outbox_moves r (published_row now r)" unfolding outbox_moves_def by blast
  let ?s = "if ob_attempts r + 1 \<ge> 10 then OB_FAILED else OB_PENDING"
  have "failed_row r = r\<lparr>ob_status := outbox_status_value ?s, ob_attempts := ob_attempts r + 1,
      ob_published_at := ob_published_at r\<rparr>"
    by (simp add: failed_row_def Let_def)
  with assms show "outbox_moves r (failed_row r)" unfolding outbox_moves_def by blast
qed

lemma evolves_publish_row:
  assumes "publish_row R stream now db_now row (d, r) = (d', r')"
    "get_outbox (ob_id row) d = Some row" "ob_status row = outbox_status_value OB_PENDING"
  shows "evolves d d'"
proof -
  have "evolves d (modify_outbox (ob_id row) (published_row now) d)" "evolves d (modify_outbox (ob_id row) failed_row d)"
    using assms(2) outbox_row_moves [OF assms(3)] by (auto intro!: evolves_modify_outbox)
  with assms(1) show ?thesis
    by (auto simp: publish_row_def split: prod.splits sum.splits intro: evolves_trans [OF _ evolves_event_steps(3)])
qed

lemma evolves_publish_rows:
  assumes "publish_rows R stream nows k db_now rows (d, r) = (d', r')" "distinct (map ob_id rows)"
    "\<forall>row \<in> set rows. get_outbox (ob_id row) d = Some row \<and> ob_status row = outbox_status_value OB_PENDING"
  shows "evolves d d'"
  using assms
proof (induction rows arbitrary: k d r)
  case (Cons row rows)
  obtain d1 r1 where s1: "publish_row R stream (nows k) db_now row (d, r) = (d1, r1)" by fastforce
  from Cons.prems(3) have now: "get_outbox (ob_id row) d = Some row" "ob_status row = outbox_status_value OB_PENDING" by simp_all
  have "\<forall>x \<in> set rows. get_outbox (ob_id x) d1 = Some x"
    using publish_row_rest [OF s1 Cons.prems(2)] Cons.prems(3) by blast
  with Cons.prems(3) have kept: "\<forall>x \<in> set rows. get_outbox (ob_id x) d1 = Some x \<and> ob_status x = outbox_status_value OB_PENDING"
    by simp
  have "evolves d1 d'" using Cons.IH [of "Suc k" d1 r1] Cons.prems(1,2) s1 kept by simp
  with evolves_publish_row [OF s1 now] show ?case by (rule evolves_trans)
qed simp

lemma evolves_publish_batch:
  assumes "publish_batch R stream n scan locked nows db_now (d, r) = (k, (d', r'))" "db_ok d" "is_scan scan"
  shows "evolves d d'"
proof (rule evolves_publish_rows [OF publish_batch_rows(2) [OF assms(1)] select_batch_distinct [OF assms(3,2)]])
  show "\<forall>row \<in> set (select_batch scan locked n d).
      get_outbox (ob_id row) d = Some row \<and> ob_status row = outbox_status_value OB_PENDING"
    using batch_rows_current [OF assms(2,3)] select_batch_rows [OF assms(3), of locked n d]
    by (auto simp: pending_outbox_def)
qed

lemma requeued_moves:
  assumes "dl_status r = delivery_status_value DL_RETRYING"
  shows "delivery_moves r (requeued r)"
proof -
  have "delivery_next DL_RETRYING DL_QUEUED" by simp
  moreover have "delivery_ok (requeued r)" by (auto simp: delivery_ok_def simp del: delivery_status_value.simps)
  ultimately show ?thesis
    using assms unfolding delivery_moves_def by (auto simp: same_attempt_def requeued_def simp del: delivery_status_value.simps)
qed

lemma evolves_requeue_rows:
  assumes "requeue_rows R stream isof dls d r = (Inr d', r')" "distinct (map dl_id dls)"
    "\<forall>dl \<in> set dls. get_delivery_row (dl_id dl) d = Some dl \<and> dl_status dl = delivery_status_value DL_RETRYING"
  shows "evolves d d'"
  using assms
proof (induction R stream isof dls d r rule: requeue_rows.induct)
  case (2 R stream isof x dls d r)
  show ?case
  proof (cases "get_event_row (dl_event_id x) d")
    case None
    with 2 show ?thesis by simp
  next
    case (Some ev)
    obtain res r1 where p: "publish R stream (retry_fields isof ev x) r = (res, r1)"
      by (cases "publish R stream (retry_fields isof ev x) r")
    with 2(3) Some obtain i where i: "res = Inr i" by (cases res) auto
    let ?d1 = "modify_delivery (dl_id x) requeued d"
    have run: "requeue_rows R stream isof dls ?d1 r1 = (Inr d', r')" using 2(3) Some p i by simp
    have "get_delivery_row (dl_id y) ?d1 = Some y" if "y \<in> set dls" for y
    proof -
      from that 2(4) have "dl_id y \<noteq> dl_id x" by (auto simp: image_iff)
      with that 2(5) show ?thesis by (simp add: get_delivery_modify)
    qed
    with 2(4,5) 2(2) [OF Some p [symmetric] i run] have "evolves ?d1 d'" by simp
    moreover have "evolves d ?d1" using 2(5) requeued_moves by (intro evolves_modify_delivery) auto
    ultimately show ?thesis by (rule evolves_trans [rotated])
  qed
qed simp

lemma evolves_retry_pass:
  assumes "retry_requeue_pass s R isof scan locked now (d, r) = (d', r')" "db_ok d" "is_scan scan"
  shows "evolves d d'"
  using assms(1)
proof (cases rule: retry_requeue_pass_cases)
  case finished
  have "dl_status dl = delivery_status_value DL_RETRYING" if "dl \<in> set (select_due scan locked now d)" for dl
    using that assms(3) by (auto simp: select_due_def due_deliveries_def is_scan_set dest!: in_set_takeD)
  with select_due_mem [OF assms(3)] db_ok_get(3) [OF assms(2)] show ?thesis
    by (intro evolves_requeue_rows [OF finished select_due_distinct [OF assms(3,2)]]) blast
qed simp

lemma shrinks_cleanup:
  assumes "db_ok d"
  shows "shrinks d (cleanup_pass s now d)"
proof (cases "cleanup_pass s now d = d")
  case False
  then show ?thesis
    unfolding cleanup_pass_cases
    by (auto simp: cleanup_children_def Let_def delete_defs filter_id_conv split: if_splits
        intro!: shrinks_delete [OF assms, where T = "\<lambda>_. True"])
qed simp

section \<open>The API\<close>

lemma new_rows_born:
  "event_born (new_event env body ctx)" "outbox_born (new_outbox i t a ev p)" "endpoint_born (new_endpoint nenv token nbody ctx)"
  "outbox_born (replay_row renv ctx ev)" "outbox_born (dlq_replay_row renv ctx dl ev)"
  by (simp_all add: event_born_def outbox_born_def endpoint_born_def replay_row_def dlq_replay_row_def)
     (simp_all add: new_outbox_def)

lemma evolves_create_event:
  assumes "create_event s env body hdr ctx (d, ms) = (r, (d', ms'))"
  shows "evolves d d'"
  using assms
proof (cases rule: create_event_cases)
  case created
  from created(1) obtain d1 d2 where rows: "insert_event (new_event env body ctx) d = Inr d1"
    "insert_outbox (new_outbox (ce_outbox_id env) (ce_db_now env) ''event'' (new_event env body ctx)
       (event_payload (ce_isoformat env) (ce_now env) (ctx_tenant_id ctx) (new_event env body ctx))) d1 = Inr d2"
    "(case truthy_str (hd_idempotency_key hdr) of None \<Rightarrow> Inr d2
      | Some k \<Rightarrow> insert_idempotency_key (new_idempotency_key s env ctx k) d2) = Inr d'"
    by (auto simp: create_rows_def Let_def rbind_Inr_iff)
  have "evolves d2 d'" using rows(3) evolves_insert(5) by (auto split: option.splits)
  with evolves_insert(1) [OF rows(1) new_rows_born(1)] evolves_insert(3) [OF rows(2) new_rows_born(2)]
  show ?thesis by (blast intro: evolves_trans)
qed simp_all

lemma evolves_replay_event:
  assumes "replay_event env i ctx d = (r, d')"
  shows "evolves d d'"
proof -
  have "evolves d d2" if "insert_outbox (replay_row env ctx ev) (mark_queued env ev d) = Inr d2" for ev d2
    using evolves_trans [OF evolves_event_steps(4) evolves_insert(3) [OF that new_rows_born(4)]] .
  with assms show ?thesis by (auto simp: replay_event_def split: option.splits if_splits sum.splits)
qed

lemma evolves_replay_dlq: "replay_dlq_entry env i ctx d = (r, d') \<Longrightarrow> evolves d d'"
  by (auto simp: replay_dlq_entry_def split: sum.splits if_splits dest: evolves_insert(3) [OF _ new_rows_born(5)])

lemma evolves_create_endpoint:
  assumes "create_endpoint F s env body ctx d = (r, d')"
  shows "evolves d d'"
  using assms
proof (cases rule: create_endpoint_cases)
  case (created token d1)
  have "evolves d1 d'" using created(4) by (auto simp: insert_subscriptions_iff intro!: evolves_same)
  with evolves_insert(4) [OF created(3) new_rows_born(3)] show ?thesis by (rule evolves_trans)
qed simp

lemma evolves_update_endpoint:
  assumes "update_endpoint s env i body ctx d = (r, d')" "db_ok d"
  shows "evolves d d'"
  using assms(1)
proof (cases rule: update_endpoint_cases)
  case (updated ep d1)
  note flush = flush_endpoint_result [OF updated(4,1) patch_endpoint_simps(1) assms(2)]
  have "lives endpoint_born endpoint_moves (get_endpoint j d) (get_endpoint j d1)" for j
  proof (cases "j = i")
    case True
    obtain t where "get_endpoint i d1 = Some (patch_endpoint body ep\<lparr>ep_updated_at := t\<rparr>)" using flush(1) by blast
    moreover have "endpoint_moves ep (patch_endpoint body ep\<lparr>ep_updated_at := t\<rparr>)"
      by (simp add: endpoint_moves_def) (simp add: patch_endpoint_def)
    ultimately show ?thesis using True updated(1) by auto
  qed (simp add: flush(2))
  moreover have "events d1 = events d" "deliveries d1 = deliveries d" "outbox_events d1 = outbox_events d"
    using updated(4) by (auto simp: flush_endpoint_def modify_endpoint_def split: if_splits)
  ultimately have "evolves d d1" by (simp add: evolves_def) (simp add: get_defs)
  moreover have "evolves d1 d'"
    using replace_subscriptions_result(3) [OF updated(5)]
    by (intro evolves_same) (metis db.ext_inject db.surjective db.update_convs(4))+
  ultimately show ?thesis by (rule evolves_trans)
qed simp

lemma shrinks_delete_endpoint:
  assumes "delete_endpoint i ctx d = (r, d')" "db_ok d"
  shows "evolves d d' \<or> shrinks d d'"
  using assms(1) delete_endpoint_eq [of i ctx d]
  by (auto split: if_splits intro!: shrinks_delete [OF assms(2), where P = "\<lambda>_. True" and Q = "\<lambda>_. True" and S = "\<lambda>_. True"])

lemma evolves_api_step: "api_step F s d d' \<Longrightarrow> db_ok d \<Longrightarrow> evolves d d' \<or> shrinks d d'"
proof (induction rule: api_step.induct)
  case (api_auth now h d ctx d')
  then have "evolves d d'" by (auto dest!: auth_session_writes simp: modify_api_key_def intro!: evolves_same)
  then show ?case ..
next
  case (api_delete_endpoint i ctx d xr d')
  then show ?case by (rule shrinks_delete_endpoint)
qed (blast intro: evolves_create_event evolves_replay_event evolves_create_endpoint evolves_update_endpoint
    evolves_replay_dlq)+

section \<open>The system\<close>

text \<open>Each task in flight is the only one to hold its delivery row, and finds it as it left it or not at all.\<close>

definition tasks_own :: "'r fleet \<Rightarrow> bool" where
  "tasks_own w \<longleftrightarrow> distinct (held_ids (wk_running w)) \<and>
     (\<forall>t \<in> set (wk_running w). \<forall>i. committed (tk_point t) = Some i \<longrightarrow> untouched i (wk_db w))"

lemma committed_held: "committed pt = Some i \<Longrightarrow> held pt = Some i"
  by (cases pt) auto

lemma held_ids_simps [simp]:
  "held_ids [] = []" "held_ids (t # ts) = (case held (tk_point t) of None \<Rightarrow> [] | Some i \<Rightarrow> [i]) @ held_ids ts"
  "held_ids (ts @ us) = held_ids ts @ held_ids us"
  by (simp_all add: held_ids_def)

lemma held_in_ids: "t \<in> set ts \<Longrightarrow> held (tk_point t) = Some i \<Longrightarrow> i \<in> set (held_ids ts)"
  by (induction ts) auto

lemma held_ids_filter: "set (held_ids (filter P ts)) \<subseteq> set (held_ids ts)"
  by (induction ts) (auto split: option.splits)

lemma distinct_held_filter: "distinct (held_ids ts) \<Longrightarrow> distinct (held_ids (filter P ts))"
proof (induction ts)
  case (Cons t ts)
  then show ?case using held_ids_filter [of P ts] by (auto split: option.splits)
qed simp

lemma tasks_own_sub:
  assumes "tasks_own w" "wk_db w' = wk_db w" "set (wk_running w') \<subseteq> set (wk_running w)" "distinct (held_ids (wk_running w'))"
  shows "tasks_own w'"
  using assms unfolding tasks_own_def by auto

lemma tasks_own_stop: "tasks_own w \<Longrightarrow> tasks_own (stop_worker c w)"
  by (rule tasks_own_sub) (auto simp: wk_db_def stop_worker_def tasks_own_def intro: distinct_held_filter)

lemma task_step_owns:
  assumes "tasks_own w" "wk_running w = ts @ t # us"
    "task_step s E (tk_msg t) (tk_point t) (wk_engine w) = (pt, st)" "set_option (held pt) \<inter> set (held_ids (ts @ us)) = {}"
  shows "evolves (wk_db w) (es_db st)" "tasks_own (w\<lparr>wk_engine := st, wk_running := ts @ t\<lparr>tk_point := pt\<rparr> # us\<rparr>)"
proof -
  have own: "untouched i (es_db (wk_engine w))" if "committed (tk_point t) = Some i" for i
    using that assms(1,2) by (auto simp: tasks_own_def wk_db_def)
  show "evolves (wk_db w) (es_db st)" using evolves_task_step [OF assms(3) own] by (simp add: wk_db_def)
  have "untouched i (es_db st)" if "x \<in> set (ts @ us)" "committed (tk_point x) = Some i" for x i
  proof -
    from that have i: "i \<in> set (held_ids (ts @ us))" using held_in_ids committed_held by blast
    have "held (tk_point t) \<noteq> Some i"
      using i assms(1,2) by (auto simp: tasks_own_def)
    from task_step_other [OF assms(3) this] that assms(1,2) show ?thesis
      by (auto simp: tasks_own_def wk_db_def untouched_def delivering_def)
  qed
  moreover have "untouched i (es_db st)" if "committed pt = Some i" for i
    using committed_after [OF assms(3) that own] by blast
  moreover have "distinct (held_ids (ts @ t\<lparr>tk_point := pt\<rparr> # us))"
    using assms(1,2,4) by (auto simp: tasks_own_def split: option.splits)
  ultimately show "tasks_own (w\<lparr>wk_engine := st, wk_running := ts @ t\<lparr>tk_point := pt\<rparr> # us\<rparr>)"
    by (auto simp: tasks_own_def wk_db_def)
qed

lemma evolves_worker_step:
  assumes "worker_step s R w w'" "tasks_own w"
  shows "evolves (wk_db w) (wk_db w') \<and> tasks_own w'"
  using assms
proof (induction rule: worker_step.induct)
  case (step_task w ts t us E pt st)
  from task_step_owns [OF step_task(4,1,2,3)] show ?case by (simp add: wk_db_def)
next
  case (step_stop c w)
  then show ?case by (simp add: tasks_own_stop) (simp add: wk_db_def stop_worker_def)
next
  case (step_crash w c)
  then show ?case by (simp add: tasks_own_stop) (simp add: wk_db_def stop_worker_def)
next
  case (step_finish w ts t us res)
  then show ?case by (auto simp: wk_db_def finish_task_def tasks_own_def)
qed (auto simp: wk_db_def tasks_own_def start_worker_def fetch_def recover_def split: prod.splits sum.splits)

text \<open>What the other processes leave of a row in flight.\<close>

lemma tasks_own_db:
  assumes "tasks_own w" "\<And>i. untouched i (wk_db w) \<Longrightarrow> untouched i d"
    "wk_running w' = wk_running w" "wk_db w' = d"
  shows "tasks_own w'"
  using assms unfolding tasks_own_def by auto

lemma untouched_cong: "deliveries d' = deliveries d \<Longrightarrow> untouched i d \<Longrightarrow> untouched i d'"
  by (simp add: untouched_def delivering_def get_delivery_row_def)

lemma retry_pass_skips_row:
  assumes "retry_requeue_pass s R isof scan locked now (d, r) = (d', r')" "db_ok d" "is_scan scan"
    "\<And>x. get_delivery_row i d = Some x \<Longrightarrow> dl_status x \<noteq> delivery_status_value DL_RETRYING"
  shows "get_delivery_row i d' = get_delivery_row i d"
  using assms(1)
proof (cases rule: retry_requeue_pass_cases)
  case finished
  have "i \<notin> dl_id ` set (select_due scan locked now d)"
  proof
    assume "i \<in> dl_id ` set (select_due scan locked now d)"
    then obtain x where x: "x \<in> set (select_due scan locked now d)" "dl_id x = i" by blast
    then have "dl_status x = delivery_status_value DL_RETRYING"
      using assms(3) by (auto simp: select_due_def due_deliveries_def is_scan_set dest!: in_set_takeD)
    with db_ok_get(3) [OF assms(2) select_due_mem [OF assms(3) x(1)]] x(2) assms(4) show False by simp
  qed
  from requeue_rows_other [OF finished this] show ?thesis .
qed simp

lemma retry_pass_skips:
  assumes "retry_requeue_pass s R isof scan locked now (d, r) = (d', r')" "db_ok d" "is_scan scan" "untouched i d"
  shows "get_delivery_row i d' = get_delivery_row i d"
  by (rule retry_pass_skips_row [OF assms(1-3)]) (use assms(4) in \<open>auto simp: untouched_def delivering_def\<close>)

lemma untouched_retry_pass:
  assumes "retry_requeue_pass s R isof scan locked now (d, r) = (d', r')" "db_ok d" "is_scan scan" "untouched i d"
  shows "untouched i d'"
  using retry_pass_skips [OF assms] assms(4) by (simp add: untouched_def delivering_def)

lemma cleanup_skips:
  assumes "db_ok d" "get_delivery_row i (cleanup_pass s now d) = Some x"
  shows "get_delivery_row i d = Some x"
proof -
  have "x \<in> set (deliveries d)"
    using get_row_mem(3) [OF assms(2)] by (auto simp: cleanup_pass_cases deliveries_cleanup_children split: if_splits)
  from db_ok_get(3) [OF assms(1) this] get_row_id(3) [OF assms(2)] show ?thesis by simp
qed

lemma untouched_cleanup:
  assumes "db_ok d" "untouched i d"
  shows "untouched i (cleanup_pass s now d)"
proof (cases "get_delivery_row i (cleanup_pass s now d)")
  case (Some x)
  from cleanup_skips [OF assms(1) Some] assms(2) Some show ?thesis by (auto simp: untouched_def delivering_def)
qed (simp add: untouched_def)

lemma evolves_system_step:
  assumes "system_step F s R w w'" "db_ok (wk_db w)" "tasks_own w"
  shows "(evolves (wk_db w) (wk_db w') \<or> shrinks (wk_db w) (wk_db w')) \<and> tasks_own w'"
  using assms
proof (induction rule: system_step.induct)
  case (sys_worker w w')
  then show ?case by (simp add: evolves_worker_step)
next
  case (sys_api w d')
  have "tasks_own (with_db d' w)"
    by (rule tasks_own_db [OF sys_api(3)]) (auto simp: with_db_def wk_db_def intro: untouched_cong
        deliveries_api_step [OF sys_api(1,2), unfolded wk_db_def])
  with evolves_api_step [OF sys_api(1,2)] show ?case by simp
next
  case (sys_publisher scan n locked nows now w k d' r')
  have "tasks_own (with_db d' (w\<lparr>wk_redis := r'\<rparr>))"
    by (rule tasks_own_db [OF sys_publisher(4)]) (auto simp: with_db_def wk_db_def intro: untouched_cong
        deliveries_publish_batch [OF sys_publisher(2), unfolded wk_db_def])
  with evolves_publish_batch [OF sys_publisher(2,3,1)] show ?case by simp
next
  case (sys_retry dscan isof locked now w d' r')
  have "tasks_own (with_db d' (w\<lparr>wk_redis := r'\<rparr>))"
    by (rule tasks_own_db [OF sys_retry(4)], rule untouched_retry_pass [OF sys_retry(2,3,1)])
      (simp_all add: with_db_def wk_db_def)
  with evolves_retry_pass [OF sys_retry(2,3,1)] show ?case by simp
next
  case (sys_cleanup w now)
  have "tasks_own (with_db (cleanup_pass s now (wk_db w)) w)"
    by (rule tasks_own_db [OF sys_cleanup(2)], rule untouched_cleanup [OF sys_cleanup(1)])
      (simp_all add: with_db_def wk_db_def)
  with shrinks_cleanup [OF sys_cleanup(1)] show ?case by simp
next
  case (sys_scheduler_start w eres r')
  then show ?case by (simp add: tasks_own_def)
qed

lemma tasks_own_system_reach: "system_reach F s R w w' \<Longrightarrow> db_ok (wk_db w) \<Longrightarrow> tasks_own w \<Longrightarrow> tasks_own w'"
proof (induction rule: system_reach.induct)
  case (sys_step w' w'')
  from evolves_system_step [OF sys_step(2) db_ok_system_reach [OF sys_step(1,4)]] sys_step.IH [OF sys_step.prems]
  show ?case by blast
qed simp

lemma tasks_own_idle: "wk_running w = [] \<Longrightarrow> tasks_own w"
  by (simp add: tasks_own_def)

section \<open>Properties\<close>

text \<open>A run in which the publisher sends the pending row of the small database.\<close>

lemma sample_published:
  "\<exists>w' ob. system_step sample_fernet default_settings reference_redis sample_worker w' \<and>
     system_reach sample_fernet default_settings reference_redis sample_worker w' \<and>
     ob \<in> set (outbox_events (wk_db w')) \<and> ob_status ob = outbox_status_value OB_PUBLISHED \<and>
     get_outbox (ob_id sample_outbox) (wk_db w') = Some ob \<and> wk_done w' = []"
proof -
  have db: "wk_db sample_worker = sample_db" "wk_redis sample_worker = sample_redis"
    by (simp_all add: wk_db_def sample_worker_def sample_state_def)
  have "length (pending_outbox sample_db) \<le> 50" "sample_outbox \<in> set (pending_outbox sample_db)"
    by (simp_all add: pending_outbox_def sample_db_def sample_outbox_def)
  moreover have "rs_ready (worker_stream_name default_settings) ''g'' sample_redis" "rd_up sample_redis"
    by (simp_all add: rs_ready_def sample_redis_def)
  ultimately obtain k d' r' where p: "publish_batch reference_redis (worker_stream_name default_settings) 50 (\<lambda>xs. xs)
      (\<lambda>_. False) (\<lambda>_. 7) 7 (sample_db, sample_redis) = (k, (d', r'))" "is_published (ob_id sample_outbox) d'"
    using publish_sample [OF sample_db_ok] by blast
  have "system_step sample_fernet default_settings reference_redis sample_worker
      (with_db d' (sample_worker\<lparr>wk_redis := r'\<rparr>))"
    by (rule sys_publisher [OF is_scan_id]) (use p db in simp)
  moreover from this have "system_reach sample_fernet default_settings reference_redis sample_worker
      (with_db d' (sample_worker\<lparr>wk_redis := r'\<rparr>))"
    by (rule sys_step [OF sys_refl])
  moreover from p(2) obtain ob where "ob \<in> set (outbox_events d')" "ob_status ob = outbox_status_value OB_PUBLISHED"
    "get_outbox (ob_id sample_outbox) d' = Some ob"
    unfolding is_published_def by (blast dest: get_row_mem)
  moreover have "wk_done sample_worker = []" by (simp add: sample_worker_def)
  ultimately show ?thesis by (intro exI [of _ "with_db d' (sample_worker\<lparr>wk_redis := r'\<rparr>)"] exI [of _ ob]) simp
qed


subsection \<open>Runs with fresh identifiers\<close>

text \<open>
  Identifiers are random UUIDs. A run records all row identifiers ever stored, and no step stores a new row under one of
  them.
\<close>

datatype row_key = EventRow uuid | DeliveryRow uuid | OutboxRow uuid | EndpointRow uuid

definition stored :: "db \<Rightarrow> row_key set" where
  "stored d = EventRow ` ev_id ` set (events d) \<union> DeliveryRow ` dl_id ` set (deliveries d) \<union>
     OutboxRow ` ob_id ` set (outbox_events d) \<union> EndpointRow ` ep_id ` set (endpoints d)"

inductive fresh_run :: "fernet \<Rightarrow> settings \<Rightarrow> 'r redis_client \<Rightarrow> 'r fleet \<Rightarrow> row_key set \<Rightarrow> 'r fleet \<Rightarrow> row_key set \<Rightarrow> bool"
  for F s R w U where
  run_start: "fresh_run F s R w U w U"
| run_step: "fresh_run F s R w U w' U' \<Longrightarrow> system_step F s R w' w'' \<Longrightarrow>
    (stored (wk_db w'') - stored (wk_db w')) \<inter> U' = {} \<Longrightarrow>
    fresh_run F s R w U w'' (U' \<union> stored (wk_db w''))"

lemma fresh_run_reach: "fresh_run F s R w U w' U' \<Longrightarrow> system_reach F s R w w'"
  by (induction rule: fresh_run.induct) (auto intro: sys_refl sys_step)

lemma fresh_run_used:
  "fresh_run F s R w U w' U' \<Longrightarrow> stored (wk_db w) \<subseteq> U \<Longrightarrow> U \<subseteq> U' \<and> stored (wk_db w') \<subseteq> U'"
  by (induction rule: fresh_run.induct) auto

lemma get_iff_mem:
  "get_event_row i d \<noteq> None \<longleftrightarrow> i \<in> ev_id ` set (events d)"
  "get_delivery_row i d \<noteq> None \<longleftrightarrow> i \<in> dl_id ` set (deliveries d)"
  "get_outbox i d \<noteq> None \<longleftrightarrow> i \<in> ob_id ` set (outbox_events d)"
  "get_endpoint i d \<noteq> None \<longleftrightarrow> i \<in> ep_id ` set (endpoints d)"
  by (simp_all add: get_defs tab_get_None_iff tab_keys_def)

lemma stored_iff:
  "EventRow i \<in> stored d \<longleftrightarrow> get_event_row i d \<noteq> None" "DeliveryRow i \<in> stored d \<longleftrightarrow> get_delivery_row i d \<noteq> None"
  "OutboxRow i \<in> stored d \<longleftrightarrow> get_outbox i d \<noteq> None" "EndpointRow i \<in> stored d \<longleftrightarrow> get_endpoint i d \<noteq> None"
  unfolding get_iff_mem by (auto simp: stored_def)

definition stays_all :: "db \<Rightarrow> db \<Rightarrow> bool" where
  "stays_all d d' \<longleftrightarrow> (\<forall>i.
     stays event_moves (get_event_row i d) (get_event_row i d') \<and>
     stays delivery_moves (get_delivery_row i d) (get_delivery_row i d') \<and>
     stays outbox_moves (get_outbox i d) (get_outbox i d') \<and>
     stays endpoint_moves (get_endpoint i d) (get_endpoint i d'))"

lemma stays_all_refl [simp]: "stays_all d d"
  by (simp add: stays_all_def stays_def)

lemma stays_all_step:
  assumes "stays_all d d1" "evolves d1 d2 \<or> shrinks d1 d2" "(stored d2 - stored d1) \<inter> U = {}" "stored d \<subseteq> U"
  shows "stays_all d d2"
proof -
  have gone: "k \<notin> stored d2" if "k \<in> stored d" "k \<notin> stored d1" for k using assms(3,4) that by blast
  have "stays event_moves (get_event_row i d) (get_event_row i d2)" for i
  proof (rule stays_step)
    show "stays event_moves (get_event_row i d) (get_event_row i d1)" using assms(1) by (simp add: stays_all_def)
    show "lives event_born event_moves (get_event_row i d1) (get_event_row i d2) \<or> lasts (get_event_row i d1) (get_event_row i d2)"
      using assms(2) unfolding evolves_def shrinks_def by blast
    show "get_event_row i d2 = None" if "get_event_row i d \<noteq> None" "get_event_row i d1 = None"
      using gone [of "EventRow i", unfolded stored_iff] that by blast
  qed
  moreover
  have "stays delivery_moves (get_delivery_row i d) (get_delivery_row i d2)" for i
  proof (rule stays_step)
    show "stays delivery_moves (get_delivery_row i d) (get_delivery_row i d1)" using assms(1) by (simp add: stays_all_def)
    show "lives delivery_born delivery_moves (get_delivery_row i d1) (get_delivery_row i d2) \<or> lasts (get_delivery_row i d1) (get_delivery_row i d2)"
      using assms(2) unfolding evolves_def shrinks_def by blast
    show "get_delivery_row i d2 = None" if "get_delivery_row i d \<noteq> None" "get_delivery_row i d1 = None"
      using gone [of "DeliveryRow i", unfolded stored_iff] that by blast
  qed
  moreover
  have "stays outbox_moves (get_outbox i d) (get_outbox i d2)" for i
  proof (rule stays_step)
    show "stays outbox_moves (get_outbox i d) (get_outbox i d1)" using assms(1) by (simp add: stays_all_def)
    show "lives outbox_born outbox_moves (get_outbox i d1) (get_outbox i d2) \<or> lasts (get_outbox i d1) (get_outbox i d2)"
      using assms(2) unfolding evolves_def shrinks_def by blast
    show "get_outbox i d2 = None" if "get_outbox i d \<noteq> None" "get_outbox i d1 = None"
      using gone [of "OutboxRow i", unfolded stored_iff] that by blast
  qed
  moreover
  have "stays endpoint_moves (get_endpoint i d) (get_endpoint i d2)" for i
  proof (rule stays_step)
    show "stays endpoint_moves (get_endpoint i d) (get_endpoint i d1)" using assms(1) by (simp add: stays_all_def)
    show "lives endpoint_born endpoint_moves (get_endpoint i d1) (get_endpoint i d2) \<or> lasts (get_endpoint i d1) (get_endpoint i d2)"
      using assms(2) unfolding evolves_def shrinks_def by blast
    show "get_endpoint i d2 = None" if "get_endpoint i d \<noteq> None" "get_endpoint i d1 = None"
      using gone [of "EndpointRow i", unfolded stored_iff] that by blast
  qed
  ultimately show ?thesis by (simp add: stays_all_def)
qed

lemma fresh_run_stays:
  assumes "fresh_run F s R w U w' U'" "db_ok (wk_db w)" "tasks_own w" "stored (wk_db w) \<subseteq> U"
  shows "stays_all (wk_db w) (wk_db w') \<and> (\<forall>k \<in> U - stored (wk_db w). k \<notin> stored (wk_db w'))"
  using assms
proof (induction rule: fresh_run.induct)
  case (run_step w' U' w'')
  note reach = fresh_run_reach [OF run_step(1)]
  have own: "tasks_own w'" using tasks_own_system_reach [OF reach run_step(5,6)] .
  have used: "U \<subseteq> U'" using fresh_run_used [OF run_step(1,7)] by blast
  note step = evolves_system_step [OF run_step(2) db_ok_system_reach [OF reach run_step(5)] own]
  have "stays_all (wk_db w) (wk_db w'')"
    using stays_all_step [OF _ _ run_step(3)] step run_step used by blast
  moreover have "\<forall>k \<in> U - stored (wk_db w). k \<notin> stored (wk_db w'')"
    using run_step used by blast
  ultimately show ?case ..
qed simp

text \<open>What a run of each machine can do.\<close>

lemma delivery_run:
  "delivery_moves\<^sup>*\<^sup>* r r' \<Longrightarrow> same_attempt r r' \<and>
    (r' = r \<or> (dl_status r, dl_status r') \<in> {(''delivering'', ''delivered''), (''delivering'', ''retrying''),
       (''delivering'', ''dlq''), (''delivering'', ''queued''), (''retrying'', ''queued'')})"
proof (induction rule: rtranclp_induct)
  case base
  show ?case by (simp add: same_attempt_def)
next
  case (step r' r'')
  from step(2) obtain t t' where t: "same_attempt r' r''" "dl_status r' = delivery_status_value t"
    "dl_status r'' = delivery_status_value t'" "delivery_next t t'"
    unfolding delivery_moves_def by blast
  then have "(dl_status r', dl_status r'') \<in> {(''delivering'', ''delivered''), (''delivering'', ''retrying''),
       (''delivering'', ''dlq''), (''retrying'', ''queued'')}"
    by (cases t) auto
  moreover have "same_attempt r r''" using t(1) step.IH by (simp add: same_attempt_def)
  ultimately show ?case using step.IH by (elim conjE disjE insertE emptyE Pair_inject) simp_all
qed

lemma outbox_run:
  "outbox_moves\<^sup>*\<^sup>* r r' \<Longrightarrow> ob_id r' = ob_id r \<and> ob_event_id r' = ob_event_id r \<and> ob_payload r' = ob_payload r \<and>
    (r' = r \<or> ob_status r = ''pending'' \<and>
       (ob_status r' = ''published'' \<and> ob_published_at r' \<noteq> None \<and> ob_attempts r \<le> ob_attempts r' \<or>
        ob_status r' = ''pending'' \<and> ob_attempts r < ob_attempts r' \<and> ob_attempts r' < 10 \<or>
        ob_status r' = ''failed'' \<and> 10 \<le> ob_attempts r'))"
proof (induction rule: rtranclp_induct)
  case (step r' r'')
  from step(2) obtain st n t where r'': "r'' = r'\<lparr>ob_status := outbox_status_value st, ob_attempts := n, ob_published_at := t\<rparr>"
    and cases: "ob_status r' = ''pending''" "st = OB_PUBLISHED \<and> n = ob_attempts r' \<and> t \<noteq> None \<or>
      st = (if n \<ge> 10 then OB_FAILED else OB_PENDING) \<and> n = ob_attempts r' + 1"
    unfolding outbox_moves_def by auto
  have pending: "ob_status r = ''pending''" "ob_attempts r \<le> ob_attempts r'" using step.IH cases(1) by auto
  from cases(2) have "ob_status r'' = ''published'' \<and> ob_published_at r'' \<noteq> None \<and> ob_attempts r'' = ob_attempts r' \<or>
      ob_status r'' = ''pending'' \<and> ob_attempts r'' = ob_attempts r' + 1 \<and> ob_attempts r'' < 10 \<or>
      ob_status r'' = ''failed'' \<and> 10 \<le> ob_attempts r''"
    by (cases "n \<ge> 10") (auto simp: r'')
  with pending have "ob_status r = ''pending'' \<and>
       (ob_status r'' = ''published'' \<and> ob_published_at r'' \<noteq> None \<and> ob_attempts r \<le> ob_attempts r'' \<or>
        ob_status r'' = ''pending'' \<and> ob_attempts r < ob_attempts r'' \<and> ob_attempts r'' < 10 \<or>
        ob_status r'' = ''failed'' \<and> 10 \<le> ob_attempts r'')"
    by linarith
  moreover have "ob_id r'' = ob_id r \<and> ob_event_id r'' = ob_event_id r \<and> ob_payload r'' = ob_payload r"
    using step.IH by (simp add: r'')
  ultimately show ?case by blast
qed simp

lemma event_run:
  "event_moves\<^sup>*\<^sup>* r r' \<Longrightarrow> r' = r \<or>
    (\<exists>st t. st \<in> {''queued'', ''processing'', ''completed''} \<and> r' = r\<lparr>ev_status := st, ev_updated_at := t\<rparr>)"
proof (induction rule: rtranclp_induct)
  case (step r' r'')
  from step(2) obtain st t where "r'' = r'\<lparr>ev_status := event_status_value st, ev_updated_at := t\<rparr>"
    "event_status_value st \<in> {''queued'', ''processing'', ''completed''}"
    unfolding event_moves_def by force
  with step.IH show ?case by (intro disjI2 exI [of _ "event_status_value st"] exI [of _ t]) auto
qed simp

lemma endpoint_run:
  "endpoint_moves\<^sup>*\<^sup>* r r' \<Longrightarrow> ep_tenant_id r' = ep_tenant_id r \<and> ep_secret_encrypted r' = ep_secret_encrypted r \<and>
    ep_created_at r' = ep_created_at r"
  by (induction rule: rtranclp_induct) (simp_all add: endpoint_moves_def)

text \<open>
  C23. In every run of the system that starts with no task in flight and never gives an identifier twice, whatever the
  API, the publisher, the scheduler and the tasks of any number of worker processes do, in any order and interleaved between any two
  commits of a task: a row that exists at one time and at a later one is, at the later one, a continuation of the row it was.
  A delivery keeps its event, endpoint and attempt number, leaves DELIVERING for DELIVERED, RETRYING or
  DLQ, leaves RETRYING for QUEUED, and never changes once it is DELIVERED, DLQ or QUEUED. An outbox row keeps its event
  and payload, is given up only after ten attempts, and never changes once it is published or given up. An event keeps all but its status
  and time of update and never returns to RECEIVED. An endpoint keeps its owner, secret and time of creation.
\<close>

theorem rows_follow_life_cycles:
  assumes "wk_running w = []" "db_ok (wk_db w)" "fresh_run F s R w (stored (wk_db w)) w1 U1" "fresh_run F s R w1 U1 w2 U2"
  shows "(\<forall>r r'. get_delivery_row i (wk_db w1) = Some r \<and> get_delivery_row i (wk_db w2) = Some r' \<longrightarrow>
      dl_event_id r' = dl_event_id r \<and> dl_endpoint_id r' = dl_endpoint_id r \<and> dl_attempt_number r' = dl_attempt_number r \<and>
      (r' = r \<or> (dl_status r, dl_status r') \<in> {(''delivering'', ''delivered''), (''delivering'', ''retrying''),
         (''delivering'', ''dlq''), (''delivering'', ''queued''), (''retrying'', ''queued'')})) \<and>
    (\<forall>r r'. get_outbox i (wk_db w1) = Some r \<and> get_outbox i (wk_db w2) = Some r' \<longrightarrow>
      ob_event_id r' = ob_event_id r \<and> ob_payload r' = ob_payload r \<and>
      (r' = r \<or> ob_status r = ''pending'' \<and>
         (ob_status r' = ''published'' \<and> ob_published_at r' \<noteq> None \<and> ob_attempts r \<le> ob_attempts r' \<or>
          ob_status r' = ''pending'' \<and> ob_attempts r < ob_attempts r' \<and> ob_attempts r' < 10 \<or>
          ob_status r' = ''failed'' \<and> 10 \<le> ob_attempts r'))) \<and>
    (\<forall>r r'. get_event_row i (wk_db w1) = Some r \<and> get_event_row i (wk_db w2) = Some r' \<longrightarrow>
      r' = r \<or> (\<exists>st t. st \<in> {''queued'', ''processing'', ''completed''} \<and>
        r' = r\<lparr>ev_status := st, ev_updated_at := t\<rparr>)) \<and>
    (\<forall>r r'. get_endpoint i (wk_db w1) = Some r \<and> get_endpoint i (wk_db w2) = Some r' \<longrightarrow>
      ep_tenant_id r' = ep_tenant_id r \<and> ep_secret_encrypted r' = ep_secret_encrypted r \<and>
      ep_created_at r' = ep_created_at r)"
proof -
  note reach = fresh_run_reach [OF assms(3)]
  have "stays_all (wk_db w1) (wk_db w2)"
    using fresh_run_stays [OF assms(4) db_ok_system_reach [OF reach assms(2)]
        tasks_own_system_reach [OF reach assms(2) tasks_own_idle [OF assms(1)]]] fresh_run_used [OF assms(3)] by blast
  then have run: "stays event_moves (get_event_row i (wk_db w1)) (get_event_row i (wk_db w2))"
    "stays delivery_moves (get_delivery_row i (wk_db w1)) (get_delivery_row i (wk_db w2))"
    "stays outbox_moves (get_outbox i (wk_db w1)) (get_outbox i (wk_db w2))"
    "stays endpoint_moves (get_endpoint i (wk_db w1)) (get_endpoint i (wk_db w2))"
    by (simp_all add: stays_all_def)
  show ?thesis
  proof (intro conjI allI impI; elim conjE)
    fix r r' assume "get_delivery_row i (wk_db w1) = Some r" "get_delivery_row i (wk_db w2) = Some r'"
    with run(2) have "delivery_moves\<^sup>*\<^sup>* r r'" unfolding stays_def by blast
    note delivery_run [OF this]
    then show "dl_event_id r' = dl_event_id r" "dl_endpoint_id r' = dl_endpoint_id r"
      "dl_attempt_number r' = dl_attempt_number r"
      "r' = r \<or> (dl_status r, dl_status r') \<in> {(''delivering'', ''delivered''), (''delivering'', ''retrying''),
         (''delivering'', ''dlq''), (''delivering'', ''queued''), (''retrying'', ''queued'')}"
      unfolding same_attempt_def by blast+
  next
    fix r r' assume "get_outbox i (wk_db w1) = Some r" "get_outbox i (wk_db w2) = Some r'"
    with run(3) have "outbox_moves\<^sup>*\<^sup>* r r'" unfolding stays_def by blast
    note outbox_run [OF this]
    then show "ob_event_id r' = ob_event_id r" "ob_payload r' = ob_payload r"
      "r' = r \<or> ob_status r = ''pending'' \<and>
         (ob_status r' = ''published'' \<and> ob_published_at r' \<noteq> None \<and> ob_attempts r \<le> ob_attempts r' \<or>
          ob_status r' = ''pending'' \<and> ob_attempts r < ob_attempts r' \<and> ob_attempts r' < 10 \<or>
          ob_status r' = ''failed'' \<and> 10 \<le> ob_attempts r')"
      by blast+
  next
    fix r r' assume "get_event_row i (wk_db w1) = Some r" "get_event_row i (wk_db w2) = Some r'"
    with run(1) have "event_moves\<^sup>*\<^sup>* r r'" unfolding stays_def by blast
    from event_run [OF this] show "r' = r \<or> (\<exists>st t. st \<in> {''queued'', ''processing'', ''completed''} \<and>
        r' = r\<lparr>ev_status := st, ev_updated_at := t\<rparr>)" .
  next
    fix r r' assume "get_endpoint i (wk_db w1) = Some r" "get_endpoint i (wk_db w2) = Some r'"
    with run(4) have "endpoint_moves\<^sup>*\<^sup>* r r'" unfolding stays_def by blast
    note endpoint_run [OF this]
    then show "ep_tenant_id r' = ep_tenant_id r" "ep_secret_encrypted r' = ep_secret_encrypted r"
      "ep_created_at r' = ep_created_at r" by blast+
  qed
qed

theorem rows_follow_life_cycles_witness:
  "\<exists>w' U ob. fresh_run sample_fernet default_settings reference_redis sample_worker (stored (wk_db sample_worker)) w' U \<and>
     get_outbox (ob_id sample_outbox) (wk_db w') = Some ob \<and> ob_status ob = ''published'' \<and>
     ob_payload ob = ob_payload sample_outbox \<and> ob_published_at ob \<noteq> None"
proof -
  from sample_published obtain w' ob where w: "system_step sample_fernet default_settings reference_redis sample_worker w'"
    "ob_status ob = ''published''" "get_outbox (ob_id sample_outbox) (wk_db w') = Some ob" by auto
  have run: "fresh_run sample_fernet default_settings reference_redis sample_worker (stored (wk_db sample_worker)) w'
      (stored (wk_db sample_worker) \<union> stored (wk_db w'))"
    by (rule run_step [OF run_start w(1)]) blast
  have start: "wk_running sample_worker = []" "db_ok (wk_db sample_worker)"
    using sample_db_ok by (simp_all add: wk_db_def sample_worker_def sample_state_def)
  have "get_outbox (ob_id sample_outbox) (wk_db sample_worker) = Some sample_outbox" "ob_status sample_outbox \<noteq> ''published''"
    by (simp_all add: get_outbox_def sample_db_def tab_get_Cons wk_db_def sample_worker_def sample_state_def)
      (simp add: sample_outbox_def)
  with rows_follow_life_cycles [OF start run_start run, of "ob_id sample_outbox"] w(2,3)
  have "ob_payload ob = ob_payload sample_outbox" "ob_published_at ob \<noteq> None" by (fastforce simp del: ob_id_rows)+
  with w run show ?thesis by blast
qed

text \<open>
  The rows are well-typed: every status column holds a member of its enumeration, a delivery that waits for a retry
  has its time and a finished one its completion time, an outbox row is published with a time, pending with
  fewer than ten failures, or given up with ten.
\<close>

definition rows_ok :: "db \<Rightarrow> bool" where
  "rows_ok d \<longleftrightarrow> list_all event_ok (events d) \<and> list_all delivery_ok (deliveries d) \<and>
     list_all outbox_ok (outbox_events d) \<and> list_all endpoint_ok (endpoints d)"

lemma rows_ok_gets:
  assumes "db_ok d"
  shows "rows_ok d \<longleftrightarrow>
    (\<forall>i. pred_option event_ok (get_event_row i d) \<and> pred_option delivery_ok (get_delivery_row i d) \<and>
         pred_option outbox_ok (get_outbox i d) \<and> pred_option endpoint_ok (get_endpoint i d))"
proof
  assume "rows_ok d"
  then show "\<forall>i. pred_option event_ok (get_event_row i d) \<and> pred_option delivery_ok (get_delivery_row i d) \<and>
      pred_option outbox_ok (get_outbox i d) \<and> pred_option endpoint_ok (get_endpoint i d)"
    by (auto simp: rows_ok_def list_all_iff pred_option_def dest: get_row_mem)
next
  assume all: "\<forall>i. pred_option event_ok (get_event_row i d) \<and> pred_option delivery_ok (get_delivery_row i d) \<and>
      pred_option outbox_ok (get_outbox i d) \<and> pred_option endpoint_ok (get_endpoint i d)"
  show "rows_ok d"
    using all db_ok_get(1-4) [OF assms] unfolding rows_ok_def list_all_iff by (metis pred_option_def option.set_intros)
qed

lemma evolves_rows_ok:
  assumes "evolves d d' \<or> shrinks d d'" "db_ok d" "db_ok d'" "rows_ok d"
  shows "rows_ok d'"
  using assms(1)
proof
  assume "evolves d d'"
  with assms(4) show ?thesis
    unfolding rows_ok_gets [OF assms(2)] rows_ok_gets [OF assms(3)] evolves_def
    by (blast intro: event_rows.lives_ok delivery_rows.lives_ok outbox_rows.lives_ok endpoint_rows.lives_ok)
next
  assume "shrinks d d'"
  with assms(4) show ?thesis
    unfolding rows_ok_gets [OF assms(2)] rows_ok_gets [OF assms(3)] shrinks_def
    by (blast intro: event_rows.lasts_ok delivery_rows.lasts_ok outbox_rows.lasts_ok endpoint_rows.lasts_ok)
qed

lemma rows_ok_system_reach:
  "system_reach F s R w w' \<Longrightarrow> db_ok (wk_db w) \<Longrightarrow> tasks_own w \<Longrightarrow> rows_ok (wk_db w) \<Longrightarrow> rows_ok (wk_db w')"
proof (induction rule: system_reach.induct)
  case (sys_step w' w'')
  have ok: "db_ok (wk_db w')" "db_ok (wk_db w'')"
    using db_ok_system_reach [OF sys_step(1,4)] db_ok_system_step [OF sys_step(2)] by blast+
  from evolves_system_step [OF sys_step(2) ok(1) tasks_own_system_reach [OF sys_step(1,4,5)]]
  show ?case using evolves_rows_ok [OF _ ok] sys_step by blast
qed

lemma endpoint_ok_loads: "endpoint_ok ep \<Longrightarrow> \<exists>cb. load_circuit_breaker s ep = Inr cb"
  by (auto simp: endpoint_ok_def load_circuit_breaker_def Let_def simp del: circuit_state_value.simps)

lemma status_ranges:
  "range event_status_value = {''received'', ''queued'', ''processing'', ''completed''}"
  "range delivery_status_value = {''pending'', ''queued'', ''delivering'', ''delivered'', ''retrying'', ''failed'', ''dlq''}"
  "range circuit_state_value = {''closed'', ''open'', ''half_open''}"
proof -
  have univ: "UNIV = {EV_RECEIVED, EV_QUEUED, EV_PROCESSING, EV_COMPLETED}"
    "UNIV = {DL_PENDING, DL_QUEUED, DL_DELIVERING, DL_DELIVERED, DL_RETRYING, DL_FAILED, DL_DLQ}"
    "UNIV = {CLOSED, OPEN, HALF_OPEN}"
    by (auto intro: event_status.exhaust delivery_status.exhaust circuit_state.exhaust)
  show "range event_status_value = {''received'', ''queued'', ''processing'', ''completed''}"
    unfolding univ(1) by simp
  show "range delivery_status_value = {''pending'', ''queued'', ''delivering'', ''delivered'', ''retrying'', ''failed'', ''dlq''}"
    unfolding univ(2) by simp
  show "range circuit_state_value = {''closed'', ''open'', ''half_open''}"
    unfolding univ(3) by simp
qed

text \<open>
  C24. From a database with well-typed rows, with no task in flight, every interleaving of the components and of the
  workers' tasks leads to well-typed rows only: the status of every event and delivery and the circuit state of every
  endpoint is a member of its enumeration, a delivery that waits for a retry has the time at which the scheduler's query
  finds it, a finished one its completion time, an outbox row is pending or published with fewer than ten failures or given up
  with ten; and reading the breaker of a stored endpoint never raises. The status of an endpoint is left out: a PATCH
  stores any string there.
\<close>

theorem stored_rows_well_typed:
  assumes "system_reach F s R w w'" "db_ok (wk_db w)" "wk_running w = []" "rows_ok (wk_db w)"
  shows "(\<forall>ev \<in> set (events (wk_db w')). ev_status ev \<in> {''received'', ''queued'', ''processing'', ''completed''}) \<and>
    (\<forall>dl \<in> set (deliveries (wk_db w')).
       dl_status dl \<in> {''pending'', ''queued'', ''delivering'', ''delivered'', ''retrying'', ''failed'', ''dlq''} \<and>
       (dl_status dl = ''retrying'' \<longrightarrow> dl_next_retry_at dl \<noteq> None) \<and>
       (dl_status dl \<in> {''delivered'', ''dlq''} \<longrightarrow> dl_completed_at dl \<noteq> None)) \<and>
    (\<forall>ob \<in> set (outbox_events (wk_db w')).
       ob_status ob = ''pending'' \<and> 0 \<le> ob_attempts ob \<and> ob_attempts ob < 10 \<and> ob_published_at ob = None \<or>
       ob_status ob = ''published'' \<and> 0 \<le> ob_attempts ob \<and> ob_attempts ob < 10 \<and> ob_published_at ob \<noteq> None \<or>
       ob_status ob = ''failed'' \<and> ob_attempts ob = 10 \<and> ob_published_at ob = None) \<and>
    (\<forall>ep \<in> set (endpoints (wk_db w')).
       ep_circuit_state ep \<in> {''closed'', ''open'', ''half_open''} \<and> (\<exists>cb. load_circuit_breaker s ep = Inr cb))"
proof -
  have "rows_ok (wk_db w')" using rows_ok_system_reach [OF assms(1,2) tasks_own_idle [OF assms(3)] assms(4)] .
  then show ?thesis
    using endpoint_ok_loads [of _ s] unfolding rows_ok_def list_all_iff
    by (simp add: event_ok_def delivery_ok_def outbox_ok_def endpoint_ok_def status_ranges)
qed

lemma sample_rows_ok: "rows_ok sample_db"
proof -
  have "''received'' = event_status_value EV_RECEIVED" "''closed'' = circuit_state_value CLOSED" by simp_all
  then have "event_ok sample_event" "endpoint_ok sample_endpoint"
    unfolding event_ok_def endpoint_ok_def by (simp_all add: sample_event_def sample_endpoint_def del: event_status_value.simps circuit_state_value.simps)
  moreover have "outbox_ok sample_outbox" by (simp add: outbox_ok_def sample_outbox_def)
  ultimately show ?thesis by (simp add: rows_ok_def sample_db_def)
qed

theorem stored_rows_well_typed_witness:
  "\<exists>w' ob. system_reach sample_fernet default_settings reference_redis sample_worker w' \<and>
     ob \<in> set (outbox_events (wk_db w')) \<and> ob_status ob = ''published'' \<and> ob_attempts ob < 10 \<and> ob_published_at ob \<noteq> None"
proof -
  from sample_published obtain w' ob where w: "system_reach sample_fernet default_settings reference_redis sample_worker w'"
    "ob \<in> set (outbox_events (wk_db w'))" "ob_status ob = ''published''" by auto
  have "db_ok (wk_db sample_worker)" "wk_running sample_worker = []" "rows_ok (wk_db sample_worker)"
    using sample_db_ok sample_rows_ok by (simp_all add: wk_db_def sample_worker_def sample_state_def)
  from stored_rows_well_typed [OF w(1) this] w have "ob_attempts ob < 10 \<and> ob_published_at ob \<noteq> None" by fastforce
  with w show ?thesis by blast
qed

end
