(* ===== verification/Completion.thy ===== *)
theory Completion
  imports Lifecycle
begin

text \<open>
  When an event is COMPLETED (\<open>_maybe_complete_event\<close> of \<open>apps/worker/eventmesh_worker/delivery_engine.py\<close>).
  The enumeration's comment promises: when all subscribed endpoints reached a terminal state. The code looks at
  the delivery rows that exist, so the first success of a fan-out completes the event, and an attempt whose task
  died leaves a row that keeps the event from ever being completed.
\<close>

section \<open>A call that succeeds\<close>

lemma finish_delivery_success:
  assumes "finish_delivery s env ev ep cb n c t x st = (Inr sm, st')" "sm_outcome sm = SUCCESS"
  shows "\<exists>st1. es_db st1 = es_db st \<and> st' = finish_success env ev ep cb c st1"
  by (rule exI [of _ "add_metric (Delivery_latency_seconds (ev_event_type ev) (of_int (latency_ms env) / 1000)) st"])
    (use assms in \<open>auto simp: finish_delivery_def Let_def split: if_splits sum.splits prod.splits\<close>)

lemma attempt_success:
  assumes "attempt_delivery s env ev ep cb n st = (Inr sm, st')" "sm_outcome sm = SUCCESS"
  obtains d1 c st1 where "insert_delivery (started_row env ev ep n) (es_db st) = Inr d1" "es_db st1 = d1"
    "st' = finish_success env ev ep cb c st1"
proof (cases rule: attempt_delivery_cases [where env = env and ev = ev and ep = ep and n = n and st = st and s = s])
  case (valid d1)
  from assms(1) obtain sec where "send_and_finish s env sec ev ep cb n (started_state ev d1 st) = (Inr sm, st')"
    by (auto simp: attempt_valid [OF valid] split: sum.splits)
  then obtain c t x st2 where "finish_delivery s env ev ep cb n c t x st2 = (Inr sm, st')" "es_db st2 = d1"
    by (fastforce simp: send_and_finish_def Let_def split: http_result.splits)
  with finish_delivery_success [OF _ assms(2)] that [OF valid(1)] show thesis by metis
qed (use assms in \<open>auto simp: attempt_insert_fails attempt_ssrf attempt_raises\<close>)

lemma delivered_statuses:
  assumes "insert_delivery (started_row env ev ep n) d = Inr d1"
  shows "delivery_statuses (ev_id ev) (modify_delivery (de_new_id env) (delivered_row env c) d1) =
    insert (delivery_status_value DL_DELIVERED) (delivery_statuses (ev_id ev) d)"
proof -
  note rows = insert_delivery_rows [OF assms]
  have "deliveries (modify_delivery (de_new_id env) (delivered_row env c) d1) =
      deliveries d @ [delivered_row env c (started_row env ev ep n)]"
    using modify_last [OF rows(1) _ rows(2)] by simp
  then show ?thesis
    by (auto simp: delivery_statuses_def delivered_row_def new_delivery_def simp del: delivery_status_value.simps)
qed

lemma finish_success_event:
  assumes "get_event_row (ev_id ev) (es_db st) = Some ev"
  shows "\<exists>ev'. get_event_row (ev_id ev) (es_db (finish_success env ev ep cb c st)) = Some ev' \<and>
    (ev_status ev' = event_status_value EV_COMPLETED \<longleftrightarrow>
       ev_status ev = event_status_value EV_COMPLETED \<or>
       all_terminal (ev_id ev) (modify_delivery (de_new_id env) (delivered_row env c) (es_db st)))"
proof -
  have row: "delivered_row env c = (\<lambda>r. r\<lparr>dl_http_status := c, dl_latency_ms := Some (latency_ms env),
      dl_completed_at := Some (de_completed env), dl_status := delivery_status_value DL_DELIVERED\<rparr>)"
    by (simp add: delivered_row_def fun_eq_iff)
  have "get_event_row i (save_circuit_breaker now ep cb d) = get_event_row i d" for now i cb d
    by (rule get_event_cong) simp
  moreover have "get_event_row i (modify_delivery j f d) = get_event_row i d" for i j f d
    by (rule get_event_cong) simp
  moreover have "get_event_row (ev_id ev) (modify_event (ev_id ev)
      (\<lambda>e. e\<lparr>ev_status := event_status_value EV_COMPLETED, ev_updated_at := now\<rparr>) d) =
      map_option (\<lambda>e. e\<lparr>ev_status := event_status_value EV_COMPLETED, ev_updated_at := now\<rparr>) (get_event_row (ev_id ev) d)" for now d
    using event_table.get_modified by (simp add: get_event_row_def)
  ultimately show ?thesis
    using assms by (simp add: finish_success_def row all_terminal_def maybe_complete_event_def Let_def
        del: event_status_value.simps delivery_status_value.simps) blast
qed

text \<open>A success completes the event exactly if every other attempt recorded so far has ended.\<close>

lemma success_completes:
  assumes "deliver_to_endpoint s env eid epid n st = (Inr sm, st')" "sm_outcome sm = SUCCESS"
  shows "\<exists>ev ev'. get_event_row eid (es_db st) = Some ev \<and> get_event_row eid (es_db st') = Some ev' \<and>
    (ev_status ev' = event_status_value EV_COMPLETED \<longleftrightarrow>
       ev_status ev = event_status_value EV_COMPLETED \<or> delivery_statuses eid (es_db st) \<subseteq> terminal_statuses)"
  using assms(1)
proof (cases rule: deliver_to_endpoint_cases)
  case (attempt ev ep cb0 cb)
  note eid = get_event_id [OF attempt(1)]
  from attempt_success [OF attempt(5) assms(2)] obtain d1 c st1 where
    a: "insert_delivery (started_row env ev ep n) (es_db st) = Inr d1" "es_db st1 = d1" "st' = finish_success env ev ep cb c st1" .
  have "get_event_row (ev_id ev) (es_db st1) = Some ev"
    using a(1,2) attempt(1) eid insert_delivery_gets(2) by simp
  from finish_success_event [OF this, of env ep cb c] delivered_statuses [OF a(1), of c] a attempt(1) eid show ?thesis
    by (auto simp: all_terminal_def terminal_statuses_def)
qed (use assms(2) in \<open>auto split: sum.splits\<close>)

section \<open>The rest of the fan-out\<close>

text \<open>The sample database with a second endpoint, whose circuit is open.\<close>

definition sample_fan_state :: engine_state where
  "sample_fan_state = sample_state\<lparr>es_db := sample_db\<lparr>endpoints := [sample_endpoint, sample_open_endpoint\<lparr>ep_id := 21\<rparr>]\<rparr>\<rparr>"

definition sample_first_state :: db where
  "sample_first_state = (es_db sample_fan_state)\<lparr>events := [sample_event\<lparr>ev_status := ''completed'', ev_updated_at := 0\<rparr>],
     deliveries := [delivered_row sample_env (Some 200) (started_row sample_env sample_event sample_endpoint 1)]\<rparr>"

lemma sample_first_call:
  "\<exists>st1. deliver_to_endpoint default_settings sample_env 10 20 1 sample_fan_state =
     (Inr \<lparr>sm_endpoint_id = 20, sm_outcome = SUCCESS, sm_http_status = Some 200\<rparr>, st1) \<and> es_db st1 = sample_first_state"
proof -
  have gets: "get_event_row 10 (es_db sample_fan_state) = Some sample_event"
    "get_endpoint 20 (es_db sample_fan_state) = Some sample_endpoint"
    by (simp_all add: sample_fan_state_def sample_state_def sample_defs get_event_row_def get_endpoint_def tab_get_Cons)
  let ?d1 = "(es_db sample_fan_state)\<lparr>deliveries := [started_row sample_env sample_event sample_endpoint 1]\<rparr>"
  have "insert_delivery (started_row sample_env sample_event sample_endpoint 1) (es_db sample_fan_state) = Inr ?d1"
    by (simp add: insert_delivery_def fits_defs new_delivery_def sample_fan_state_def sample_state_def sample_defs
        sample_env_def)
  note eq = sample_call [OF gets this] sample_sends
  have closed: "save_circuit_breaker now sample_endpoint (cb_record_success sample_breaker) d = d" for now d
    by (simp add: save_unchanged cb_record_success_def record_success_def initial_state_def sample_endpoint_def)
  show ?thesis
    unfolding eq
    by (auto simp: finish_success_def Let_def closed delivered_row_def sample_first_state_def maybe_complete_event_def
        modify_delivery_def tab_upd_Cons modify_event_def delivery_statuses_def terminal_statuses_def sample_fan_state_def
        sample_state_def sample_db_def sample_event_def sample_env_def new_delivery_def)
qed

lemma sample_second_call:
  assumes "es_db st = sample_first_state"
  shows "delivery_status_value DL_RETRYING \<in> delivery_statuses 10
    (es_db (snd (deliver_to_endpoint default_settings (sample_env\<lparr>de_new_id := 41\<rparr>) 10 21 1 st)))"
proof -
  have t: "timedelta_seconds 30 = 30000000" using timedelta_seconds_of_int [of 30] by simp
  have gets: "get_event_row 10 (es_db st) = Some (sample_event\<lparr>ev_status := ''completed'', ev_updated_at := 0\<rparr>)"
    "get_endpoint 21 (es_db st) = Some (sample_open_endpoint\<lparr>ep_id := 21\<rparr>)"
    by (simp_all add: assms sample_first_state_def sample_fan_state_def sample_state_def sample_open_endpoint_def sample_defs
        get_event_row_def get_endpoint_def tab_get_Cons)
  show ?thesis
    unfolding deliver_to_endpoint_def gets
    by (simp add: load_circuit_breaker_def sample_open_endpoint_def sample_endpoint_def default_settings_def
        initial_state_def circuit_state_of_def enum_of_value_def cb_allow_request_def allow_request_open
        schedule_retry_def insert_delivery_def fits_defs new_delivery_def sample_env_def t assms sample_first_state_def
        sample_fan_state_def sample_state_def sample_event_def sample_db_def delivered_row_def delivery_statuses_def)
qed

text \<open>
  C13. When the deliveries recorded for an event so far have ended, as for every new event, and the first endpoint of a
  fan-out answers with success, the event is COMPLETED when the fan-out returns or raises, whatever happened to the
  other endpoints.
\<close>

theorem first_success_completes:
  assumes "deliver_all s envs k eid (ep # eps) st = (r, st')"
    "deliver_to_endpoint s (envs k) eid ep 1 st = (Inr sm, st1)" "sm_outcome sm = SUCCESS"
    "delivery_statuses eid (es_db st) \<subseteq> terminal_statuses"
  shows "\<exists>ev. get_event_row eid (es_db st') = Some ev \<and> ev_status ev = event_status_value EV_COMPLETED"
proof -
  from success_completes [OF assms(2,3)] assms(4) obtain ev where
    ev: "get_event_row eid (es_db st1) = Some ev" "ev_status ev = event_status_value EV_COMPLETED" by blast
  obtain r2 st2 where rest: "deliver_all s envs (Suc k) eid eps st1 = (r2, st2)" by fastforce
  with assms(1,2) have "st' = st2" by (auto split: sum.splits)
  with completed_stays_all [OF rest ev] ev(2) show ?thesis by blast
qed

theorem first_success_completes_witness:
  "\<exists>st'. snd (deliver_all default_settings (\<lambda>k. sample_env\<lparr>de_new_id := 40 + of_nat k\<rparr>) 0 10 [20, 21] sample_fan_state) = st' \<and>
     (\<exists>ev. get_event_row 10 (es_db st') = Some ev \<and> ev_status ev = ''completed'') \<and>
     delivery_status_value DL_RETRYING \<in> delivery_statuses 10 (es_db st')"
proof -
  let ?envs = "\<lambda>k. sample_env\<lparr>de_new_id := 40 + of_nat k\<rparr>"
  obtain r st' where all: "deliver_all default_settings ?envs 0 10 [20, 21] sample_fan_state = (r, st')" by fastforce
  from sample_first_call obtain st1 where one: "deliver_to_endpoint default_settings (?envs 0) 10 20 1 sample_fan_state =
      (Inr \<lparr>sm_endpoint_id = 20, sm_outcome = SUCCESS, sm_http_status = Some 200\<rparr>, st1)" "es_db st1 = sample_first_state"
    by (auto simp: sample_env_def)
  have "delivery_statuses 10 (es_db sample_fan_state) \<subseteq> terminal_statuses"
    by (simp add: delivery_statuses_def sample_fan_state_def sample_state_def sample_db_def)
  from first_success_completes [OF all one(1) _ this]
  have "\<exists>ev. get_event_row 10 (es_db st') = Some ev \<and> ev_status ev = ''completed''" by simp
  moreover from all one(1) have "st' = snd (deliver_to_endpoint default_settings (sample_env\<lparr>de_new_id := 41\<rparr>) 10 21 1 st1)"
    by (auto split: prod.splits sum.splits)
  with sample_second_call [OF one(2)] have "delivery_status_value DL_RETRYING \<in> delivery_statuses 10 (es_db st')" by simp
  ultimately show ?thesis using all by simp
qed

section \<open>Who completes an event\<close>

definition completed_event :: "uuid \<Rightarrow> db \<Rightarrow> bool" where
  "completed_event j d \<longleftrightarrow> (\<exists>ev. get_event_row j d = Some ev \<and> ev_status ev = event_status_value EV_COMPLETED)"

lemma completed_event_cong: "events d' = events d \<Longrightarrow> completed_event j d' \<Longrightarrow> completed_event j d"
  by (simp add: completed_event_def get_event_row_def)

lemma completed_event_modify:
  assumes "completed_event j (modify_event i f d)" "\<And>e. ev_id (f e) = ev_id e"
    "\<And>e. ev_status (f e) \<noteq> event_status_value EV_COMPLETED"
  shows "completed_event j d"
  using assms event_table.get_modified [of f j i d]
  by (auto simp: completed_event_def get_event_row_def simp del: event_status_value.simps split: if_splits)

lemma completed_event_insert:
  assumes "insert_event ev d = Inr d'" "ev_status ev \<noteq> event_status_value EV_COMPLETED" "completed_event j d'"
  shows "completed_event j d"
  using insert_frame(1) [OF assms(1)] assms(2,3)
  by (auto simp: completed_event_def get_event_row_def tab_get_append tab_get_Cons split: option.splits if_splits)

lemma completed_event_marks:
  "completed_event j (set_processing now ev d) \<Longrightarrow> completed_event j d"
  "completed_event j (queue_event now i d) \<Longrightarrow> completed_event j d"
  "completed_event j (mark_queued env ev d) \<Longrightarrow> completed_event j d"
  by (auto simp: set_processing_def queue_event_def mark_queued_def split: if_splits option.splits
      intro: completed_event_modify [where j = j and d = d])

lemma completed_create_event:
  assumes "create_event s env body hdr ctx (d, ms) = (r, (d', ms'))" "completed_event j d'"
  shows "completed_event j d"
  using assms(1)
proof (cases rule: create_event_cases)
  case created
  from created(1) obtain d1 where "insert_event (new_event env body ctx) d = Inr d1" "events d' = events d1"
    by (auto simp: create_rows_def Let_def rbind_Inr_iff split: option.splits dest!: insert_frame(5,6))
  with completed_event_insert [of _ d d1 j] completed_event_cong [OF _ assms(2)] show ?thesis
    by (simp add: new_event_def)
qed (use assms(2) in simp_all)

lemma completed_replay_event:
  assumes "replay_event env i ctx d = (r, d')" "completed_event j d'"
  shows "completed_event j d"
proof -
  have "completed_event j d" if "insert_outbox (replay_row env ctx ev) (mark_queued env ev d) = Inr d'" for ev
    by (rule completed_event_marks(3) [where env = env and ev = ev], rule completed_event_cong [OF _ assms(2)])
      (simp add: insert_frame(6) [OF that])
  with assms show ?thesis by (auto simp: replay_event_def split: option.splits if_splits sum.splits)
qed

lemma events_api_step:
  "replay_dlq_entry renv i ctx d = (r, d') \<Longrightarrow> events d' = events d"
  "create_endpoint F s nenv nbody ctx d = (nr, d') \<Longrightarrow> events d' = events d"
  "auth_session now h d = Inr (ctx, d') \<Longrightarrow> events d' = events d"
  "delete_endpoint i ctx d = (xr, d') \<Longrightarrow> events d' = events d"
proof -
  show "replay_dlq_entry renv i ctx d = (r, d') \<Longrightarrow> events d' = events d"
    by (auto simp: replay_dlq_entry_def split: sum.splits if_splits dest!: insert_frame(6))
  show "events d' = events d" if "create_endpoint F s nenv nbody ctx d = (nr, d')"
    using that
  proof (cases rule: create_endpoint_cases)
    case (created token d1)
    from created(4) insert_frame(2) [OF created(3)] show ?thesis by (simp add: insert_subscriptions_iff)
  qed simp
  show "auth_session now h d = Inr (ctx, d') \<Longrightarrow> events d' = events d"
    by (auto dest!: auth_session_writes simp: modify_api_key_def)
  show "delete_endpoint i ctx d = (xr, d') \<Longrightarrow> events d' = events d"
    using delete_endpoint_eq [of i ctx d] by (auto split: if_splits)
qed

lemma events_update_endpoint:
  assumes "update_endpoint s env i body ctx d = (r, d')" "db_ok d"
  shows "events d' = events d"
  using assms(1)
proof (cases rule: update_endpoint_cases)
  case (updated ep d1)
  have "events d1 = events d"
    using flush_endpoint_result(3) [OF updated(4,1) patch_endpoint_simps(1) assms(2)]
    by (metis db.ext_inject db.surjective db.update_convs(3))
  moreover have "events d' = events d1"
    using replace_subscriptions_result(3) [OF updated(5)] by (metis db.ext_inject db.surjective db.update_convs(4))
  ultimately show ?thesis by simp
qed simp

lemma completed_api_step:
  assumes "api_step F s d d'" "db_ok d" "completed_event j d'"
  shows "completed_event j d"
  using assms
  by (induction rule: api_step.induct)
    (blast intro: completed_create_event completed_replay_event completed_event_cong events_api_step events_update_endpoint)+

lemma completed_publish_rows:
  "completed_event j (fst (publish_rows R stream nows k db_now rows st)) \<Longrightarrow> completed_event j (fst st)"
proof (induction rows arbitrary: k st)
  case (Cons row rows)
  have "completed_event j (fst st)" if "completed_event j (fst (publish_row R stream (nows k) db_now row st))"
    using that by (cases st) (auto simp: publish_row_def modify_outbox_def split: prod.splits sum.splits
        dest!: completed_event_marks(2) intro: completed_event_cong [of "modify_outbox i f d" d j for i f d])
  with Cons show ?case by simp
qed simp

lemma completed_publish_batch:
  assumes "publish_batch R stream n scan locked nows now (d, r) = (k, (d', r'))" "completed_event j d'"
  shows "completed_event j d"
  using assms completed_publish_rows [of j R stream nows 0 now "select_batch scan locked n d" "(d, r)"]
  by (auto simp: publish_batch_def Let_def split: if_splits)

lemma events_requeue_rows: "requeue_rows R stream isof dls d r = (Inr d', r') \<Longrightarrow> events d' = events d"
  by (induction R stream isof dls d r rule: requeue_rows.induct)
    (auto split: option.splits prod.splits sum.splits simp: modify_delivery_def)

lemma events_retry_pass:
  assumes "retry_requeue_pass s R isof scan locked now (d, r) = (d', r')"
  shows "events d' = events d"
  using assms by (cases rule: retry_requeue_pass_cases) (simp_all add: events_requeue_rows)

lemma completed_cleanup:
  assumes "db_ok d" "completed_event j (cleanup_pass s now d)"
  shows "completed_event j d"
proof -
  from assms(2) obtain ev where ev: "get_event_row j (cleanup_pass s now d) = Some ev"
    "ev_status ev = event_status_value EV_COMPLETED" unfolding completed_event_def by blast
  have "set (events (cleanup_pass s now d)) \<subseteq> set (events d)"
    by (auto simp: cleanup_pass_cases cleanup_children_def Let_def delete_defs)
  with get_row_mem(1) [OF ev(1)] have "ev \<in> set (events d)" by blast
  from db_ok_get(1) [OF assms(1) this] get_row_id(1) [OF ev(1)] ev(2) show ?thesis
    by (auto simp: completed_event_def)
qed

text \<open>Of the steps of a task, only the commit of a success whose query found all deliveries ended.\<close>

fun completing :: "uuid \<Rightarrow> task_point \<Rightarrow> bool" where
  "completing eid (Deciding a c terminal eps) \<longleftrightarrow> terminal \<and> ev_id (at_event a) = eid"
| "completing eid _ \<longleftrightarrow> False"

lemma events_answer_step:
  assumes "answer_step s a h eps st = (pt', st')"
  shows "events (es_db st') = events (es_db st)"
  using assms
  by (cases rule: answer_step_cases) (auto simp: finish_failure_def Let_def split: if_splits sum.splits prod.splits)

lemma completed_success_step:
  assumes "success_step a c terminal eps st = (pt', st')" "completed_event j (es_db st')"
  shows "completed_event j (es_db st) \<or> terminal \<and> ev_id (at_event a) = j"
proof (cases "st' = st")
  case False
  let ?d1 = "modify_delivery (de_new_id (at_env a)) (delivered_row (at_env a) c) (es_db st)"
  let ?d2 = "if terminal \<and> ev_status (at_event a) \<noteq> event_status_value EV_COMPLETED
    then complete_event (de_db_now (at_env a)) (at_event a) ?d1 else ?d1"
  from False assms(1) have "es_db st' = save_circuit_breaker (de_db_now (at_env a)) (at_endpoint a)
      (cb_record_success (at_breaker a)) ?d2"
    by (auto simp: success_step_def Let_def split: if_splits)
  then have "events (es_db st') = events ?d2" by (simp only: events_frame)
  from completed_event_cong [OF this assms(2)] have "completed_event j ?d2" .
  moreover have "completed_event j (es_db st)" if "completed_event j ?d1"
    using completed_event_cong [OF events_frame(1) that] .
  moreover have "completed_event j ?d1" if "completed_event j (complete_event now (at_event a) ?d1)" "j \<noteq> ev_id (at_event a)" for now
    using that get_event_modify [OF that(2)] by (simp add: completed_event_def complete_event_def)
  ultimately show ?thesis by (cases "j = ev_id (at_event a)") (auto split: if_splits)
qed (use assms(2) in simp)

lemma completed_task_step:
  assumes "task_step s E msg pt st = (pt', st')" "completed_event j (es_db st')"
  shows "completed_event j (es_db st) \<or> completing j pt"
proof (cases pt)
  case (Looping eid eps)
  with assms show ?thesis by (cases eps) (auto simp: task_step_def)
next
  case (Loaded a ok eps)
  with assms(1) have "events (es_db st') = events (es_db st)"
    by (auto simp: task_step_def record_step_def schedule_retry_def Let_def split: if_splits sum.splits dest!: insert_frame(4))
  with assms(2) show ?thesis using completed_event_cong by blast
next
  case (Recorded a eps)
  with assms(1) have "events (es_db st') = events (es_db st)"
    by (auto simp: task_step_def send_step_def Let_def split: if_splits sum.splits exn.splits http_result.splits)
  with assms(2) show ?thesis using completed_event_cong by blast
next
  case (Answered a h eps)
  with assms events_answer_step show ?thesis by (simp add: task_step_def) (blast intro: completed_event_cong)
next
  case (Deciding a c terminal eps)
  with assms completed_success_step show ?thesis by (auto simp: task_step_def)
qed (use assms in \<open>auto simp: task_step_def commit_processing_def split: if_splits dest: completed_event_marks(1)\<close>)

section \<open>An attempt whose task is gone\<close>

text \<open>
  A row that has not ended and does not wait for its retry, with no task at work on it or about to complete its event.
\<close>

definition parked_status :: "string \<Rightarrow> bool" where
  "parked_status st \<longleftrightarrow> st \<in> {delivery_status_value DL_DELIVERING, delivery_status_value DL_QUEUED}"

definition parked :: "delivery \<Rightarrow> 'r fleet \<Rightarrow> bool" where
  "parked row w \<longleftrightarrow> get_delivery_row (dl_id row) (wk_db w) = Some row \<and>
     (\<forall>t \<in> set (wk_running w). committed (tk_point t) \<noteq> Some (dl_id row) \<and> \<not> completing (dl_event_id row) (tk_point t))"

text \<open>The row of an attempt that is under way, and no task that works on it or is about to complete its event.\<close>

definition stuck_row :: "uuid \<Rightarrow> uuid \<Rightarrow> db \<Rightarrow> bool" where
  "stuck_row i eid d \<longleftrightarrow>
     (\<exists>row. get_delivery_row i d = Some row \<and> dl_event_id row = eid \<and> dl_status row = delivery_status_value DL_DELIVERING)"

definition abandoned :: "uuid \<Rightarrow> uuid \<Rightarrow> 'r fleet \<Rightarrow> bool" where
  "abandoned i eid w \<longleftrightarrow> stuck_row i eid (wk_db w) \<and>
     (\<forall>t \<in> set (wk_running w). committed (tk_point t) \<noteq> Some i \<and> \<not> completing eid (tk_point t))"

lemma abandoned_parked:
  "abandoned i eid w \<longleftrightarrow> (\<exists>row. parked row w \<and> dl_id row = i \<and> dl_event_id row = eid \<and>
     dl_status row = delivery_status_value DL_DELIVERING)"
  unfolding abandoned_def stuck_row_def parked_def by (auto dest: get_row_id(3))

lemma parked_not_terminal:
  assumes "get_delivery_row i d = Some row" "parked_status (dl_status row)"
  shows "\<not> all_terminal (dl_event_id row) d"
proof
  assume "all_terminal (dl_event_id row) d"
  moreover have "dl_status row \<in> delivery_statuses (dl_event_id row) d"
    unfolding delivery_statuses_def by (rule imageI) (use get_row_mem(3) [OF assms(1)] in simp)
  ultimately have "dl_status row \<in> terminal_statuses" by (auto simp: all_terminal_def Let_def)
  with assms(2) show False by (auto simp: terminal_statuses_def parked_status_def)
qed

lemma insert_delivery_fresh: "insert_delivery r d = Inr d' \<Longrightarrow> get_delivery_row (dl_id r) d = None"
  using delivery_table.ins_fresh by (auto simp: get_delivery_row_def tab_get_None_iff)

lemma parked_not_loaded:
  assumes "record_step s a ok eps st = (pt', st')" "get_delivery_row (de_new_id (at_env a)) (es_db st) \<noteq> None"
  shows "st' = st \<and> committed pt' = None"
proof -
  have "insert_delivery r (es_db st) \<noteq> Inr d1" if "dl_id r = de_new_id (at_env a)" for r d1
    using insert_delivery_fresh that assms(2) by metis
  with assms(1) show ?thesis
    by (auto simp: record_step_def schedule_retry_def Let_def split: if_splits sum.splits)
qed

lemma parked_task_step:
  assumes "task_step s E msg pt st = (pt', st')" "committed pt \<noteq> Some i" "get_delivery_row i (es_db st) = Some row"
  shows "get_delivery_row i (es_db st') = Some row \<and> committed pt' \<noteq> Some i"
proof (cases "\<exists>a ok eps. pt = Loaded a ok eps \<and> de_new_id (at_env a) = i")
  case True
  with assms parked_not_loaded show ?thesis by (fastforce simp: task_step_def)
next
  case False
  with assms(2) have "held pt \<noteq> Some i" by (cases pt) auto
  moreover have "committed pt' \<noteq> Some i" if "held pt \<noteq> Some i"
    using held_after [OF assms(1), of i] that assms(1) committed_held [of pt' i]
    by (auto simp: task_step_def load_step_def split: option.splits sum.splits prod.splits)
  ultimately show ?thesis using task_step_other [OF assms(1)] assms(3) by simp
qed

lemma parked_not_completing:
  assumes "task_step s E msg pt st = (pt', st')" "committed pt \<noteq> Some i" "get_delivery_row i (es_db st) = Some row"
    "parked_status (dl_status row)" "\<not> completing (dl_event_id row) pt"
  shows "\<not> completing (dl_event_id row) pt'"
proof (cases pt)
  case (Looping eid' eps)
  with assms(1) show ?thesis
    by (cases eps) (auto simp: task_step_def load_step_def split: option.splits sum.splits prod.splits)
next
  case (Answered a h eps)
  let ?i = "de_new_id (at_env a)"
  have "get_delivery_row i (modify_delivery ?i (delivered_row (at_env a) c) (es_db st)) = Some row" for c
    using Answered assms(2,3) by (simp add: get_delivery_modify_other)
  from parked_not_terminal [OF this assms(4)] Answered assms(1) show ?thesis
    by (auto simp: task_step_def answer_step_def Let_def split: if_splits sum.splits prod.splits)
qed (use assms(1) in \<open>auto simp: task_step_def resolve_step_def record_step_def send_step_def success_step_def
      commit_processing_def Let_def split: if_splits sum.splits exn.splits http_result.splits option.splits prod.splits\<close>)

lemma parked_sub:
  assumes "parked row w" "wk_db w' = wk_db w" "set (wk_running w') \<subseteq> set (wk_running w)"
  shows "parked row w'"
  using assms unfolding parked_def by auto

lemma parked_worker_step:
  assumes "worker_step s R w w'" "parked row w" "parked_status (dl_status row)"
  shows "parked row w' \<and> (completed_event (dl_event_id row) (wk_db w') \<longrightarrow> completed_event (dl_event_id row) (wk_db w))"
  using assms
proof (induction rule: worker_step.induct)
  case (step_task w ts t us E pt st)
  from step_task(1,4) have t: "committed (tk_point t) \<noteq> Some (dl_id row)" "\<not> completing (dl_event_id row) (tk_point t)"
    "get_delivery_row (dl_id row) (es_db (wk_engine w)) = Some row"
    by (simp_all add: parked_def wk_db_def)
  from parked_task_step [OF step_task(2) t(1,3)] parked_not_completing [OF step_task(2) t(1,3) step_task(5) t(2)]
    completed_task_step [OF step_task(2)] t(2) step_task(1,4)
  show ?case by (auto simp: parked_def wk_db_def)
next
  case (step_start c m w)
  then show ?case by (auto simp: parked_def wk_db_def)
next
  case (step_finish w ts t us res)
  then show ?case
    by (auto simp: finish_task_def wk_db_def intro: parked_sub [OF step_finish(3)])
qed (auto simp: wk_db_def worker_process_defs split: prod.splits sum.splits elim!: parked_sub)

lemma parked_db:
  assumes "parked row w" "get_delivery_row (dl_id row) d = get_delivery_row (dl_id row) (wk_db w)"
  shows "parked row (with_db d w)" "parked row (with_db d (w\<lparr>wk_redis := r\<rparr>))"
  using assms by (auto simp: parked_def) (simp_all add: with_db_def)

lemma parked_system_step:
  assumes "system_step F s R w w'" "db_ok (wk_db w)" "parked row w" "parked_status (dl_status row)"
    "get_delivery_row (dl_id row) (wk_db w') \<noteq> None"
  shows "parked row w' \<and> (completed_event (dl_event_id row) (wk_db w') \<longrightarrow> completed_event (dl_event_id row) (wk_db w))"
  using assms
proof (induction rule: system_step.induct)
  case (sys_worker w w')
  then show ?case by (simp add: parked_worker_step)
next
  case (sys_api w d')
  have "get_delivery_row (dl_id row) d' = get_delivery_row (dl_id row) (wk_db w)"
    using deliveries_api_step [OF sys_api(1,2)] by (simp add: get_delivery_row_def)
  with parked_db(1) [OF sys_api(3)] completed_api_step [OF sys_api(1,2)] show ?case by simp
next
  case (sys_publisher scan n locked nows now w k d' r')
  have "get_delivery_row (dl_id row) d' = get_delivery_row (dl_id row) (wk_db w)"
    using deliveries_publish_batch [OF sys_publisher(2)] by (simp add: get_delivery_row_def)
  with parked_db(2) [OF sys_publisher(4)] completed_publish_batch [OF sys_publisher(2)] show ?case by simp
next
  case (sys_retry dscan isof locked now w d' r')
  have "get_delivery_row (dl_id row) d' = get_delivery_row (dl_id row) (wk_db w)"
    by (rule retry_pass_skips_row [OF sys_retry(2,3,1)]) (use sys_retry(4,5) in \<open>auto simp: parked_def parked_status_def\<close>)
  with parked_db(2) [OF sys_retry(4)] completed_event_cong [OF events_retry_pass [OF sys_retry(2)]] show ?case by simp
next
  case (sys_cleanup w now)
  from sys_cleanup(4) obtain x where "get_delivery_row (dl_id row) (cleanup_pass s now (wk_db w)) = Some x" by auto
  with cleanup_skips [OF sys_cleanup(1)]
  have "get_delivery_row (dl_id row) (cleanup_pass s now (wk_db w)) = get_delivery_row (dl_id row) (wk_db w)" by simp
  with parked_db(1) [OF sys_cleanup(2)] completed_cleanup [OF sys_cleanup(1)] show ?case by simp
next
  case (sys_scheduler_start w eres r')
  then show ?case by (simp add: parked_def)
qed

text \<open>How a row gets there: the process dies between the commit of the row and the commit of the outcome.\<close>

lemma crash_abandons:
  assumes "tasks_own w" "t \<in> set (wk_running w)" "committed (tk_point t) = Some i" "stuck_row i eid (wk_db w)"
    "\<forall>u \<in> set (wk_running w). tk_consumer u \<noteq> tk_consumer t \<longrightarrow> \<not> completing eid (tk_point u)"
  shows "worker_step s R w (stop_worker (tk_consumer t) w) \<and> abandoned i eid (stop_worker (tk_consumer t) w)"
proof -
  have "committed (tk_point u) \<noteq> Some i" if u: "u \<in> set (wk_running w)" "tk_consumer u \<noteq> tk_consumer t" for u
  proof
    assume "committed (tk_point u) = Some i"
    with assms(3) have h: "held (tk_point u) = Some i" "held (tk_point t) = Some i" using committed_held by blast+
    from assms(2) obtain ts us where "wk_running w = ts @ t # us" by (meson split_list)
    with assms(1) h u held_in_ids [of u ts i] held_in_ids [of u us i] show False
      by (auto simp: tasks_own_def)
  qed
  with assms(4,5) show ?thesis
    by (auto simp: abandoned_def stop_worker_def wk_db_def intro: step_crash [of s R w "tk_consumer t", unfolded stop_worker_def])
qed

section \<open>Runs that keep the row\<close>

inductive run_keeping :: "fernet \<Rightarrow> settings \<Rightarrow> 'r redis_client \<Rightarrow> uuid \<Rightarrow> 'r fleet \<Rightarrow> 'r fleet \<Rightarrow> bool" for F s R i w where
  keep_refl: "run_keeping F s R i w w"
| keep_step: "run_keeping F s R i w w' \<Longrightarrow> system_step F s R w' w'' \<Longrightarrow> get_delivery_row i (wk_db w'') \<noteq> None \<Longrightarrow>
    run_keeping F s R i w w''"

lemma run_keeping_reach: "run_keeping F s R i w w' \<Longrightarrow> system_reach F s R w w'"
  by (induction rule: run_keeping.induct) (auto intro: system_reach.intros)

lemma parked_run:
  assumes "run_keeping F s R (dl_id row) w w'" "db_ok (wk_db w)" "parked row w" "parked_status (dl_status row)"
    "\<not> completed_event (dl_event_id row) (wk_db w)"
  shows "parked row w' \<and> \<not> completed_event (dl_event_id row) (wk_db w')"
  using assms
proof (induction rule: run_keeping.induct)
  case (keep_step w' w'')
  from parked_system_step [OF keep_step(2) db_ok_system_reach [OF run_keeping_reach [OF keep_step(1)] keep_step(5)] _ _ keep_step(3)]
    keep_step.IH keep_step.prems show ?case by blast
qed simp

text \<open>
  C14. An attempt is recorded as DELIVERING before the request and its task is gone, by a crash, a stop or an exception;
  its event is not COMPLETED and no task is about to complete it. As long as that row is not deleted, nothing that
  the API, the publisher, the scheduler and any number of workers do, redelivery of the message included, changes the
  row, and the event is never COMPLETED.
\<close>

theorem abandoned_attempt_blocks_completion:
  assumes "run_keeping F s R i w w'" "db_ok (wk_db w)" "abandoned i eid w" "\<not> completed_event eid (wk_db w)"
  shows "abandoned i eid w' \<and> \<not> completed_event eid (wk_db w')"
proof -
  from assms(3) obtain row where row: "parked row w" "dl_id row = i" "dl_event_id row = eid"
    "dl_status row = delivery_status_value DL_DELIVERING" unfolding abandoned_parked by blast
  have "parked_status (dl_status row)" using row(4) by (simp add: parked_status_def)
  with parked_run [OF assms(1) [folded row(2)] assms(2) row(1)] assms(4) row show ?thesis
    unfolding abandoned_parked by blast
qed

text \<open>
  C15. An event that had a retry is never COMPLETED: the scheduler sets the row of a failed attempt to QUEUED when it sends the
  retry, and the retry is a new row. Once the row is QUEUED, while the event is not COMPLETED and no task holds the
  row or is about to complete the event, nothing that the API, the publisher, the scheduler and any number of workers do
  changes the row, as long as it is not deleted, and the event is never COMPLETED, also when the retry succeeds.
\<close>

theorem retried_event_never_completes:
  assumes "run_keeping F s R i w w'" "db_ok (wk_db w)" "get_delivery_row i (wk_db w) = Some row" "dl_status row = ''queued''"
    "\<forall>t \<in> set (wk_running w). committed (tk_point t) \<noteq> Some i \<and> \<not> completing (dl_event_id row) (tk_point t)"
    "\<not> completed_event (dl_event_id row) (wk_db w)"
  shows "get_delivery_row i (wk_db w') = Some row \<and> \<not> completed_event (dl_event_id row) (wk_db w')"
proof -
  have i: "dl_id row = i" using assms(3) by (rule get_row_id)
  then have "parked row w" using assms(3,5) by (simp add: parked_def)
  moreover have "parked_status (dl_status row)" using assms(4) by (simp add: parked_status_def)
  ultimately show ?thesis using parked_run [OF assms(1) [folded i] assms(2)] assms(6) i by (simp add: parked_def)
qed

definition sample_stuck_worker :: "redis fleet" where
  "sample_stuck_worker = with_db (sample_db\<lparr>deliveries := [started_row sample_env sample_event sample_endpoint 1]\<rparr>) sample_worker"

theorem abandoned_attempt_blocks_completion_witness:
  "\<exists>w'. w' = fetch default_settings reference_redis ''c'' sample_stuck_worker \<and>
     run_keeping sample_fernet default_settings reference_redis 40 sample_stuck_worker w' \<and> stuck_row 40 10 (wk_db w') \<and>
     \<not> completed_event 10 (wk_db w')"
proof -
  let ?w = sample_stuck_worker and ?w' = "fetch default_settings reference_redis ''c'' sample_stuck_worker"
  have db: "wk_db ?w' = wk_db ?w" by (simp add: fetch_def wk_db_def split: prod.split sum.split)
  have row: "stuck_row 40 10 (wk_db ?w)"
    by (simp add: stuck_row_def sample_stuck_worker_def get_delivery_row_def tab_get_Cons new_delivery_def sample_env_def
        sample_event_def)
  then have "abandoned 40 10 ?w"
    by (simp add: abandoned_def) (simp add: sample_stuck_worker_def with_db_def sample_worker_def)
  moreover have "run_keeping sample_fernet default_settings reference_redis 40 ?w ?w'"
    by (rule keep_step [OF keep_refl sys_worker [OF step_fetch]])
      (use row db in \<open>auto simp: stuck_row_def sample_stuck_worker_def with_db_def sample_worker_def\<close>)
  moreover have "db_ok (wk_db ?w)"
    by (simp add: sample_stuck_worker_def db_ok_def keys_ok_def refs_ok_def sample_defs new_delivery_def)
  moreover have "\<not> completed_event 10 (wk_db ?w)"
    by (simp add: completed_event_def sample_stuck_worker_def get_event_row_def tab_get_Cons sample_db_def sample_event_def)
  ultimately show ?thesis
    using abandoned_attempt_blocks_completion [of sample_fernet default_settings reference_redis 40 ?w ?w' 10]
    by (simp add: abandoned_def)
qed

definition sample_retried_worker :: "redis fleet" where
  "sample_retried_worker =
     with_db (sample_db\<lparr>deliveries := [requeued (started_row sample_env sample_event sample_endpoint 1)]\<rparr>) sample_worker"

theorem retried_event_never_completes_witness:
  "\<exists>w' row. w' = fetch default_settings reference_redis ''c'' sample_retried_worker \<and>
     run_keeping sample_fernet default_settings reference_redis 40 sample_retried_worker w' \<and>
     get_delivery_row 40 (wk_db w') = Some row \<and> dl_event_id row = 10 \<and> \<not> completed_event 10 (wk_db w')"
proof -
  let ?w = sample_retried_worker and ?w' = "fetch default_settings reference_redis ''c'' sample_retried_worker"
  let ?row = "requeued (started_row sample_env sample_event sample_endpoint 1)"
  have db: "wk_db ?w' = wk_db ?w" by (simp add: fetch_def wk_db_def split: prod.split sum.split)
  have row: "get_delivery_row 40 (wk_db ?w) = Some ?row" "dl_event_id ?row = 10" "dl_status ?row = ''queued''"
    by (simp_all add: sample_retried_worker_def get_delivery_row_def tab_get_Cons new_delivery_def sample_env_def
        sample_event_def)
  have "run_keeping sample_fernet default_settings reference_redis 40 ?w ?w'"
    by (rule keep_step [OF keep_refl sys_worker [OF step_fetch]])
      (use row db in \<open>auto simp: sample_retried_worker_def with_db_def sample_worker_def\<close>)
  moreover have "db_ok (wk_db ?w)"
    by (simp add: sample_retried_worker_def db_ok_def keys_ok_def refs_ok_def sample_defs new_delivery_def)
  moreover have "\<not> completed_event 10 (wk_db ?w)"
    by (simp add: completed_event_def sample_retried_worker_def get_event_row_def tab_get_Cons sample_db_def sample_event_def)
  moreover have "wk_running ?w = []" by (simp add: sample_retried_worker_def with_db_def sample_worker_def)
  ultimately show ?thesis
    using retried_event_never_completes [of sample_fernet default_settings reference_redis 40 ?w ?w' ?row] row by simp
qed

end
