(* ===== verification/Schema.thy ===== *)
theory Schema
  imports Database
begin

text \<open>
  Relational schemas as data, for the migration of \<open>migrations/versions/0001_initial.py\<close> and the metadata of
  \<open>models.py\<close>: columns, tables and indexes, and the DDL operations of a migration interpreted over a schema with
  PostgreSQL's errors.
\<close>

section \<open>Columns, tables, indexes\<close>

text \<open>The column types the sources use; \<open>DateTime tz\<close> is \<open>DateTime(timezone=tz)\<close>.\<close>

datatype column_type = Uuid | String nat | Text | Integer | BigInteger | Jsonb | Boolean | DateTime bool

record column =
  col_name :: string
  col_type :: column_type
  col_nullable :: bool
  col_primary_key :: bool
  col_unique :: bool
  col_foreign_key :: "(string \<times> string) option"
  col_server_default :: "string option"

record table_def =
  tbl_name :: string
  tbl_columns :: "column list"
  tbl_unique :: "(string \<times> string list) list"

record index_def =
  ix_name :: string
  ix_table :: string
  ix_columns :: "string list"

record schema =
  sc_tables :: "table_def list"
  sc_indexes :: "index_def list"

definition empty_schema :: schema where
  "empty_schema = \<lparr>sc_tables = [], sc_indexes = []\<rparr>"

definition find_table :: "string \<Rightarrow> schema \<Rightarrow> table_def option" where
  "find_table t sc = find (\<lambda>x. tbl_name x = t) (sc_tables sc)"

definition find_column :: "string \<Rightarrow> table_def \<Rightarrow> column option" where
  "find_column c t = find (\<lambda>x. col_name x = c) (tbl_columns t)"

definition column_names :: "table_def \<Rightarrow> string list" where
  "column_names t = map col_name (tbl_columns t)"

definition primary_key :: "table_def \<Rightarrow> string list" where
  "primary_key t = map col_name (filter col_primary_key (tbl_columns t))"

text \<open>The foreign keys of a table: the column, the table and the column it refers to.\<close>

fun column_fkeys :: "column list \<Rightarrow> (string \<times> string \<times> string) list" where
  "column_fkeys [] = []"
| "column_fkeys (c # cs) =
     (case col_foreign_key c of None \<Rightarrow> column_fkeys cs | Some (t, x) \<Rightarrow> (col_name c, t, x) # column_fkeys cs)"

definition foreign_keys :: "table_def \<Rightarrow> (string \<times> string \<times> string) list" where
  "foreign_keys t = column_fkeys (tbl_columns t)"

text \<open>Unique constraints: of single columns under PostgreSQL's default name, and the named ones.\<close>

definition unique_keys :: "table_def \<Rightarrow> (string \<times> string list) list" where
  "unique_keys t =
     map (\<lambda>c. (tbl_name t @ ''_'' @ col_name c @ ''_key'', [col_name c])) (filter col_unique (tbl_columns t)) @ tbl_unique t"

text \<open>
  \<open>sa.Column(name, type)\<close> and its options. A column is nullable unless it says otherwise or is part of the
  primary key.
\<close>

definition sa_Column :: "string \<Rightarrow> column_type \<Rightarrow> column" where
  "sa_Column n ty = \<lparr>col_name = n, col_type = ty, col_nullable = True, col_primary_key = False, col_unique = False,
     col_foreign_key = None, col_server_default = None\<rparr>"

definition primary :: "column \<Rightarrow> column" where
  "primary c = c\<lparr>col_primary_key := True, col_nullable := False\<rparr>"

definition not_null :: "column \<Rightarrow> column" where
  "not_null c = c\<lparr>col_nullable := False\<rparr>"

definition unique_col :: "column \<Rightarrow> column" where
  "unique_col c = c\<lparr>col_unique := True\<rparr>"

definition foreign_key :: "string \<Rightarrow> string \<Rightarrow> column \<Rightarrow> column" where
  "foreign_key t x c = c\<lparr>col_foreign_key := Some (t, x)\<rparr>"

definition server_default :: "string \<Rightarrow> column \<Rightarrow> column" where
  "server_default v c = c\<lparr>col_server_default := Some v\<rparr>"

definition index_on :: "string \<Rightarrow> string \<Rightarrow> string list \<Rightarrow> index_def" where
  "index_on n t cs = \<lparr>ix_name = n, ix_table = t, ix_columns = cs\<rparr>"

lemmas column_defs = sa_Column_def primary_def not_null_def unique_col_def foreign_key_def server_default_def index_on_def

section \<open>DDL\<close>

text \<open>
  Tables, indexes and the indexes behind constraints share one name space. A column is a possible target of a
  foreign key if it alone is the primary key or unique.
\<close>

definition table_relations :: "table_def \<Rightarrow> string list" where
  "table_relations t = tbl_name t # (tbl_name t @ ''_pkey'') # map fst (unique_keys t)"

definition relation_names :: "schema \<Rightarrow> string set" where
  "relation_names sc = \<Union> (set ` table_relations ` set (sc_tables sc)) \<union> ix_name ` set (sc_indexes sc)"

definition key_column :: "string \<Rightarrow> table_def \<Rightarrow> bool" where
  "key_column c t \<longleftrightarrow> primary_key t = [c] \<or> [c] \<in> snd ` set (unique_keys t)"

datatype ddl = Create_Table table_def | Create_Index index_def | Drop_Table string

datatype ddl_error =
    Duplicate_Relation string
  | Duplicate_Column string
  | Undefined_Table string
  | Undefined_Column string
  | Invalid_Foreign_Key string
  | Dependent_Objects string

text \<open>The names that an operation introduces explicitly.\<close>

primrec ddl_names :: "ddl \<Rightarrow> string list" where
  "ddl_names (Create_Table t) = tbl_name t # map fst (tbl_unique t)"
| "ddl_names (Create_Index ix) = [ix_name ix]"
| "ddl_names (Drop_Table t) = []"

fun check_fkeys :: "(string \<times> string \<times> string) list \<Rightarrow> schema \<Rightarrow> ddl_error + unit" where
  "check_fkeys [] sc = Inr ()"
| "check_fkeys ((c, t, x) # fks) sc =
     (case find_table t sc of
        None \<Rightarrow> Inl (Undefined_Table t)
      | Some td \<Rightarrow>
          guard (x \<in> set (column_names td)) (Undefined_Column x)
          (guard (key_column x td) (Invalid_Foreign_Key c) (check_fkeys fks sc)))"

definition create_table :: "table_def \<Rightarrow> schema \<Rightarrow> ddl_error + schema" where
  "create_table t sc =
     guard (set (ddl_names (Create_Table t)) \<inter> relation_names sc = {} \<and> distinct (ddl_names (Create_Table t)))
       (Duplicate_Relation (tbl_name t))
     (guard (distinct (column_names t)) (Duplicate_Column (tbl_name t))
     (guard (list_all (\<lambda>(n, cs). set cs \<subseteq> set (column_names t)) (tbl_unique t)) (Undefined_Column (tbl_name t))
     (case check_fkeys (foreign_keys t) sc of
        Inl e \<Rightarrow> Inl e
      | Inr _ \<Rightarrow> Inr (sc\<lparr>sc_tables := sc_tables sc @ [t]\<rparr>))))"

definition create_index :: "index_def \<Rightarrow> schema \<Rightarrow> ddl_error + schema" where
  "create_index ix sc =
     (case find_table (ix_table ix) sc of
        None \<Rightarrow> Inl (Undefined_Table (ix_table ix))
      | Some t \<Rightarrow>
          guard (ix_name ix \<notin> relation_names sc) (Duplicate_Relation (ix_name ix))
          (guard (set (ix_columns ix) \<subseteq> set (column_names t)) (Undefined_Column (ix_name ix))
            (Inr (sc\<lparr>sc_indexes := sc_indexes sc @ [ix]\<rparr>))))"

text \<open>DROP TABLE without CASCADE: refused while another table refers to it; its indexes go with it.\<close>

definition refers_to :: "table_def \<Rightarrow> string \<Rightarrow> bool" where
  "refers_to td t \<longleftrightarrow> t \<in> (fst \<circ> snd) ` set (foreign_keys td)"

definition drop_table :: "string \<Rightarrow> schema \<Rightarrow> ddl_error + schema" where
  "drop_table t sc =
     guard (find_table t sc \<noteq> None) (Undefined_Table t)
     (guard (list_all (\<lambda>td. tbl_name td \<noteq> t \<longrightarrow> \<not> refers_to td t) (sc_tables sc)) (Dependent_Objects t)
       (Inr (sc\<lparr>sc_tables := filter (\<lambda>td. tbl_name td \<noteq> t) (sc_tables sc),
                sc_indexes := filter (\<lambda>ix. ix_table ix \<noteq> t) (sc_indexes sc)\<rparr>)))"

primrec exec_ddl :: "ddl \<Rightarrow> schema \<Rightarrow> ddl_error + schema" where
  "exec_ddl (Create_Table t) sc = create_table t sc"
| "exec_ddl (Create_Index ix) sc = create_index ix sc"
| "exec_ddl (Drop_Table t) sc = drop_table t sc"

primrec run_ddl :: "ddl list \<Rightarrow> schema \<Rightarrow> ddl_error + schema" where
  "run_ddl [] sc = Inr sc"
| "run_ddl (op # ops) sc = (case exec_ddl op sc of Inl e \<Rightarrow> Inl e | Inr sc' \<Rightarrow> run_ddl ops sc')"

section \<open>Schemas side by side\<close>

definition schema_app :: "schema \<Rightarrow> schema \<Rightarrow> schema" where
  "schema_app sc sc' = \<lparr>sc_tables = sc_tables sc @ sc_tables sc', sc_indexes = sc_indexes sc @ sc_indexes sc'\<rparr>"

text \<open>A schema whose foreign keys and indexes stay within it, as every schema that DDL produced.\<close>

definition schema_wf :: "schema \<Rightarrow> bool" where
  "schema_wf sc \<longleftrightarrow>
     list_all (\<lambda>td. (fst \<circ> snd) ` set (foreign_keys td) \<subseteq> tbl_name ` set (sc_tables sc)) (sc_tables sc) \<and>
     ix_table ` set (sc_indexes sc) \<subseteq> tbl_name ` set (sc_tables sc)"

lemma schema_app_empty [simp]: "schema_app sc empty_schema = sc"
  by (simp add: schema_app_def empty_schema_def)

lemma schema_app_simps [simp]:
  "sc_tables (schema_app sc sc') = sc_tables sc @ sc_tables sc'"
  "sc_indexes (schema_app sc sc') = sc_indexes sc @ sc_indexes sc'"
  "schema_app sc sc'\<lparr>sc_tables := sc_tables sc @ sc_tables sc' @ [t]\<rparr> = schema_app sc (sc'\<lparr>sc_tables := sc_tables sc' @ [t]\<rparr>)"
  "schema_app sc sc'\<lparr>sc_indexes := sc_indexes sc @ sc_indexes sc' @ [ix]\<rparr> =
     schema_app sc (sc'\<lparr>sc_indexes := sc_indexes sc' @ [ix]\<rparr>)"
  "schema_app sc sc'\<lparr>sc_tables := sc_tables sc @ ts, sc_indexes := sc_indexes sc @ ixs\<rparr> =
     schema_app sc (sc'\<lparr>sc_tables := ts, sc_indexes := ixs\<rparr>)"
  by (simp_all add: schema_app_def)

lemma relation_names_app [simp]: "relation_names (schema_app sc sc') = relation_names sc \<union> relation_names sc'"
  by (auto simp: relation_names_def schema_app_def)

lemma table_name_is_relation: "td \<in> set (sc_tables sc) \<Longrightarrow> tbl_name td \<in> relation_names sc"
  by (auto simp: relation_names_def table_relations_def)

lemma find_table_app:
  "t \<notin> tbl_name ` set (sc_tables sc) \<Longrightarrow> find_table t (schema_app sc sc') = find_table t sc'"
proof -
  have "find P (xs @ ys) = find P ys" if "\<forall>x \<in> set xs. \<not> P x" for P and xs ys :: "table_def list"
    using that by (induction xs) auto
  note skip = this
  assume "t \<notin> tbl_name ` set (sc_tables sc)"
  then have "\<forall>x \<in> set (sc_tables sc). tbl_name x \<noteq> t" by auto
  from skip [OF this] show ?thesis by (simp add: find_table_def)
qed

lemma find_table_name: "find_table t sc = Some td \<Longrightarrow> t \<in> tbl_name ` set (sc_tables sc)"
  by (auto simp: find_table_def find_Some_iff)

definition creates :: "ddl \<Rightarrow> bool" where
  "creates op \<longleftrightarrow> (case op of Drop_Table _ \<Rightarrow> False | _ \<Rightarrow> True)"

definition run_names :: "ddl list \<Rightarrow> string set" where
  "run_names ops = set (concat (map ddl_names ops))"

text \<open>The tables of \<open>sc0\<close> carry no name of \<open>sc\<close>.\<close>

definition apart :: "schema \<Rightarrow> schema \<Rightarrow> bool" where
  "apart sc sc0 \<longleftrightarrow> tbl_name ` set (sc_tables sc0) \<inter> relation_names sc = {}"

lemma apart_simps [simp]:
  "apart sc (sc0\<lparr>sc_tables := ts @ [t]\<rparr>) \<longleftrightarrow> apart sc (sc0\<lparr>sc_tables := ts\<rparr>) \<and> tbl_name t \<notin> relation_names sc"
  "apart sc (sc0\<lparr>sc_indexes := ixs\<rparr>) \<longleftrightarrow> apart sc sc0"
  by (auto simp: apart_def)

lemma apart_filter: "apart sc sc0 \<Longrightarrow> apart sc (sc0\<lparr>sc_tables := filter P (sc_tables sc0), sc_indexes := ixs\<rparr>)"
  by (auto simp: apart_def)

lemma find_table_apart:
  assumes "find_table t sc0 = Some td" "apart sc sc0"
  shows "find_table t (schema_app sc sc0) = Some td"
proof -
  have "t \<notin> tbl_name ` set (sc_tables sc)"
    using find_table_name [OF assms(1)] assms(2) table_name_is_relation unfolding apart_def by blast
  then show ?thesis using assms(1) by (simp add: find_table_app)
qed

lemma check_fkeys_app:
  "check_fkeys fks sc0 = Inr u \<Longrightarrow> apart sc sc0 \<Longrightarrow> check_fkeys fks (schema_app sc sc0) = Inr u"
  by (induction fks sc0 rule: check_fkeys.induct) (auto split: option.splits simp: find_table_apart)

lemma create_table_app:
  assumes "create_table t sc0 = Inr sc1" "apart sc sc0" "set (ddl_names (Create_Table t)) \<inter> relation_names sc = {}"
  shows "create_table t (schema_app sc sc0) = Inr (schema_app sc sc1) \<and> apart sc sc1"
proof -
  from assms(1) obtain u where u: "check_fkeys (foreign_keys t) sc0 = Inr u"
    by (auto simp: create_table_def split: sum.splits)
  with check_fkeys_app [OF u assms(2)] assms show ?thesis
    by (auto simp: create_table_def Int_Un_distrib)
qed

lemma create_index_app:
  assumes "create_index ix sc0 = Inr sc1" "apart sc sc0" "ix_name ix \<notin> relation_names sc"
  shows "create_index ix (schema_app sc sc0) = Inr (schema_app sc sc1) \<and> apart sc sc1"
proof -
  from assms(1) obtain td where td: "find_table (ix_table ix) sc0 = Some td"
    by (auto simp: create_index_def split: option.splits)
  with find_table_apart [OF td assms(2)] assms show ?thesis
    by (auto simp: create_index_def)
qed

lemma run_creates_app:
  assumes "run_ddl ops sc0 = Inr sc1" "list_all creates ops" "run_names ops \<inter> relation_names sc = {}" "apart sc sc0"
  shows "run_ddl ops (schema_app sc sc0) = Inr (schema_app sc sc1) \<and> apart sc sc1"
  using assms
proof (induction ops arbitrary: sc0)
  case (Cons op ops)
  from Cons.prems(1) obtain sc' where op: "exec_ddl op sc0 = Inr sc'" and ops: "run_ddl ops sc' = Inr sc1"
    by (auto split: sum.splits)
  from Cons.prems(3) have names: "set (ddl_names op) \<inter> relation_names sc = {}" "run_names ops \<inter> relation_names sc = {}"
    by (auto simp: run_names_def)
  have "exec_ddl op (schema_app sc sc0) = Inr (schema_app sc sc') \<and> apart sc sc'"
    using op Cons.prems(2,4) names(1) create_table_app [of _ sc0 sc' sc] create_index_app [of _ sc0 sc' sc]
    by (cases op) (auto simp: creates_def)
  with Cons.IH [OF ops] Cons.prems(2) names(2) show ?case by simp
qed simp

lemma exec_creates_names:
  assumes "exec_ddl op sc = Inr sc'" "creates op"
  shows "set (ddl_names op) \<inter> relation_names sc = {}" "relation_names sc \<subseteq> relation_names sc'"
  using assms
  by (cases op; force simp: creates_def create_table_def create_index_def relation_names_def split: option.splits sum.splits)+

lemma run_creates_fresh:
  "run_ddl ops sc = Inr sc' \<Longrightarrow> list_all creates ops \<Longrightarrow> run_names ops \<inter> relation_names sc = {}"
proof (induction ops arbitrary: sc)
  case (Cons op ops)
  from Cons.prems(1) obtain sc1 where op: "exec_ddl op sc = Inr sc1" and ops: "run_ddl ops sc1 = Inr sc'"
    by (auto split: sum.splits)
  from Cons.IH [OF ops] exec_creates_names [OF op] Cons.prems(2) show ?case by (fastforce simp: run_names_def)
qed (simp add: run_names_def)

lemma drop_table_app:
  assumes "drop_table t sc0 = Inr sc1" "apart sc sc0" "schema_wf sc"
  shows "drop_table t (schema_app sc sc0) = Inr (schema_app sc sc1) \<and> apart sc sc1"
proof -
  from assms(1) obtain td where td: "find_table t sc0 = Some td" by (auto simp: drop_table_def)
  with assms(2) have t: "t \<notin> tbl_name ` set (sc_tables sc)"
    using find_table_name [OF td] table_name_is_relation unfolding apart_def by blast
  have keep: "filter (\<lambda>td. tbl_name td \<noteq> t) (sc_tables sc) = sc_tables sc"
    "filter (\<lambda>ix. ix_table ix \<noteq> t) (sc_indexes sc) = sc_indexes sc"
    using t assms(3) by (auto simp: filter_id_conv schema_wf_def)
  have "\<not> refers_to x t" if "x \<in> set (sc_tables sc)" for x
    using that t assms(3) by (auto simp: schema_wf_def list_all_iff refers_to_def)
  with assms(1,2) find_table_apart [OF td assms(2)] keep show ?thesis
    by (auto simp: drop_table_def list_all_iff intro!: apart_filter)
qed

lemma run_drops_app:
  assumes "run_ddl (map Drop_Table ts) sc0 = Inr sc1" "apart sc sc0" "schema_wf sc"
  shows "run_ddl (map Drop_Table ts) (schema_app sc sc0) = Inr (schema_app sc sc1)"
  using assms
proof (induction ts arbitrary: sc0)
  case (Cons t ts)
  then obtain sc' where "drop_table t sc0 = Inr sc'" "run_ddl (map Drop_Table ts) sc' = Inr sc1"
    by (auto split: sum.splits)
  with Cons drop_table_app [of t sc0 sc' sc] show ?case by simp
qed simp

end
