(* ===== verification/Migration.thy ===== *)
theory Migration
  imports Schema
begin

text \<open>
  The initial migration \<open>migrations/versions/0001_initial.py\<close> and the metadata of \<open>models.py\<close> as schemas: the
  migration creates the tables on any database that has none of their names and its downgrade takes exactly them
  away, and the migrated schema against the ORM's.
\<close>

section \<open>The migration\<close>

definition mig_tenants :: table_def where
  "mig_tenants = \<lparr>tbl_name = ''tenants'', tbl_columns =
     [primary (sa_Column ''id'' Uuid),
      not_null (sa_Column ''name'' (String 255)),
      not_null (sa_Column ''plan'' (String 50)),
      not_null (sa_Column ''status'' (String 30)),
      not_null (server_default ''now()'' (sa_Column ''created_at'' (DateTime True))),
      not_null (server_default ''now()'' (sa_Column ''updated_at'' (DateTime True)))],
     tbl_unique = []\<rparr>"

definition mig_api_keys :: table_def where
  "mig_api_keys = \<lparr>tbl_name = ''api_keys'', tbl_columns =
     [primary (sa_Column ''id'' Uuid),
      not_null (foreign_key ''tenants'' ''id'' (sa_Column ''tenant_id'' Uuid)),
      not_null (sa_Column ''key_prefix'' (String 32)),
      not_null (unique_col (sa_Column ''key_hash'' (String 128))),
      not_null (sa_Column ''name'' (String 255)),
      not_null (sa_Column ''role'' (String 30)),
      sa_Column ''last_used_at'' (DateTime True),
      not_null (server_default ''now()'' (sa_Column ''created_at'' (DateTime True))),
      sa_Column ''revoked_at'' (DateTime True)],
     tbl_unique = []\<rparr>"

definition mig_endpoints :: table_def where
  "mig_endpoints = \<lparr>tbl_name = ''endpoints'', tbl_columns =
     [primary (sa_Column ''id'' Uuid),
      not_null (foreign_key ''tenants'' ''id'' (sa_Column ''tenant_id'' Uuid)),
      not_null (sa_Column ''url'' Text),
      sa_Column ''description'' Text,
      not_null (sa_Column ''secret_encrypted'' Text),
      not_null (sa_Column ''status'' (String 30)),
      not_null (sa_Column ''timeout_ms'' Integer),
      not_null (sa_Column ''max_retries'' Integer),
      not_null (sa_Column ''circuit_state'' (String 20)),
      not_null (server_default ''now()'' (sa_Column ''created_at'' (DateTime True))),
      not_null (server_default ''now()'' (sa_Column ''updated_at'' (DateTime True)))],
     tbl_unique = []\<rparr>"

definition mig_endpoint_subscriptions :: table_def where
  "mig_endpoint_subscriptions = \<lparr>tbl_name = ''endpoint_subscriptions'', tbl_columns =
     [primary (foreign_key ''endpoints'' ''id'' (sa_Column ''endpoint_id'' Uuid)),
      primary (sa_Column ''event_type'' (String 255))],
     tbl_unique = []\<rparr>"

definition mig_events :: table_def where
  "mig_events = \<lparr>tbl_name = ''events'', tbl_columns =
     [primary (sa_Column ''id'' Uuid),
      not_null (foreign_key ''tenants'' ''id'' (sa_Column ''tenant_id'' Uuid)),
      not_null (sa_Column ''event_type'' (String 255)),
      sa_Column ''source'' (String 255),
      sa_Column ''entity_id'' (String 255),
      sa_Column ''sequence_number'' BigInteger,
      not_null (sa_Column ''payload'' Jsonb),
      not_null (sa_Column ''status'' (String 50)),
      not_null (server_default ''now()'' (sa_Column ''created_at'' (DateTime True))),
      not_null (server_default ''now()'' (sa_Column ''updated_at'' (DateTime True)))],
     tbl_unique = []\<rparr>"

definition mig_deliveries :: table_def where
  "mig_deliveries = \<lparr>tbl_name = ''deliveries'', tbl_columns =
     [primary (sa_Column ''id'' Uuid),
      not_null (foreign_key ''events'' ''id'' (sa_Column ''event_id'' Uuid)),
      not_null (foreign_key ''endpoints'' ''id'' (sa_Column ''endpoint_id'' Uuid)),
      not_null (sa_Column ''attempt_number'' Integer),
      not_null (sa_Column ''status'' (String 50)),
      sa_Column ''http_status'' Integer,
      sa_Column ''latency_ms'' Integer,
      sa_Column ''error_code'' (String 100),
      sa_Column ''error_message'' Text,
      sa_Column ''started_at'' (DateTime True),
      sa_Column ''completed_at'' (DateTime True),
      sa_Column ''next_retry_at'' (DateTime True),
      not_null (server_default ''false'' (sa_Column ''is_replay'' Boolean)),
      not_null (server_default ''now()'' (sa_Column ''created_at'' (DateTime True)))],
     tbl_unique = []\<rparr>"

definition mig_idempotency_keys :: table_def where
  "mig_idempotency_keys = \<lparr>tbl_name = ''idempotency_keys'', tbl_columns =
     [primary (sa_Column ''id'' Uuid),
      not_null (foreign_key ''tenants'' ''id'' (sa_Column ''tenant_id'' Uuid)),
      not_null (sa_Column ''key'' (String 255)),
      not_null (foreign_key ''events'' ''id'' (sa_Column ''event_id'' Uuid)),
      not_null (server_default ''now()'' (sa_Column ''created_at'' (DateTime True))),
      not_null (sa_Column ''expires_at'' (DateTime True))],
     tbl_unique = [(''uq_idempotency_tenant_key'', [''tenant_id'', ''key''])]\<rparr>"

definition mig_outbox_events :: table_def where
  "mig_outbox_events = \<lparr>tbl_name = ''outbox_events'', tbl_columns =
     [primary (sa_Column ''id'' Uuid),
      not_null (sa_Column ''aggregate_type'' (String 100)),
      not_null (sa_Column ''aggregate_id'' Uuid),
      not_null (foreign_key ''events'' ''id'' (sa_Column ''event_id'' Uuid)),
      not_null (sa_Column ''payload'' Jsonb),
      not_null (sa_Column ''status'' (String 30)),
      not_null (sa_Column ''attempts'' Integer),
      not_null (server_default ''now()'' (sa_Column ''created_at'' (DateTime True))),
      sa_Column ''published_at'' (DateTime True)],
     tbl_unique = []\<rparr>"

definition upgrade :: "ddl list" where
  "upgrade =
     [Create_Table mig_tenants,
      Create_Table mig_api_keys,
      Create_Index (index_on ''ix_api_keys_tenant_id'' ''api_keys'' [''tenant_id'']),
      Create_Index (index_on ''ix_api_keys_key_prefix'' ''api_keys'' [''key_prefix'']),
      Create_Table mig_endpoints,
      Create_Index (index_on ''ix_endpoints_tenant_id'' ''endpoints'' [''tenant_id'']),
      Create_Index (index_on ''ix_endpoints_tenant_status'' ''endpoints'' [''tenant_id'', ''status'']),
      Create_Table mig_endpoint_subscriptions,
      Create_Table mig_events,
      Create_Index (index_on ''ix_events_tenant_id'' ''events'' [''tenant_id'']),
      Create_Index (index_on ''ix_events_tenant_created'' ''events'' [''tenant_id'', ''created_at'']),
      Create_Index (index_on ''ix_events_tenant_type'' ''events'' [''tenant_id'', ''event_type'']),
      Create_Index (index_on ''ix_events_entity_seq'' ''events'' [''entity_id'', ''sequence_number'']),
      Create_Index (index_on ''ix_events_status'' ''events'' [''status'']),
      Create_Table mig_deliveries,
      Create_Index (index_on ''ix_deliveries_event_id'' ''deliveries'' [''event_id'']),
      Create_Index (index_on ''ix_deliveries_endpoint_id'' ''deliveries'' [''endpoint_id'']),
      Create_Index (index_on ''ix_deliveries_status'' ''deliveries'' [''status'']),
      Create_Index (index_on ''ix_deliveries_next_retry_at'' ''deliveries'' [''next_retry_at'']),
      Create_Table mig_idempotency_keys,
      Create_Table mig_outbox_events,
      Create_Index (index_on ''ix_outbox_status_created'' ''outbox_events'' [''status'', ''created_at''])]"

definition downgrade :: "ddl list" where
  "downgrade =
     [Drop_Table ''outbox_events'',
      Drop_Table ''idempotency_keys'',
      Drop_Table ''deliveries'',
      Drop_Table ''events'',
      Drop_Table ''endpoint_subscriptions'',
      Drop_Table ''endpoints'',
      Drop_Table ''api_keys'',
      Drop_Table ''tenants'']"

text \<open>
  \<open>do_run_migrations\<close> of \<open>migrations/env.py\<close>: the migrations run inside \<open>begin_transaction\<close>. That a transaction whose
  body raises leaves the schema as it was is PostgreSQL's transactional DDL, written out here; what
  \<open>context.run_migrations\<close> executes is an argument. Alembic's bookkeeping in its table \<open>alembic_version\<close> is not
  modelled.
\<close>

definition do_run_migrations :: "(schema \<Rightarrow> ddl_error + schema) \<Rightarrow> schema \<Rightarrow> (ddl_error + unit) \<times> schema" where
  "do_run_migrations run sc = (case run sc of Inl e \<Rightarrow> (Inl e, sc) | Inr sc' \<Rightarrow> (Inr (), sc'))"

section \<open>The models\<close>

text \<open>
  A mapped class: its columns, with the flag \<open>index\<close>, and \<open>__table_args__\<close>. A column declared without a type gets
  the one of its annotation; \<open>datetime\<close> stands for \<open>DateTime()\<close>, which has no time zone.
\<close>

datatype annotation = Py_uuid | Py_datetime | Py_bool

primrec sqltype_of :: "annotation \<Rightarrow> column_type" where
  "sqltype_of Py_uuid = Uuid"
| "sqltype_of Py_datetime = DateTime False"
| "sqltype_of Py_bool = Boolean"

record orm_model =
  orm_tablename :: string
  orm_columns :: "(column \<times> bool) list"
  orm_unique :: "(string \<times> string list) list"
  orm_indexes :: "(string \<times> string list) list"

definition mapped :: "column \<Rightarrow> column \<times> bool" where
  "mapped c = (c, False)"

definition indexed :: "column \<Rightarrow> column \<times> bool" where
  "indexed c = (c, True)"

definition orm_Tenant :: orm_model where
  "orm_Tenant = \<lparr>orm_tablename = ''tenants'', orm_columns =
     [mapped (primary (sa_Column ''id'' Uuid)),
      mapped (not_null (sa_Column ''name'' (String 255))),
      mapped (not_null (sa_Column ''plan'' (String 50))),
      mapped (not_null (sa_Column ''status'' (String 30))),
      mapped (not_null (server_default ''now()'' (sa_Column ''created_at'' (sqltype_of Py_datetime)))),
      mapped (not_null (server_default ''now()'' (sa_Column ''updated_at'' (sqltype_of Py_datetime))))],
     orm_unique = [],
     orm_indexes = []\<rparr>"

definition orm_ApiKey :: orm_model where
  "orm_ApiKey = \<lparr>orm_tablename = ''api_keys'', orm_columns =
     [mapped (primary (sa_Column ''id'' Uuid)),
      indexed (not_null (foreign_key ''tenants'' ''id'' (sa_Column ''tenant_id'' (sqltype_of Py_uuid)))),
      indexed (not_null (sa_Column ''key_prefix'' (String 32))),
      mapped (not_null (unique_col (sa_Column ''key_hash'' (String 128)))),
      mapped (not_null (sa_Column ''name'' (String 255))),
      mapped (not_null (sa_Column ''role'' (String 30))),
      mapped (sa_Column ''last_used_at'' (sqltype_of Py_datetime)),
      mapped (not_null (server_default ''now()'' (sa_Column ''created_at'' (sqltype_of Py_datetime)))),
      mapped (sa_Column ''revoked_at'' (sqltype_of Py_datetime))],
     orm_unique = [],
     orm_indexes = []\<rparr>"

definition orm_Endpoint :: orm_model where
  "orm_Endpoint = \<lparr>orm_tablename = ''endpoints'', orm_columns =
     [mapped (primary (sa_Column ''id'' Uuid)),
      indexed (not_null (foreign_key ''tenants'' ''id'' (sa_Column ''tenant_id'' (sqltype_of Py_uuid)))),
      mapped (not_null (sa_Column ''url'' Text)),
      mapped (sa_Column ''description'' Text),
      mapped (not_null (sa_Column ''secret_encrypted'' Text)),
      mapped (not_null (sa_Column ''status'' (String 30))),
      mapped (not_null (sa_Column ''timeout_ms'' Integer)),
      mapped (not_null (sa_Column ''max_retries'' Integer)),
      mapped (not_null (sa_Column ''circuit_state'' (String 20))),
      mapped (not_null (server_default ''now()'' (sa_Column ''created_at'' (sqltype_of Py_datetime)))),
      mapped (not_null (server_default ''now()'' (sa_Column ''updated_at'' (sqltype_of Py_datetime))))],
     orm_unique = [],
     orm_indexes = [(''ix_endpoints_tenant_status'', [''tenant_id'', ''status''])]\<rparr>"

definition orm_EndpointSubscription :: orm_model where
  "orm_EndpointSubscription = \<lparr>orm_tablename = ''endpoint_subscriptions'', orm_columns =
     [mapped (primary (foreign_key ''endpoints'' ''id'' (sa_Column ''endpoint_id'' (sqltype_of Py_uuid)))),
      mapped (primary (sa_Column ''event_type'' (String 255)))],
     orm_unique = [],
     orm_indexes = []\<rparr>"

definition orm_Event :: orm_model where
  "orm_Event = \<lparr>orm_tablename = ''events'', orm_columns =
     [mapped (primary (sa_Column ''id'' Uuid)),
      mapped (not_null (foreign_key ''tenants'' ''id'' (sa_Column ''tenant_id'' (sqltype_of Py_uuid)))),
      mapped (not_null (sa_Column ''event_type'' (String 255))),
      mapped (sa_Column ''source'' (String 255)),
      mapped (sa_Column ''entity_id'' (String 255)),
      mapped (sa_Column ''sequence_number'' BigInteger),
      mapped (not_null (sa_Column ''payload'' Jsonb)),
      mapped (not_null (sa_Column ''status'' (String 50))),
      mapped (not_null (server_default ''now()'' (sa_Column ''created_at'' (sqltype_of Py_datetime)))),
      mapped (not_null (server_default ''now()'' (sa_Column ''updated_at'' (sqltype_of Py_datetime))))],
     orm_unique = [],
     orm_indexes = [(''ix_events_tenant_id'', [''tenant_id'']),
       (''ix_events_tenant_created'', [''tenant_id'', ''created_at'']),
       (''ix_events_tenant_type'', [''tenant_id'', ''event_type'']),
       (''ix_events_entity_seq'', [''entity_id'', ''sequence_number'']),
       (''ix_events_status'', [''status''])]\<rparr>"

definition orm_Delivery :: orm_model where
  "orm_Delivery = \<lparr>orm_tablename = ''deliveries'', orm_columns =
     [mapped (primary (sa_Column ''id'' Uuid)),
      mapped (not_null (foreign_key ''events'' ''id'' (sa_Column ''event_id'' (sqltype_of Py_uuid)))),
      mapped (not_null (foreign_key ''endpoints'' ''id'' (sa_Column ''endpoint_id'' (sqltype_of Py_uuid)))),
      mapped (not_null (sa_Column ''attempt_number'' Integer)),
      mapped (not_null (sa_Column ''status'' (String 50))),
      mapped (sa_Column ''http_status'' Integer),
      mapped (sa_Column ''latency_ms'' Integer),
      mapped (sa_Column ''error_code'' (String 100)),
      mapped (sa_Column ''error_message'' Text),
      mapped (sa_Column ''started_at'' (sqltype_of Py_datetime)),
      mapped (sa_Column ''completed_at'' (sqltype_of Py_datetime)),
      mapped (sa_Column ''next_retry_at'' (sqltype_of Py_datetime)),
      mapped (not_null (sa_Column ''is_replay'' (sqltype_of Py_bool))),
      mapped (not_null (server_default ''now()'' (sa_Column ''created_at'' (sqltype_of Py_datetime))))],
     orm_unique = [],
     orm_indexes = [(''ix_deliveries_event_id'', [''event_id'']),
       (''ix_deliveries_endpoint_id'', [''endpoint_id'']),
       (''ix_deliveries_status'', [''status'']),
       (''ix_deliveries_next_retry_at'', [''next_retry_at''])]\<rparr>"

definition orm_IdempotencyKey :: orm_model where
  "orm_IdempotencyKey = \<lparr>orm_tablename = ''idempotency_keys'', orm_columns =
     [mapped (primary (sa_Column ''id'' Uuid)),
      mapped (not_null (foreign_key ''tenants'' ''id'' (sa_Column ''tenant_id'' (sqltype_of Py_uuid)))),
      mapped (not_null (sa_Column ''key'' (String 255))),
      mapped (not_null (foreign_key ''events'' ''id'' (sa_Column ''event_id'' (sqltype_of Py_uuid)))),
      mapped (not_null (server_default ''now()'' (sa_Column ''created_at'' (sqltype_of Py_datetime)))),
      mapped (not_null (sa_Column ''expires_at'' (sqltype_of Py_datetime)))],
     orm_unique = [(''uq_idempotency_tenant_key'', [''tenant_id'', ''key''])],
     orm_indexes = []\<rparr>"

definition orm_OutboxEvent :: orm_model where
  "orm_OutboxEvent = \<lparr>orm_tablename = ''outbox_events'', orm_columns =
     [mapped (primary (sa_Column ''id'' Uuid)),
      mapped (not_null (sa_Column ''aggregate_type'' (String 100))),
      mapped (not_null (sa_Column ''aggregate_id'' (sqltype_of Py_uuid))),
      mapped (not_null (foreign_key ''events'' ''id'' (sa_Column ''event_id'' (sqltype_of Py_uuid)))),
      mapped (not_null (sa_Column ''payload'' Jsonb)),
      mapped (not_null (sa_Column ''status'' (String 30))),
      mapped (not_null (sa_Column ''attempts'' Integer)),
      mapped (not_null (server_default ''now()'' (sa_Column ''created_at'' (sqltype_of Py_datetime)))),
      mapped (sa_Column ''published_at'' (sqltype_of Py_datetime))],
     orm_unique = [],
     orm_indexes = [(''ix_outbox_status_created'', [''status'', ''created_at''])]\<rparr>"

definition orm_models :: "orm_model list" where
  "orm_models = [orm_Tenant, orm_ApiKey, orm_Endpoint, orm_EndpointSubscription, orm_Event, orm_Delivery,
     orm_IdempotencyKey, orm_OutboxEvent]"

text \<open>\<open>Base.metadata\<close>; an indexed column has an index \<open>ix_<table>_<column>\<close>.\<close>

definition orm_table :: "orm_model \<Rightarrow> table_def" where
  "orm_table m = \<lparr>tbl_name = orm_tablename m, tbl_columns = map fst (orm_columns m), tbl_unique = orm_unique m\<rparr>"

definition orm_table_indexes :: "orm_model \<Rightarrow> index_def list" where
  "orm_table_indexes m =
     map (\<lambda>(c, _). index_on (''ix_'' @ orm_tablename m @ ''_'' @ col_name c) (orm_tablename m) [col_name c])
       (filter snd (orm_columns m)) @
     map (\<lambda>(n, cs). index_on n (orm_tablename m) cs) (orm_indexes m)"

definition metadata :: schema where
  "metadata = \<lparr>sc_tables = map orm_table orm_models, sc_indexes = concat (map orm_table_indexes orm_models)\<rparr>"

section \<open>Up and down\<close>

lemmas mig_defs = mig_tenants_def mig_api_keys_def mig_endpoints_def mig_endpoint_subscriptions_def mig_events_def
  mig_deliveries_def mig_idempotency_keys_def mig_outbox_events_def

lemmas orm_defs = orm_Tenant_def orm_ApiKey_def orm_Endpoint_def orm_EndpointSubscription_def orm_Event_def
  orm_Delivery_def orm_IdempotencyKey_def orm_OutboxEvent_def

text \<open>The schema the migration is meant to produce.\<close>

definition migrated_schema :: schema where
  "migrated_schema = \<lparr>sc_tables = [mig_tenants, mig_api_keys, mig_endpoints, mig_endpoint_subscriptions, mig_events,
       mig_deliveries, mig_idempotency_keys, mig_outbox_events],
     sc_indexes = [ix. Create_Index ix \<leftarrow> upgrade]\<rparr>"

lemma upgrade_empty: "run_ddl upgrade empty_schema = Inr migrated_schema"
  by code_simp

lemma downgrade_migrated: "run_ddl downgrade migrated_schema = Inr empty_schema"
  by code_simp

lemma upgrade_creates: "list_all creates upgrade"
  by (simp add: upgrade_def creates_def)

lemma migrated_apart: "run_names upgrade \<inter> relation_names sc = {} \<Longrightarrow> apart sc migrated_schema"
proof -
  have "tbl_name ` set (sc_tables migrated_schema) \<subseteq> run_names upgrade"
    by code_simp
  then show "apart sc migrated_schema" if "run_names upgrade \<inter> relation_names sc = {}"
    using that by (auto simp: apart_def)
qed

lemma upgrade_beside:
  assumes "run_names upgrade \<inter> relation_names sc = {}"
  shows "run_ddl upgrade sc = Inr (schema_app sc migrated_schema)"
proof -
  have "apart sc empty_schema" by (simp add: apart_def empty_schema_def)
  from run_creates_app [OF upgrade_empty upgrade_creates assms this] show ?thesis by simp
qed

lemma downgrade_beside:
  assumes "run_names upgrade \<inter> relation_names sc = {}" "schema_wf sc"
  shows "run_ddl downgrade (schema_app sc migrated_schema) = Inr sc"
proof -
  have ts: "downgrade = map Drop_Table [''outbox_events'', ''idempotency_keys'', ''deliveries'', ''events'',
      ''endpoint_subscriptions'', ''endpoints'', ''api_keys'', ''tenants'']"
    by (simp add: downgrade_def)
  from run_drops_app [OF downgrade_migrated [unfolded ts] migrated_apart [OF assms(1)] assms(2)] show ?thesis
    by (simp add: ts)
qed

lemma upgrade_taken:
  assumes "run_names upgrade \<inter> relation_names sc \<noteq> {}"
  shows "\<exists>e. run_ddl upgrade sc = Inl e"
  using run_creates_fresh [OF _ upgrade_creates, of sc] assms by (cases "run_ddl upgrade sc") auto

text \<open>
  C25. The initial migration is reversible and all-or-nothing: on a database that uses none of its names it creates
  its eight tables and their indexes beside what is there, and its downgrade then restores the schema exactly; on
  any other database it fails and the schema is as before.
\<close>

theorem migration_round_trip:
  assumes "schema_wf sc"
  shows "if run_names upgrade \<inter> relation_names sc = {}
    then do_run_migrations (run_ddl upgrade) sc = (Inr (), schema_app sc migrated_schema) \<and>
         do_run_migrations (run_ddl downgrade) (schema_app sc migrated_schema) = (Inr (), sc)
    else \<exists>e. do_run_migrations (run_ddl upgrade) sc = (Inl e, sc)"
proof (cases "run_names upgrade \<inter> relation_names sc = {}")
  case True
  with upgrade_beside downgrade_beside [OF _ assms] show ?thesis by (simp add: do_run_migrations_def)
next
  case False
  with upgrade_taken [OF False] show ?thesis by (auto simp: do_run_migrations_def)
qed

text \<open>A database that holds Alembic's own table only.\<close>

definition alembic_schema :: schema where
  "alembic_schema = \<lparr>sc_tables = [\<lparr>tbl_name = ''alembic_version'',
     tbl_columns = [primary (sa_Column ''version_num'' (String 32))], tbl_unique = []\<rparr>], sc_indexes = []\<rparr>"

theorem migration_round_trip_witness:
  "do_run_migrations (run_ddl upgrade) alembic_schema = (Inr (), schema_app alembic_schema migrated_schema) \<and>
   do_run_migrations (run_ddl downgrade) (schema_app alembic_schema migrated_schema) = (Inr (), alembic_schema)"
proof -
  have "schema_wf alembic_schema" by code_simp
  moreover have "run_names upgrade \<inter> relation_names alembic_schema = {}" by code_simp
  ultimately show ?thesis using migration_round_trip [of alembic_schema] by simp
qed

section \<open>The migrated schema and the metadata\<close>

text \<open>
  How the migration differs from a column of the models: time stamps carry a time zone, and \<open>is_replay\<close> has a
  default of the server.
\<close>

definition drifted :: "string \<Rightarrow> column \<Rightarrow> column" where
  "drifted t c =
     (let c' = (case col_type c of DateTime _ \<Rightarrow> c\<lparr>col_type := DateTime True\<rparr> | _ \<Rightarrow> c) in
      if t = ''deliveries'' \<and> col_name c = ''is_replay'' then server_default ''false'' c' else c')"

definition drifted_table :: "table_def \<Rightarrow> table_def" where
  "drifted_table t = t\<lparr>tbl_columns := map (drifted (tbl_name t)) (tbl_columns t)\<rparr>"

text \<open>The columns on which two schemas with the same tables disagree.\<close>

definition table_drift :: "table_def \<Rightarrow> table_def \<Rightarrow> (string \<times> string) list" where
  "table_drift t t' = [(tbl_name t, col_name c). (c, c') \<leftarrow> zip (tbl_columns t) (tbl_columns t'), c \<noteq> c']"

definition schema_drift :: "schema \<Rightarrow> schema \<Rightarrow> (string \<times> string) list" where
  "schema_drift sc sc' = concat (map (\<lambda>(t, t'). table_drift t t') (zip (sc_tables sc) (sc_tables sc')))"

text \<open>
  The migration builds the tables of the models, column by column in the same order, with the same keys,
  constraints and indexes, except that every time stamp column has a time zone where the model's has none, and that
  \<open>deliveries.is_replay\<close> has a server default; these are all the columns on which the two disagree.
\<close>

lemma migration_matches_models:
  "sc_tables migrated_schema = map drifted_table (sc_tables metadata) \<and>
   set (sc_indexes migrated_schema) = set (sc_indexes metadata) \<and>
   length (sc_indexes migrated_schema) = length (sc_indexes metadata) \<and>
   schema_drift metadata migrated_schema =
     [(''tenants'', ''created_at''), (''tenants'', ''updated_at''),
      (''api_keys'', ''last_used_at''), (''api_keys'', ''created_at''), (''api_keys'', ''revoked_at''),
      (''endpoints'', ''created_at''), (''endpoints'', ''updated_at''),
      (''events'', ''created_at''), (''events'', ''updated_at''),
      (''deliveries'', ''started_at''), (''deliveries'', ''completed_at''), (''deliveries'', ''next_retry_at''),
      (''deliveries'', ''is_replay''), (''deliveries'', ''created_at''),
      (''idempotency_keys'', ''created_at''), (''idempotency_keys'', ''expires_at''),
      (''outbox_events'', ''created_at''), (''outbox_events'', ''published_at'')]"
  by code_simp

end
