(* ===== verification/Heartbeat.thy ===== *)
theory Heartbeat
  imports Worker
begin

text \<open>
  The heartbeat loop of \<open>apps/worker/eventmesh_worker/main.py\<close>: every worker keeps a key with a time to live in
  Redis and counts the keys of all workers for the gauge \<open>active_workers\<close>. The Redis operations are arguments; the
  locale \<open>key_store\<close> is what the loop relies on, and a reference server shows that it can hold.
\<close>

section \<open>The loop\<close>

text \<open>\<open>SET key value EX ttl\<close> and \<open>EVAL script numkeys arg\<close>, each at a time of the server, in seconds.\<close>

record 'k kv_client =
  kv_set :: "int \<Rightarrow> string \<Rightarrow> string \<Rightarrow> int \<Rightarrow> 'k \<Rightarrow> unit result \<times> 'k"
  kv_eval :: "int \<Rightarrow> string \<Rightarrow> int \<Rightarrow> string \<Rightarrow> 'k \<Rightarrow> int option result \<times> 'k"

definition consumer_name :: "string \<Rightarrow> string \<Rightarrow> string" where
  "consumer_name host hex = ''worker-'' @ host @ ''-'' @ take 8 hex"

definition heartbeat_key :: "string \<Rightarrow> string" where
  "heartbeat_key consumer = ''heartbeat:worker:'' @ consumer"

definition count_script :: string where
  "count_script = ''return #redis.call('' @ [CHR 39] @ ''keys'' @ [CHR 39] @ '', ARGV[1])''"

text \<open>One round: the value the gauge is set to, or the exception that is logged.\<close>

definition heartbeat :: "'k kv_client \<Rightarrow> string \<Rightarrow> int \<Rightarrow> 'k \<Rightarrow> int result \<times> 'k" where
  "heartbeat C consumer now k =
     (case kv_set C now (heartbeat_key consumer) ''1'' 30 k of
        (Inl e, k1) \<Rightarrow> (Inl e, k1)
      | (Inr _, k1) \<Rightarrow>
          (case kv_eval C now count_script 0 ''heartbeat:worker:*'' k1 of
             (Inl e, k2) \<Rightarrow> (Inl e, k2)
           | (Inr n, k2) \<Rightarrow> (Inr (case n of None \<Rightarrow> 0 | Some m \<Rightarrow> m), k2)))"

text \<open>The rounds of several workers on one server, in the order of their times.\<close>

fun heartbeats :: "'k kv_client \<Rightarrow> (string \<times> int) list \<Rightarrow> 'k \<Rightarrow> int result list \<times> 'k" where
  "heartbeats C [] k = ([], k)"
| "heartbeats C ((consumer, now) # bs) k =
     (case heartbeat C consumer now k of
        (g, k1) \<Rightarrow> (case heartbeats C bs k1 of (gs, k2) \<Rightarrow> (g # gs, k2)))"

section \<open>The contract\<close>

text \<open>
  \<open>expiry k x\<close> is the time at which the key \<open>x\<close> expires. A failed SET may have taken effect. The script counts the
  keys that have not expired and start with a prefix without wildcards.
\<close>

definition live_keys :: "(string \<Rightarrow> int option) \<Rightarrow> int \<Rightarrow> string \<Rightarrow> string set" where
  "live_keys expiry now prefix = {x. startswith x prefix \<and> (\<exists>t. expiry x = Some t \<and> now < t)}"

lemma heartbeat_key_inject [simp]: "heartbeat_key c = heartbeat_key c' \<longleftrightarrow> c = c'"
  by (simp add: heartbeat_key_def)

locale key_store =
  fixes C :: "'k kv_client"
    and expiry :: "'k \<Rightarrow> string \<Rightarrow> int option"
  assumes set_law: "kv_set C now key v ttl k = (res, k') \<Longrightarrow>
      expiry k' = (expiry k)(key \<mapsto> now + ttl) \<or> (\<exists>e. res = Inl e) \<and> expiry k' = expiry k"
    and eval_law: "kv_eval C now count_script 0 (prefix @ ''*'') k = (nres, k') \<Longrightarrow>
      set prefix \<inter> set ''*?[]'' = {} \<Longrightarrow>
      expiry k' = expiry k \<and> (\<forall>n. nres = Inr n \<longrightarrow> n = Some (int (card (live_keys (expiry k) now prefix))))"
begin

lemma heartbeat_ok:
  assumes "heartbeat C consumer now k = (Inr g, k')"
  shows "expiry k' = (expiry k)(heartbeat_key consumer \<mapsto> now + 30)"
    and "g = int (card (live_keys (expiry k') now ''heartbeat:worker:''))"
proof -
  from assms obtain u k1 n where set: "kv_set C now (heartbeat_key consumer) ''1'' 30 k = (Inr u, k1)"
    and ev: "kv_eval C now count_script 0 (''heartbeat:worker:'' @ ''*'') k1 = (Inr n, k')"
    and g: "g = (case n of None \<Rightarrow> 0 | Some m \<Rightarrow> m)"
    by (auto simp: heartbeat_def split: prod.splits sum.splits)
  have "expiry k' = expiry k1 \<and> n = Some (int (card (live_keys (expiry k1) now ''heartbeat:worker:'')))"
    using eval_law [OF ev] by simp
  with set_law [OF set] g show "expiry k' = (expiry k)(heartbeat_key consumer \<mapsto> now + 30)"
    "g = int (card (live_keys (expiry k') now ''heartbeat:worker:''))" by auto
qed

lemma heartbeat_step:
  assumes "heartbeat C consumer now k = (r, k')"
  shows "expiry k' = (expiry k)(heartbeat_key consumer \<mapsto> now + 30) \<or> isl r \<and> expiry k' = expiry k"
proof -
  obtain res k1 where set: "kv_set C now (heartbeat_key consumer) ''1'' 30 k = (res, k1)" by fastforce
  show ?thesis
  proof (cases res)
    case (Inl e)
    with assms set set_law [OF set] show ?thesis by (auto simp: heartbeat_def)
  next
    case (Inr u)
    obtain n k2 where ev: "kv_eval C now count_script 0 (''heartbeat:worker:'' @ ''*'') k1 = (n, k2)" by fastforce
    have "expiry k2 = expiry k1" using eval_law [OF ev] by simp
    moreover have "k' = k2" using assms set Inr ev by (auto simp: heartbeat_def split: sum.splits)
    ultimately show ?thesis using set_law [OF set] Inr by auto
  qed
qed

lemma heartbeats_Cons:
  assumes "heartbeats C ((c, t) # bs) k = (gs, k')"
  obtains r k1 rs where "heartbeat C c t k = (r, k1)" "heartbeats C bs k1 = (rs, k')" "gs = r # rs"
  using assms by (auto split: prod.splits)

text \<open>A key expires thirty seconds after one of the rounds of its worker.\<close>

lemma expiry_of_a_round:
  assumes "heartbeats C bs k = (gs, k')" "expiry k' x = Some t"
  shows "expiry k x = Some t \<or> (\<exists>c t'. (c, t') \<in> set bs \<and> x = heartbeat_key c \<and> t = t' + 30)"
  using assms
proof (induction bs arbitrary: k gs)
  case (Cons b bs)
  obtain c now where b: "b = (c, now)" by (cases b)
  from Cons.prems(1) [unfolded b] obtain r k1 rs where
    h: "heartbeat C c now k = (r, k1)" "heartbeats C bs k1 = (rs, k')" by (rule heartbeats_Cons)
  from heartbeat_step [OF h(1)] have "expiry k1 x = Some t \<Longrightarrow> expiry k x = Some t \<or> x = heartbeat_key c \<and> t = now + 30"
    by (auto split: if_splits)
  with Cons.IH [OF h(2) Cons.prems(2)] show ?case by (auto simp: b)
qed simp

text \<open>Rounds that are no earlier never bring the end of a key forward.\<close>

lemma expiry_never_earlier:
  assumes "heartbeats C bs k = (gs, k')" "expiry k x = Some t" "s \<le> t" "\<forall>b \<in> set bs. s \<le> snd b + 30"
  shows "\<exists>t'. expiry k' x = Some t' \<and> s \<le> t'"
  using assms
proof (induction bs arbitrary: k gs t)
  case (Cons b bs)
  obtain c now where b: "b = (c, now)" by (cases b)
  from Cons.prems(1) [unfolded b] obtain r k1 rs where
    h: "heartbeat C c now k = (r, k1)" "heartbeats C bs k1 = (rs, k')" by (rule heartbeats_Cons)
  have "s \<le> now + 30" "\<forall>b \<in> set bs. s \<le> snd b + 30" using Cons.prems(4) by (simp_all add: b)
  moreover have "expiry k1 x = Some t \<or> expiry k1 x = Some (now + 30)"
    using heartbeat_step [OF h(1)] Cons.prems(2) by auto
  ultimately show ?case using Cons.IH [OF h(2)] Cons.prems(3) by blast
qed simp

lemma expiry_after_success:
  assumes "heartbeats C bs k = (gs, k')" "sorted (map snd bs)" "((c, t), Inr g) \<in> set (zip bs gs)"
  shows "\<exists>t'. expiry k' (heartbeat_key c) = Some t' \<and> t + 30 \<le> t'"
  using assms
proof (induction bs arbitrary: k gs)
  case (Cons b bs)
  obtain c0 now where b: "b = (c0, now)" by (cases b)
  from Cons.prems(1) [unfolded b] obtain r k1 rs where
    h: "heartbeat C c0 now k = (r, k1)" "heartbeats C bs k1 = (rs, k')" "gs = r # rs" by (rule heartbeats_Cons)
  from Cons.prems(3) b h(3) consider (now) "c0 = c" "now = t" "r = Inr g" | (later) "((c, t), Inr g) \<in> set (zip bs rs)"
    by auto
  then show ?case
  proof cases
    case now
    with heartbeat_step [OF h(1)] have "expiry k1 (heartbeat_key c) = Some (t + 30)" by simp
    from expiry_never_earlier [OF h(2) this, of "t + 30"] Cons.prems(2) b now show ?thesis by auto
  next
    case later
    with Cons.IH [OF h(2)] Cons.prems(2) show ?thesis by simp
  qed
qed simp

end

section \<open>The live workers\<close>

text \<open>The workers that gave a sign of life less than thirty seconds before \<open>now\<close>.\<close>

definition live_workers :: "(string \<times> int) list \<Rightarrow> int \<Rightarrow> string set" where
  "live_workers bs now = {c. \<exists>t. (c, t) \<in> set bs \<and> now < t + 30}"

lemma finite_live_workers [simp]: "finite (live_workers bs now)"
  by (rule finite_subset [of _ "fst ` set bs"]) (auto simp: live_workers_def rev_image_eqI)

text \<open>The rounds that succeeded.\<close>

definition succeeded :: "(string \<times> int) list \<Rightarrow> int result list \<Rightarrow> (string \<times> int) list" where
  "succeeded bs gs = map fst (filter (\<lambda>(b, r). \<not> isl r) (zip bs gs))"

lemma succeeded_all: "length gs = length bs \<Longrightarrow> list_all (\<lambda>r. \<not> isl r) gs \<Longrightarrow> succeeded bs gs = bs"
  by (induction gs bs rule: list_induct2) (simp_all add: succeeded_def)

lemma succeeded_iff: "b \<in> set (succeeded bs gs) \<longleftrightarrow> (\<exists>g. (b, Inr g) \<in> set (zip bs gs))"
proof -
  have "(\<exists>r. \<not> isl r \<and> (b, r) \<in> set (zip bs gs)) \<longleftrightarrow> (\<exists>g. (b, Inr g) \<in> set (zip bs gs))"
    by (metis sum.collapse(2) sum.disc(2))
  then show ?thesis by (force simp: succeeded_def)
qed

lemma length_heartbeats: "heartbeats C bs k = (gs, k') \<Longrightarrow> length gs = length bs"
  by (induction bs arbitrary: k gs) (auto split: prod.splits)

lemma card_keys: "card (heartbeat_key ` ws) = card ws"
  by (rule card_image) (simp add: inj_on_def)

lemma startswith_key: "startswith (heartbeat_key c) ''heartbeat:worker:''"
  by (simp add: heartbeat_key_def)

section \<open>A reference server\<close>

record kv =
  kv_expiry :: "(string \<times> int) list"
  kv_up :: bool

definition ref_set :: "int \<Rightarrow> string \<Rightarrow> string \<Rightarrow> int \<Rightarrow> kv \<Rightarrow> unit result \<times> kv" where
  "ref_set now key v ttl k =
     (if kv_up k then (Inr (), k\<lparr>kv_expiry := (key, now + ttl) # kv_expiry k\<rparr>) else (Inl conn_error, k))"

definition ref_eval :: "int \<Rightarrow> string \<Rightarrow> int \<Rightarrow> string \<Rightarrow> kv \<Rightarrow> int option result \<times> kv" where
  "ref_eval now script n arg k =
     (if kv_up k then
        (Inr (Some (int (length (remdups (filter
           (\<lambda>x. startswith x (butlast arg) \<and> (case map_of (kv_expiry k) x of None \<Rightarrow> False | Some t \<Rightarrow> now < t))
           (map fst (kv_expiry k))))))), k)
      else (Inl conn_error, k))"

definition reference_kv :: "kv kv_client" where
  "reference_kv = \<lparr>kv_set = ref_set, kv_eval = ref_eval\<rparr>"

interpretation reference_store: key_store reference_kv "\<lambda>k. map_of (kv_expiry k)"
proof
  fix now key v ttl k res k'
  assume "kv_set reference_kv now key v ttl k = (res, k')"
  then show "map_of (kv_expiry k') = (map_of (kv_expiry k))(key \<mapsto> now + ttl) \<or>
      (\<exists>e. res = Inl e) \<and> map_of (kv_expiry k') = map_of (kv_expiry k)"
    by (auto simp: reference_kv_def ref_set_def split: if_splits)
next
  fix now prefix nres k' and k :: kv
  let ?live = "filter (\<lambda>x. startswith x prefix \<and> (case map_of (kv_expiry k) x of None \<Rightarrow> False | Some t \<Rightarrow> now < t))
    (map fst (kv_expiry k))"
  assume "kv_eval reference_kv now count_script 0 (prefix @ ''*'') k = (nres, k')"
  moreover have "set ?live = live_keys (map_of (kv_expiry k)) now prefix"
    by (auto simp: live_keys_def split: option.splits dest: map_of_SomeD) (metis fst_conv image_eqI map_of_SomeD)
  then have "length (remdups ?live) = card (live_keys (map_of (kv_expiry k)) now prefix)"
    by (metis length_remdups_card_conv)
  ultimately show "map_of (kv_expiry k') = map_of (kv_expiry k) \<and>
      (\<forall>n. nres = Inr n \<longrightarrow> n = Some (int (card (live_keys (map_of (kv_expiry k)) now prefix))))"
    by (auto simp: reference_kv_def ref_eval_def split: if_splits)
qed

section \<open>Properties\<close>

text \<open>
  C39. The gauge of active workers counts the live ones: over any Redis server that keeps its contract and has no
  heartbeat key at first, after any rounds of any workers in the order of their times, whatever calls failed in them, a
  round that succeeds sets the gauge to at least the number of workers with a successful round less than thirty
  seconds before, itself included, and to at most the number of workers that tried a round in that time (a SET
  that failed may have been carried out). When no round failed it is exactly that number: a worker that beats
  every ten seconds is counted, and one that died is not counted after thirty.
\<close>

theorem heartbeat_counts_live_workers:
  assumes "key_store C expiry" "\<forall>x. startswith x ''heartbeat:worker:'' \<longrightarrow> expiry k x = None"
    "heartbeats C bs k = (gs, k1)" "sorted (map snd bs @ [now])" "heartbeat C consumer now k1 = (Inr g, k2)"
  shows "int (card (live_workers (succeeded bs gs @ [(consumer, now)]) now)) \<le> g \<and>
    g \<le> int (card (live_workers (bs @ [(consumer, now)]) now)) \<and>
    (list_all (\<lambda>r. \<not> isl r) gs \<longrightarrow> g = int (card (live_workers (bs @ [(consumer, now)]) now)))"
proof -
  let ?live = "live_keys (expiry k2) now ''heartbeat:worker:''"
  have k2: "expiry k2 = (expiry k1)(heartbeat_key consumer \<mapsto> now + 30)" and g: "g = int (card ?live)"
    using key_store.heartbeat_ok [OF assms(1,5)] by blast+
  have upper: "?live \<subseteq> heartbeat_key ` live_workers (bs @ [(consumer, now)]) now"
  proof
    fix x assume "x \<in> ?live"
    then obtain t where x: "startswith x ''heartbeat:worker:''" "expiry k2 x = Some t" "now < t"
      by (auto simp: live_keys_def)
    show "x \<in> heartbeat_key ` live_workers (bs @ [(consumer, now)]) now"
    proof (cases "x = heartbeat_key consumer")
      case False
      with x k2 have "expiry k1 x = Some t" by simp
      from key_store.expiry_of_a_round [OF assms(1,3) this] assms(2) x show ?thesis
        by (auto simp: live_workers_def)
    next
      case True
      then show ?thesis by (intro image_eqI [of _ _ consumer]) (auto simp: live_workers_def)
    qed
  qed
  have lower: "heartbeat_key ` live_workers (succeeded bs gs @ [(consumer, now)]) now \<subseteq> ?live"
  proof
    fix x assume "x \<in> heartbeat_key ` live_workers (succeeded bs gs @ [(consumer, now)]) now"
    then obtain c t where c: "x = heartbeat_key c" "(c, t) \<in> set (succeeded bs gs) \<or> c = consumer" "now < t + 30 \<or> c = consumer"
      by (auto simp: live_workers_def)
    show "x \<in> ?live"
    proof (cases "c = consumer")
      case True
      with c(1) k2 show ?thesis by (auto simp: live_keys_def startswith_key)
    next
      case False
      with c(2) obtain m where "((c, t), Inr m) \<in> set (zip bs gs)" by (auto simp: succeeded_iff)
      moreover have "sorted (map snd bs)" using assms(4) by (simp add: sorted_append)
      ultimately obtain t' where "expiry k1 (heartbeat_key c) = Some t'" "t + 30 \<le> t'"
        using key_store.expiry_after_success [OF assms(1,3)] by blast
      with False c k2 show ?thesis by (auto simp: live_keys_def startswith_key)
    qed
  qed
  have "finite ?live" using upper by (rule finite_subset) simp
  from card_mono [OF this lower] card_mono [OF _ upper] g have bounds:
    "int (card (live_workers (succeeded bs gs @ [(consumer, now)]) now)) \<le> g"
    "g \<le> int (card (live_workers (bs @ [(consumer, now)]) now))" by (simp_all add: card_keys)
  with succeeded_all [OF length_heartbeats [OF assms(3)]] show ?thesis by fastforce
qed

text \<open>Two workers, of which the first died after its only beat.\<close>

theorem heartbeat_counts_live_workers_witness:
  "fst (heartbeat reference_kv ''b'' 31 (snd (heartbeats reference_kv [(''a'', 0), (''b'', 21)] \<lparr>kv_expiry = [], kv_up = True\<rparr>))) =
     Inr (int (card (live_workers [(''a'', 0), (''b'', 21), (''b'', 31)] 31)))"
proof -
  let ?k = "\<lparr>kv_expiry = [], kv_up = True\<rparr>"
  obtain gs k1 where h: "heartbeats reference_kv [(''a'', 0), (''b'', 21)] ?k = (gs, k1)" by fastforce
  obtain g k2 where b: "heartbeat reference_kv ''b'' 31 k1 = (g, k2)" by fastforce
  have ok: "list_all (\<lambda>g. \<not> isl g) gs" "\<not> isl g"
    using h b by (auto simp: heartbeat_def reference_kv_def ref_set_def ref_eval_def split: prod.splits)
  from ok(2) obtain m where m: "g = Inr m" by (cases g) auto
  have "heartbeat reference_kv ''b'' 31 k1 = (Inr m, k2)" using b m by simp
  from heartbeat_counts_live_workers [OF reference_store.key_store_axioms _ h _ this] ok(1) m h b show ?thesis by simp
qed

end
