(* ===== verification/Scheduler_Process.thy ===== *)
theory Scheduler_Process
  imports Scheduler
begin

text \<open>
  The scheduler process, \<open>main\<close> of \<open>apps/scheduler/eventmesh_scheduler/main.py\<close>: it creates the consumer group and then
  runs the two loops side by side. Each pass of a loop is one transaction, so a run is a sequence of passes of
  either loop, in any order; a pass that raises is logged and the loop goes on.
\<close>

section \<open>The process\<close>

record retry_round =
  rr_isoformat :: "datetime \<Rightarrow> string"
  rr_scan :: "delivery list \<Rightarrow> delivery list"
  rr_locked :: "uuid \<Rightarrow> bool"
  rr_now :: datetime

datatype scheduler_pass = Retry_pass retry_round | Cleanup_pass datetime

definition run_pass :: "settings \<Rightarrow> 'r redis_client \<Rightarrow> scheduler_pass \<Rightarrow> db \<times> 'r \<Rightarrow> db \<times> 'r" where
  "run_pass s R p st =
     (case p of
        Retry_pass q \<Rightarrow> retry_requeue_pass s R (rr_isoformat q) (rr_scan q) (rr_locked q) (rr_now q) st
      | Cleanup_pass now \<Rightarrow> (cleanup_pass s now (fst st), snd st))"

definition scheduler_main :: "settings \<Rightarrow> 'r redis_client \<Rightarrow> scheduler_pass list \<Rightarrow> db \<times> 'r \<Rightarrow> unit result \<times> (db \<times> 'r)" where
  "scheduler_main s R passes = (\<lambda>(d, r).
     (case ensure_group R (worker_stream_name s) (worker_consumer_group s) r of
        (Inl e, r') \<Rightarrow> (Inl e, (d, r'))
      | (Inr _, r') \<Rightarrow> (Inr (), fold (run_pass s R) passes (d, r'))))"

section \<open>A retry pass with a server that accepts\<close>

lemma requeue_rows_accepted:
  assumes "accepts R stream up" "up r"
  shows "\<exists>d' r'. requeue_rows R stream isof dls d r = (Inr d', r') \<and> up r'"
  using assms(2)
proof (induction dls arbitrary: d r)
  case (Cons x dls)
  show ?case
  proof (cases "get_event_row (dl_event_id x) d")
    case None
    with Cons show ?thesis by simp
  next
    case (Some ev)
    from assms(1) Cons.prems obtain i r1 where "publish R stream (retry_fields isof ev x) r = (Inr i, r1)" "up r1"
      unfolding accepts_def by blast
    with Some Cons.IH [of r1 "modify_delivery (dl_id x) requeued d"] show ?thesis by simp
  qed
qed simp

lemma requeue_rows_events:
  "requeue_rows R stream isof dls d r = (Inr d', r') \<Longrightarrow> get_event_row i d' = get_event_row i d"
  by (induction R stream isof dls d r rule: requeue_rows.induct) (auto split: option.splits prod.splits sum.splits)

lemma due_deliveries_iff:
  assumes "db_ok d"
  shows "x \<in> set (due_deliveries now d) \<longleftrightarrow>
    get_delivery_row (dl_id x) d = Some x \<and> dl_status x = delivery_status_value DL_RETRYING \<and>
    (\<exists>t. dl_next_retry_at x = Some t \<and> t \<le> now)"
  using db_ok_get(3) [OF assms] by (auto simp: due_deliveries_def dest: get_row_mem(3) split: option.splits)

lemma due_mono: "now \<le> later \<Longrightarrow> set (due_deliveries now d) \<subseteq> set (due_deliveries later d)"
  by (auto simp: due_deliveries_def split: option.splits)

lemma select_due_subset: "is_scan scan \<Longrightarrow> set (select_due scan locked now d) \<subseteq> set (due_deliveries now d)"
  by (auto simp: select_due_def is_scan_set dest!: in_set_takeD)

text \<open>A due row that the pass leaves out was crowded out by a full batch.\<close>

lemma select_due_full:
  assumes "is_scan scan" "\<forall>i. \<not> locked i" "x \<in> set (due_deliveries now d)" "x \<notin> set (select_due scan locked now d)"
  shows "length (select_due scan locked now d) = 100"
proof -
  have "select_due scan locked now d = take 100 (scan (due_deliveries now d))"
    using assms(2) by (simp add: select_due_def)
  moreover have "x \<in> set (scan (due_deliveries now d))" using assms(1,3) by (simp add: is_scan_set)
  ultimately show ?thesis using assms(4) by (cases "length (scan (due_deliveries now d)) \<le> 100") auto
qed

lemma retry_pass_accepted:
  assumes "redis_broker R undelivered pending ready" "accepts R (worker_stream_name s) up" "up r" "db_ok d"
    "is_scan scan" "ready (worker_stream_name s) g r"
    "retry_requeue_pass s R isof scan locked now (d, r) = (d', r')" "batch = select_due scan locked now d"
  shows "up r'" "db_ok d'" "ready (worker_stream_name s) g r'"
    "set (undelivered (worker_stream_name s) g r) \<subseteq> set (undelivered (worker_stream_name s) g r')"
    "\<And>i. get_event_row i d' = get_event_row i d"
    "\<And>i. i \<notin> dl_id ` set batch \<Longrightarrow> get_delivery_row i d' = get_delivery_row i d"
    "\<And>x ev. x \<in> set batch \<Longrightarrow> get_event_row (dl_event_id x) d = Some ev \<Longrightarrow>
       get_delivery_row (dl_id x) d' = Some (requeued x) \<and>
       (\<exists>m \<in> set (undelivered (worker_stream_name s) g r'). msg_fields m = retry_fields isof ev x)"
proof -
  from requeue_rows_accepted [OF assms(2,3), of isof batch d] obtain d0 r0 where
    "requeue_rows R (worker_stream_name s) isof batch d r = (Inr d0, r0)" "up r0" by blast
  with assms(7,8) have run: "requeue_rows R (worker_stream_name s) isof batch d r = (Inr d', r')" and up: "up r'"
    by (simp_all add: retry_requeue_pass_def)
  show "up r'" "db_ok d'" using up db_ok_requeue_rows [OF run assms(4)] by simp_all
  show "get_event_row i d' = get_event_row i d" for i by (rule requeue_rows_events [OF run])
  show "get_delivery_row i d' = get_delivery_row i d" if "i \<notin> dl_id ` set batch" for i
    by (rule requeue_rows_other [OF run that])
  from redis_broker.requeue_rows_log [OF assms(1) run assms(6)] obtain ms where ms: "ready (worker_stream_name s) g r'"
    "undelivered (worker_stream_name s) g r' = undelivered (worker_stream_name s) g r @ ms"
    "\<forall>x ev. x \<in> set batch \<longrightarrow> get_event_row (dl_event_id x) d = Some ev \<longrightarrow> retry_fields isof ev x \<in> msg_fields ` set ms"
    by blast
  then show "ready (worker_stream_name s) g r'"
    "set (undelivered (worker_stream_name s) g r) \<subseteq> set (undelivered (worker_stream_name s) g r')" by auto
  show "get_delivery_row (dl_id x) d' = Some (requeued x) \<and>
       (\<exists>m \<in> set (undelivered (worker_stream_name s) g r'). msg_fields m = retry_fields isof ev x)"
    if x: "x \<in> set batch" and ev: "get_event_row (dl_event_id x) d = Some ev" for x ev
  proof -
    have "distinct (map dl_id batch)" using select_due_distinct [OF assms(5,4)] assms(8) by simp
    moreover have "x \<in> set (deliveries d)" using x select_due_mem [OF assms(5)] assms(8) by blast
    ultimately have "get_delivery_row (dl_id x) d' = Some (requeued x)"
      using requeue_rows_done [OF run _ x db_ok_get(3) [OF assms(4)] ev] by blast
    with ms(2,3) x ev show ?thesis by fastforce
  qed
qed

text \<open>How many rows are due at a later time goes down by the size of the batch.\<close>

lemma due_card: "db_ok d \<Longrightarrow> length (due_deliveries now d) = card (dl_id ` set (due_deliveries now d))"
  using distinct_card [of "map dl_id (due_deliveries now d)"]
  by (simp add: due_deliveries_def db_ok_def keys_ok_def distinct_map_filter)

lemma due_decreases:
  assumes "db_ok d" "db_ok d'" "is_scan scan" "now \<le> later" "batch = select_due scan locked now d"
    "\<And>i. i \<notin> dl_id ` set batch \<Longrightarrow> get_delivery_row i d' = get_delivery_row i d"
    "\<And>x. x \<in> set batch \<Longrightarrow> get_delivery_row (dl_id x) d' = Some (requeued x)"
  shows "length (due_deliveries later d') + length batch \<le> length (due_deliveries later d)"
proof -
  let ?due = "\<lambda>x. dl_id ` set (due_deliveries later x)" and ?ids = "dl_id ` set batch"
  have sub: "?ids \<subseteq> ?due d"
    using select_due_subset [OF assms(3)] due_mono [OF assms(4)] assms(5) by blast
  have "?due d' \<subseteq> ?due d - ?ids"
  proof
    fix i assume "i \<in> ?due d'"
    then obtain x where x: "get_delivery_row i d' = Some x" "dl_id x = i" "x \<in> set (due_deliveries later d')"
      using due_deliveries_iff [OF assms(2)] by auto
    have "i \<notin> ?ids"
    proof
      assume "i \<in> ?ids"
      then obtain y where "get_delivery_row i d' = Some (requeued y)" using assms(7) by blast
      with x due_deliveries_iff [OF assms(2), of x later] show False by auto
    qed
    moreover from this assms(6) x have "x \<in> set (due_deliveries later d)"
      using due_deliveries_iff [OF assms(1)] due_deliveries_iff [OF assms(2)] by simp
    ultimately show "i \<in> ?due d - ?ids" using x(2) by blast
  qed
  from card_mono [OF _ this] sub have "card (?due d') \<le> card (?due d) - card ?ids" by (simp add: card_Diff_subset)
  moreover have "card ?ids = length batch"
    using distinct_card [OF select_due_distinct [OF assms(3,1)], of locked now] assms(5) by simp
  moreover have "card ?ids \<le> card (?due d)" using sub by (simp add: card_mono)
  ultimately show ?thesis using due_card [OF assms(1)] due_card [OF assms(2)] by simp
qed

section \<open>A cleanup pass\<close>

lemma cleanup_pass_deliveries:
  "deliveries (cleanup_pass s now d) = deliveries d \<or>
   deliveries (cleanup_pass s now d) = filter (\<lambda>r. \<not> expired_delivery s now r \<and> \<not> expired_dlq s now r) (deliveries d)"
  by (simp add: cleanup_pass_cases deliveries_cleanup_children)

lemma cleanup_pass_due: "length (due_deliveries t (cleanup_pass s now d)) \<le> length (due_deliveries t d)"
proof (rule disjE [OF cleanup_pass_deliveries [of s now d]])
  assume "deliveries (cleanup_pass s now d) = filter (\<lambda>r. \<not> expired_delivery s now r \<and> \<not> expired_dlq s now r) (deliveries d)"
  then have "due_deliveries t (cleanup_pass s now d) =
      filter (\<lambda>r. dl_status r = delivery_status_value DL_RETRYING \<and>
                 (case dl_next_retry_at r of None \<Rightarrow> False | Some t' \<Rightarrow> t' \<le> t))
        (filter (\<lambda>r. \<not> expired_delivery s now r \<and> \<not> expired_dlq s now r) (deliveries d))"
    by (simp only: due_deliveries_def)
  then show ?thesis by (simp only: due_deliveries_def length_filter_filter)
qed (simp add: due_deliveries_def)

lemma cleanup_pass_keeps:
  assumes "db_ok d" "get_delivery_row i d = Some x" "\<not> expired_delivery s now x" "\<not> expired_dlq s now x"
  shows "get_delivery_row i (cleanup_pass s now d) = Some x"
    "get_event_row (dl_event_id x) (cleanup_pass s now d) = get_event_row (dl_event_id x) d"
proof -
  let ?d = "cleanup_pass s now d"
  note ok = db_ok_cleanup_pass [OF assms(1), of s now]
  have mem: "x \<in> set (deliveries ?d)"
    using cleanup_pass_deliveries [of s now d] get_row_mem(3) [OF assms(2)] assms(3,4) by auto
  from db_ok_get(3) [OF ok this] get_row_id(3) [OF assms(2)] show "get_delivery_row i ?d = Some x" by simp
  from db_ok_event_of_delivery [OF ok mem] obtain ev where ev: "get_event_row (dl_event_id x) ?d = Some ev" by blast
  have "set (events ?d) \<subseteq> set (events d)" by (auto simp: cleanup_pass_cases)
  with get_row_mem(1) [OF ev] have "ev \<in> set (events d)" by blast
  from db_ok_get(1) [OF assms(1) this] get_row_id(1) [OF ev] ev
  show "get_event_row (dl_event_id x) ?d = get_event_row (dl_event_id x) d" by simp
qed

section \<open>Due retries are requeued\<close>

text \<open>
  The passes of a run as far as a row due at \<open>t\<close> is concerned: a retry pass runs between \<open>t\<close> and \<open>later\<close>, with no row locked by
  another session, and no cleanup finds the row past its retention.
\<close>

definition serves :: "settings \<Rightarrow> datetime \<Rightarrow> datetime \<Rightarrow> delivery \<Rightarrow> scheduler_pass \<Rightarrow> bool" where
  "serves s t later row p =
     (case p of
        Retry_pass q \<Rightarrow> is_scan (rr_scan q) \<and> (\<forall>i. \<not> rr_locked q i) \<and> t \<le> rr_now q \<and> rr_now q \<le> later
      | Cleanup_pass now \<Rightarrow> \<not> expired_delivery s now row)"

definition is_retry_pass :: "scheduler_pass \<Rightarrow> bool" where
  "is_retry_pass p = (case p of Retry_pass _ \<Rightarrow> True | Cleanup_pass _ \<Rightarrow> False)"

lemma is_retry_pass_simps [simp]: "is_retry_pass (Retry_pass q)" "\<not> is_retry_pass (Cleanup_pass now)"
  by (simp_all add: is_retry_pass_def)

lemma expired_requeued:
  "dl_status x = delivery_status_value DL_RETRYING \<Longrightarrow> expired_delivery s now (requeued x) = expired_delivery s now x"
  "\<not> expired_dlq s now (requeued x)"
  "dl_status x = delivery_status_value DL_RETRYING \<Longrightarrow> \<not> expired_dlq s now x"
  by (simp_all add: expired_delivery_def expired_dlq_def requeued_def)

text \<open>One pass: the process goes on as before, and messages stay.\<close>

lemma run_pass_sound:
  assumes "redis_broker R undelivered pending ready" "accepts R (worker_stream_name s) up" "up r" "db_ok d"
    "ready (worker_stream_name s) g r" "serves s t later x p" "run_pass s R p (d, r) = (d', r')"
  shows "up r'" "db_ok d'" "ready (worker_stream_name s) g r'"
    "set (undelivered (worker_stream_name s) g r) \<subseteq> set (undelivered (worker_stream_name s) g r')"
proof -
  have "up r' \<and> db_ok d' \<and> ready (worker_stream_name s) g r' \<and>
    set (undelivered (worker_stream_name s) g r) \<subseteq> set (undelivered (worker_stream_name s) g r')"
  proof (cases p)
    case (Retry_pass q)
    with assms(6,7) have "is_scan (rr_scan q)"
      "retry_requeue_pass s R (rr_isoformat q) (rr_scan q) (rr_locked q) (rr_now q) (d, r) = (d', r')"
      by (simp_all add: serves_def run_pass_def)
    from retry_pass_accepted(1-4) [OF assms(1-4) this(1) assms(5) this(2) refl] show ?thesis by simp
  next
    case (Cleanup_pass now)
    with assms(3-5,7) db_ok_cleanup_pass [OF assms(4), of s now] show ?thesis by (auto simp: run_pass_def)
  qed
  then show "up r'" "db_ok d'" "ready (worker_stream_name s) g r'"
    "set (undelivered (worker_stream_name s) g r) \<subseteq> set (undelivered (worker_stream_name s) g r')" by simp_all
qed

text \<open>A row that is not among those a pass takes, and is not expired, stays as it is, and so does its event.\<close>

lemma run_pass_keeps:
  assumes "redis_broker R undelivered pending ready" "accepts R (worker_stream_name s) up" "up r" "db_ok d"
    "ready (worker_stream_name s) g r" "serves s t later x p" "run_pass s R p (d, r) = (d', r')"
    "get_delivery_row i d = Some y" "\<And>now. expired_delivery s now y = expired_delivery s now x"
    "\<And>now. \<not> expired_dlq s now y"
    "\<And>q. p = Retry_pass q \<Longrightarrow> y \<notin> set (select_due (rr_scan q) (rr_locked q) (rr_now q) d)"
  shows "get_delivery_row i d' = Some y" "get_event_row (dl_event_id y) d' = get_event_row (dl_event_id y) d"
proof -
  have "get_delivery_row i d' = Some y \<and> get_event_row (dl_event_id y) d' = get_event_row (dl_event_id y) d"
  proof (cases p)
    case (Retry_pass q)
    with assms(6,7) have q: "is_scan (rr_scan q)"
      "retry_requeue_pass s R (rr_isoformat q) (rr_scan q) (rr_locked q) (rr_now q) (d, r) = (d', r')"
      by (simp_all add: serves_def run_pass_def)
    let ?batch = "select_due (rr_scan q) (rr_locked q) (rr_now q) d"
    have "i \<notin> dl_id ` set ?batch"
    proof
      assume "i \<in> dl_id ` set ?batch"
      then obtain z where z: "z \<in> set ?batch" "dl_id z = i" by blast
      from db_ok_get(3) [OF assms(4) select_due_mem [OF q(1) z(1)]] z assms(8) have "z = y" by simp
      with z(1) assms(11) [OF Retry_pass] show False by simp
    qed
    with retry_pass_accepted(5,6) [OF assms(1-4) q(1) assms(5) q(2) refl] assms(8) show ?thesis by simp
  next
    case (Cleanup_pass now)
    with assms(6,7) have "\<not> expired_delivery s now x" "d' = cleanup_pass s now d"
      by (simp_all add: serves_def run_pass_def)
    with cleanup_pass_keeps [OF assms(4,8), of s now] assms(9,10) show ?thesis by simp
  qed
  then show "get_delivery_row i d' = Some y" "get_event_row (dl_event_id y) d' = get_event_row (dl_event_id y) d" by simp_all
qed

lemma queued_row_stays:
  assumes "redis_broker R undelivered pending ready" "accepts R (worker_stream_name s) up" "up r" "db_ok d"
    "ready (worker_stream_name s) g r" "\<forall>p \<in> set passes. serves s t later x p"
    "fold (run_pass s R) passes (d, r) = (d', r')"
    "get_delivery_row i d = Some (requeued x)" "dl_status x = delivery_status_value DL_RETRYING"
  shows "get_delivery_row i d' = Some (requeued x) \<and>
    set (undelivered (worker_stream_name s) g r) \<subseteq> set (undelivered (worker_stream_name s) g r')"
  using assms(3-8)
proof (induction passes arbitrary: d r)
  case (Cons p passes)
  obtain d1 r1 where s1: "run_pass s R p (d, r) = (d1, r1)" by fastforce
  have p: "serves s t later x p" using Cons.prems by simp
  note sound = run_pass_sound [OF assms(1,2) Cons.prems(1-3) p s1]
  have "requeued x \<notin> set (select_due (rr_scan q) (rr_locked q) (rr_now q) d)" if "p = Retry_pass q" for q
    using that p select_due_subset [of "rr_scan q" "rr_locked q" "rr_now q" d]
    by (auto simp: serves_def due_deliveries_def)
  from run_pass_keeps(1) [OF assms(1,2) Cons.prems(1-3) p s1 Cons.prems(6) expired_requeued(1) [OF assms(9)]
      expired_requeued(2) this]
  have "get_delivery_row i d1 = Some (requeued x)" .
  from Cons.IH [OF sound(1-3) _ _ this] Cons.prems(4,5) s1 sound(4) show ?case by auto
qed simp

text \<open>A retry pass either requeues the row, with its message, or takes a hundred others.\<close>

lemma retry_pass_progress:
  assumes "redis_broker R undelivered pending ready" "accepts R (worker_stream_name s) up" "up r" "db_ok d"
    "ready (worker_stream_name s) g r" "serves s t later row (Retry_pass q)" "run_pass s R (Retry_pass q) (d, r) = (d', r')"
    "row \<in> set (due_deliveries t d)" "get_event_row (dl_event_id row) d = Some ev"
  shows "get_delivery_row (dl_id row) d' = Some (requeued row) \<and>
      (\<exists>m \<in> set (undelivered (worker_stream_name s) g r'). msg_fields m = retry_fields (rr_isoformat q) ev row) \<or>
    row \<notin> set (select_due (rr_scan q) (rr_locked q) (rr_now q) d) \<and>
      length (due_deliveries later d') + 100 \<le> length (due_deliveries later d)"
proof -
  let ?batch = "select_due (rr_scan q) (rr_locked q) (rr_now q) d"
  from assms(6,7) have q: "is_scan (rr_scan q)" "\<forall>i. \<not> rr_locked q i" "t \<le> rr_now q" "rr_now q \<le> later"
    "retry_requeue_pass s R (rr_isoformat q) (rr_scan q) (rr_locked q) (rr_now q) (d, r) = (d', r')"
    by (simp_all add: serves_def run_pass_def)
  note pass = retry_pass_accepted [OF assms(1-4) q(1) assms(5) q(5) refl]
  show ?thesis
  proof (cases "row \<in> set ?batch")
    case True
    with pass(7) [OF True assms(9)] show ?thesis by blast
  next
    case False
    have "get_delivery_row (dl_id x) d' = Some (requeued x)" if "x \<in> set ?batch" for x
      using db_ok_event_of_delivery [OF assms(4) select_due_mem [OF q(1) that]] pass(7) [OF that] by blast
    from due_decreases [OF assms(4) pass(2) q(1,4) refl pass(6) this]
    have "length (due_deliveries later d') + length ?batch \<le> length (due_deliveries later d)" .
    moreover have "length ?batch = 100"
      using select_due_full [OF q(1,2) _ False] due_mono [OF q(3)] assms(8) by blast
    ultimately show ?thesis using False by simp
  qed
qed

lemma passes_requeue:
  assumes "redis_broker R undelivered pending ready" "accepts R (worker_stream_name s) up" "up r" "db_ok d"
    "ready (worker_stream_name s) g r" "\<forall>p \<in> set passes. serves s t later row p"
    "fold (run_pass s R) passes (d, r) = (d', r')" "t \<le> later"
    "row \<in> set (due_deliveries t d)" "get_event_row (dl_event_id row) d = Some ev"
    "length (due_deliveries later d) \<le> 100 * length (filter is_retry_pass passes)"
  shows "get_delivery_row (dl_id row) d' = Some (requeued row) \<and>
    (\<exists>q m. Retry_pass q \<in> set passes \<and> m \<in> set (undelivered (worker_stream_name s) g r') \<and>
       msg_fields m = retry_fields (rr_isoformat q) ev row)"
  using assms(3-7,9-)
proof (induction passes arbitrary: d r)
  case Nil
  with due_mono [OF assms(8), of d] show ?case by auto
next
  case (Cons p passes)
  obtain d1 r1 where s1: "run_pass s R p (d, r) = (d1, r1)" by fastforce
  have p: "serves s t later row p" "\<forall>p \<in> set passes. serves s t later row p" using Cons.prems(4) by simp_all
  have tail: "fold (run_pass s R) passes (d1, r1) = (d', r')" using Cons.prems(5) s1 by simp
  note sound = run_pass_sound [OF assms(1,2) Cons.prems(1-3) p(1) s1]
  from Cons.prems(6) due_deliveries_iff [OF Cons.prems(2)]
  have row: "get_delivery_row (dl_id row) d = Some row" "dl_status row = delivery_status_value DL_RETRYING" by blast+
  show ?case
  proof (cases "\<exists>q. p = Retry_pass q \<and> get_delivery_row (dl_id row) d1 = Some (requeued row) \<and>
      (\<exists>m \<in> set (undelivered (worker_stream_name s) g r1). msg_fields m = retry_fields (rr_isoformat q) ev row)")
    case True
    then obtain q m where "p = Retry_pass q" "get_delivery_row (dl_id row) d1 = Some (requeued row)"
      "m \<in> set (undelivered (worker_stream_name s) g r1)" "msg_fields m = retry_fields (rr_isoformat q) ev row" by blast
    with queued_row_stays [OF assms(1,2) sound(1-3) p(2) tail _ row(2)] show ?thesis by auto
  next
    case False
    have later: "row \<notin> set (select_due (rr_scan q) (rr_locked q) (rr_now q) d) \<and>
        length (due_deliveries later d1) + 100 \<le> length (due_deliveries later d)" if "p = Retry_pass q" for q
      using retry_pass_progress [OF assms(1,2) Cons.prems(1-3) p(1) [unfolded that] s1 [unfolded that] Cons.prems(6,7)]
        False that by blast
    note kept = run_pass_keeps [OF assms(1,2) Cons.prems(1-3) p(1) s1 row(1) refl expired_requeued(3) [OF row(2)]]
    have "get_delivery_row (dl_id row) d1 = Some row" "get_event_row (dl_event_id row) d1 = Some ev"
      using kept later Cons.prems(7) by simp_all
    then have due: "row \<in> set (due_deliveries t d1)"
      using Cons.prems(6) due_deliveries_iff [OF Cons.prems(2)] due_deliveries_iff [OF sound(2)] by simp
    have "length (due_deliveries later d1) \<le> 100 * length (filter is_retry_pass passes)"
    proof (cases p)
      case (Retry_pass q)
      with later Cons.prems(8) show ?thesis by simp
    next
      case (Cleanup_pass now)
      with s1 cleanup_pass_due [of later s now d] Cons.prems(8) show ?thesis
        by (simp add: run_pass_def)
    qed
    from Cons.IH [OF sound(1-3) p(2) tail due \<open>get_event_row (dl_event_id row) d1 = Some ev\<close> this]
    show ?thesis by auto
  qed
qed

text \<open>
  C7. If the server keeps accepting messages, the scheduler's \<open>main\<close> puts a due retry back on the stream: given a row
  that is due at \<open>t\<close>, retry passes between \<open>t\<close> and \<open>later\<close> that find no row locked by another session, one for
  every hundred rows due at \<open>later\<close>, and cleanup passes, in any order, as long as none of them runs so late that the row is past
  its retention, the row ends as QUEUED and the message of its event for its endpoint waits in the stream for the consumer group.
\<close>

theorem due_retries_are_requeued:
  assumes "redis_broker R undelivered pending ready" "accepts R (worker_stream_name s) up" "db_ok d"
    "ready (worker_stream_name s) (worker_consumer_group s) r"
    "ensure_group R (worker_stream_name s) (worker_consumer_group s) r = (Inr (), r0)" "up r0"
    "\<forall>p \<in> set passes. case p of
       Retry_pass q \<Rightarrow> is_scan (rr_scan q) \<and> (\<forall>i. \<not> rr_locked q i) \<and> t \<le> rr_now q \<and> rr_now q \<le> later
     | Cleanup_pass now \<Rightarrow> now - days_us (retention_deliveries_days s) \<le> dl_created_at row"
    "t \<le> later" "row \<in> set (due_deliveries t d)"
    "length (due_deliveries later d) \<le> 100 * length (filter is_retry_pass passes)"
  shows "\<exists>d' r' ev q m. scheduler_main s R passes (d, r) = (Inr (), (d', r')) \<and>
    get_delivery_row (dl_id row) d' = Some (requeued row) \<and> get_event_row (dl_event_id row) d = Some ev \<and>
    Retry_pass q \<in> set passes \<and> m \<in> set (undelivered (worker_stream_name s) (worker_consumer_group s) r') \<and>
    msg_fields m = retry_fields (rr_isoformat q) ev row"
proof -
  obtain d' r' where run: "fold (run_pass s R) passes (d, r0) = (d', r')" by fastforce
  have serves: "\<forall>p \<in> set passes. serves s t later row p"
    using assms(7) by (auto simp: serves_def expired_delivery_def split: scheduler_pass.splits)
  have "row \<in> set (deliveries d)" using assms(9) by (simp add: due_deliveries_def)
  from db_ok_event_of_delivery [OF assms(3) this] obtain ev where ev: "get_event_row (dl_event_id row) d = Some ev" by blast
  from message_broker.ens_law [OF redis_broker.axioms [OF assms(1)] assms(5,4)]
  have "ready (worker_stream_name s) (worker_consumer_group s) r0" by simp
  from passes_requeue [OF assms(1,2,6,3) this serves run assms(8,9) ev assms(10)] run ev assms(5) show ?thesis
    by (fastforce simp: scheduler_main_def)
qed

text \<open>A database with a delivery whose retry is due, and a server that has not seen the group yet.\<close>

definition sample_retry :: delivery where
  "sample_retry = \<lparr>dl_id = 40, dl_event_id = 10, dl_endpoint_id = 20, dl_attempt_number = 1, dl_status = ''retrying'',
     dl_http_status = Some 500, dl_latency_ms = Some 3, dl_error_code = Some ''HTTP_500'', dl_error_message = None,
     dl_started_at = Some 5, dl_completed_at = Some 6, dl_next_retry_at = Some 7, dl_is_replay = False, dl_created_at = 5\<rparr>"

definition sample_retry_db :: db where
  "sample_retry_db = sample_db\<lparr>deliveries := [sample_retry]\<rparr>"

definition sample_fresh_redis :: redis where
  "sample_fresh_redis = \<lparr>rd_streams = (\<lambda>_. []), rd_groups = (\<lambda>_. None), rd_now = 0, rd_up = True\<rparr>"

definition sample_passes :: "scheduler_pass list" where
  "sample_passes = [Cleanup_pass 7, Retry_pass \<lparr>rr_isoformat = str_int, rr_scan = rev, rr_locked = (\<lambda>_. False), rr_now = 8\<rparr>]"

lemma sample_retry_db_ok: "db_ok sample_retry_db"
  by (simp add: sample_retry_db_def sample_retry_def db_ok_def keys_ok_def refs_ok_def sample_defs)

theorem due_retries_are_requeued_witness:
  "\<exists>d' r'. scheduler_main default_settings reference_redis sample_passes (sample_retry_db, sample_fresh_redis) = (Inr (), (d', r')) \<and>
     get_delivery_row 40 d' = Some (requeued sample_retry) \<and>
     rs_undelivered (worker_stream_name default_settings) (worker_consumer_group default_settings) r' \<noteq> []"
proof -
  let ?s = default_settings
  have due: "due_deliveries 8 sample_retry_db = [sample_retry]" "due_deliveries 7 sample_retry_db = [sample_retry]"
    by (simp_all add: due_deliveries_def sample_retry_db_def sample_retry_def)
  have serves: "\<forall>p \<in> set sample_passes. case p of
       Retry_pass q \<Rightarrow> is_scan (rr_scan q) \<and> (\<forall>i. \<not> rr_locked q i) \<and> 7 \<le> rr_now q \<and> rr_now q \<le> 8
     | Cleanup_pass now \<Rightarrow> now - days_us (retention_deliveries_days ?s) \<le> dl_created_at sample_retry"
    by (simp add: sample_passes_def sample_retry_def default_settings_def days_us_def)
  obtain r0 where r0: "ensure_group reference_redis (worker_stream_name ?s) (worker_consumer_group ?s) sample_fresh_redis =
      (Inr (), r0)" "rd_up r0"
    by (simp add: ensure_group_def reference_redis_def rs_xgroup_create_def sample_fresh_redis_def)
  have "rs_ready (worker_stream_name ?s) (worker_consumer_group ?s) sample_fresh_redis"
    by (simp add: rs_ready_def sample_fresh_redis_def)
  from due_retries_are_requeued [OF reference.redis_broker_axioms reference_accepts sample_retry_db_ok this r0 serves]
  obtain d' r' m where "scheduler_main ?s reference_redis sample_passes (sample_retry_db, sample_fresh_redis) = (Inr (), (d', r'))"
    "get_delivery_row (dl_id sample_retry) d' = Some (requeued sample_retry)"
    "m \<in> set (rs_undelivered (worker_stream_name ?s) (worker_consumer_group ?s) r')"
    using due by (auto simp: sample_passes_def)
  moreover have "dl_id sample_retry = 40" by (simp add: sample_retry_def)
  ultimately show ?thesis by (metis empty_iff list.set(1))
qed

text \<open>
  C8. One pass of the retry loop, over any broker that keeps its contract, takes as many of the rows that are RETRYING, due and not
  locked by another session as there are, at most a hundred. Either the database is as it was, which happens only if the server does not
  accept every message; or each of these rows is QUEUED and otherwise unchanged, a message with its identifier and the payload for its
  event and endpoint waits in the stream for the consumer group, and no other delivery row changed. No message that was there before
  is lost and the schema's constraints hold.
\<close>

theorem retry_requeue_pass_outcome:
  assumes "redis_broker R undelivered pending ready" "db_ok d" "is_scan scan" "ready (worker_stream_name s) g r"
    "retry_requeue_pass s R isof scan locked now (d, r) = (d', r')"
  shows "db_ok d' \<and> (\<exists>ms. undelivered (worker_stream_name s) g r' = undelivered (worker_stream_name s) g r @ ms) \<and>
    (\<exists>batch. distinct batch \<and>
       set batch \<subseteq> {dl \<in> set (deliveries d). dl_status dl = ''retrying'' \<and> \<not> locked (dl_id dl) \<and>
         (\<exists>t. dl_next_retry_at dl = Some t \<and> t \<le> now)} \<and>
       length batch = min 100 (length (filter (\<lambda>dl. dl_status dl = ''retrying'' \<and> \<not> locked (dl_id dl) \<and>
         (case dl_next_retry_at dl of None \<Rightarrow> False | Some t \<Rightarrow> t \<le> now)) (deliveries d))) \<and>
       (d' = d \<and> (\<forall>up. accepts R (worker_stream_name s) up \<longrightarrow> \<not> up r) \<or>
        (\<forall>dl \<in> set batch. get_delivery_row (dl_id dl) d' = Some (dl\<lparr>dl_status := ''queued''\<rparr>) \<and>
           (\<exists>ev. get_event_row (dl_event_id dl) d = Some ev \<and>
              (\<exists>m \<in> set (undelivered (worker_stream_name s) g r').
                 msg_fields m = [(''outbox_id'', ''retry-'' @ str_uuid (dl_id dl)),
                   (''payload'', json_dumps (JObj (retry_payload isof ev dl)))]))) \<and>
        (\<forall>i. i \<notin> dl_id ` set batch \<longrightarrow> get_delivery_row i d' = get_delivery_row i d)))"
    (is "?ok \<and> ?kept \<and> (\<exists>batch. ?batch batch \<and> ?due batch \<and> ?length batch \<and> ?done batch)")
proof -
  define batch where "batch = select_due scan locked now d"
  note out = requeue_pass_cases [OF assms batch_def]
  have "?batch batch" using select_due_distinct [OF assms(3,2)] by (simp add: batch_def distinct_map)
  moreover have "?due batch"
    using assms(3) by (auto simp: batch_def select_due_def due_deliveries_def is_scan_set split: option.splits dest!: in_set_takeD)
  moreover have "?length batch"
    unfolding batch_def select_due_length [OF assms(3)] by (simp add: due_deliveries_def conj_ac)
  moreover have "\<not> up r" if "requeue_rows R (worker_stream_name s) isof batch d r = (Inl e, r')"
    "accepts R (worker_stream_name s) up" for e up
    using requeue_rows_accepted [OF that(2), of r isof batch d] that(1) by fastforce
  with out have "?done batch"
    unfolding requeued_def retry_fields_def delivery_status_value.simps by blast
  ultimately show ?thesis using out by blast
qed

theorem retry_requeue_pass_outcome_witness:
  "\<exists>d' r'. retry_requeue_pass default_settings reference_redis str_int rev (\<lambda>_. False) 8 (sample_retry_db, sample_fresh_redis) = (d', r') \<and>
     get_delivery_row 40 d' = Some (sample_retry\<lparr>dl_status := ''queued''\<rparr>)"
proof -
  let ?s = default_settings
  obtain d' r' where p: "retry_requeue_pass ?s reference_redis str_int rev (\<lambda>_. False) 8 (sample_retry_db, sample_fresh_redis) = (d', r')"
    by fastforce
  have ready: "rs_ready (worker_stream_name ?s) (worker_consumer_group ?s) sample_fresh_redis" and up: "rd_up sample_fresh_redis"
    by (simp_all add: rs_ready_def sample_fresh_redis_def)
  have one: "filter (\<lambda>dl. dl_status dl = ''retrying'' \<and> \<not> False \<and>
      (case dl_next_retry_at dl of None \<Rightarrow> False | Some t \<Rightarrow> t \<le> 8)) (deliveries sample_retry_db) = [sample_retry]"
    by (simp add: sample_retry_db_def sample_retry_def)
  have all: "set (deliveries sample_retry_db) = {sample_retry}" by (simp add: sample_retry_db_def)
  from retry_requeue_pass_outcome [OF reference.redis_broker_axioms sample_retry_db_ok is_scan_rev ready p, unfolded one all]
    reference_accepts up
  obtain batch where "length batch = 1" "set batch \<subseteq> {sample_retry}"
    "\<forall>dl \<in> set batch. get_delivery_row (dl_id dl) d' = Some (dl\<lparr>dl_status := ''queued''\<rparr>)"
    by fastforce
  then have "get_delivery_row (dl_id sample_retry) d' = Some (sample_retry\<lparr>dl_status := ''queued''\<rparr>)"
    by (cases batch) auto
  with p show ?thesis by (simp add: sample_retry_def)
qed

end
