(* ===== verification/Log_Redaction.thy ===== *)
theory Log_Redaction
  imports Json_Text Settings
begin

text \<open>
  Structured logging, \<open>packages/logging/eventmesh_logging/setup.py\<close>: the configuration of a process, the redaction of
  an event dictionary and its place among the processors. \<open>structlog\<close> is a record of operations, with
  what the code relies on as the laws of the locale \<open>structlog_contract\<close>; the renderer is \<open>json.dumps\<close>.
\<close>

type_synonym event_dict = "(string \<times> json) list"

section \<open>Redaction\<close>

definition REDACT_KEYS :: "string set" where
  "REDACT_KEYS = {''api_key'', ''authorization'', ''secret'', ''webhook_secret'', ''key_hash'', ''password'', ''token''}"

definition redact_processor :: "event_dict \<Rightarrow> event_dict" where
  "redact_processor event_dict =
     map (\<lambda>(k, v). if str_lower k \<in> REDACT_KEYS then (k, JStr ''***REDACTED***'') else (k, v)) event_dict"

section \<open>Configuration\<close>

text \<open>
  The names of Python's log levels and their numbers, and \<open>str.upper\<close> on ASCII text, which is all that the names
  hold. A configuration runs once, at the start of a process, when the root logger has no handler; then
  \<open>basicConfig\<close> sets its level, and a name that is not one of the table's, as it stands, is a ValueError.
\<close>

definition level_names :: "string \<Rightarrow> int option" where
  "level_names =
     [''CRITICAL'' \<mapsto> 50, ''FATAL'' \<mapsto> 50, ''ERROR'' \<mapsto> 40, ''WARN'' \<mapsto> 30, ''WARNING'' \<mapsto> 30, ''INFO'' \<mapsto> 20,
      ''DEBUG'' \<mapsto> 10, ''NOTSET'' \<mapsto> 0]"

definition str_upper :: "string \<Rightarrow> string" where
  "str_upper s = map (\<lambda>c. if 97 \<le> ord c \<and> ord c \<le> 122 then char_of (ord c - 32) else c) s"

record logging_config =
  lc_min_level :: int
  lc_contextvars :: event_dict

definition configure_logging :: "string \<Rightarrow> string \<Rightarrow> logging_config result" where
  "configure_logging service level =
     (case level_names level of
        None \<Rightarrow> Inl (ValueError (''Unknown level: '' @ level))
      | Some _ \<Rightarrow>
          Inr \<lparr>lc_min_level = (case level_names (str_upper level) of Some n \<Rightarrow> n | None \<Rightarrow> 20),
               lc_contextvars = [(''service'', JStr service)]\<rparr>)"

section \<open>A log call\<close>

text \<open>
  The library: which methods a filtering logger of a least level lets through, the event dictionary of a call
  on a logger with an initial context, and the processors configured before the redaction.
\<close>

record structlog =
  sl_enabled :: "int \<Rightarrow> string \<Rightarrow> bool"
  sl_event_dict :: "event_dict \<Rightarrow> string \<Rightarrow> string \<Rightarrow> event_dict \<Rightarrow> event_dict"
  sl_merge_contextvars :: "event_dict \<Rightarrow> event_dict \<Rightarrow> event_dict"
  sl_add_log_level :: "string \<Rightarrow> event_dict \<Rightarrow> event_dict"
  sl_time_stamper :: "event_dict \<Rightarrow> event_dict"

definition processors :: "structlog \<Rightarrow> logging_config \<Rightarrow> string \<Rightarrow> event_dict \<Rightarrow> string" where
  "processors S cfg method_name d =
     json_dumps (JObj (redact_processor
       (sl_time_stamper S (sl_add_log_level S method_name (sl_merge_contextvars S (lc_contextvars cfg) d)))))"

text \<open>A call of a method of a logger that \<open>get_logger\<close> made with an initial context: the line printed, if any.\<close>

definition log_call :: "structlog \<Rightarrow> logging_config \<Rightarrow> event_dict \<Rightarrow> string \<Rightarrow> string \<Rightarrow> event_dict \<Rightarrow> string option" where
  "log_call S cfg initial_context method_name event kw =
     (if sl_enabled S (lc_min_level cfg) method_name
      then Some (processors S cfg method_name (sl_event_dict S initial_context method_name event kw))
      else None)"

text \<open>What the API logs when it starts: the host part of the database's URL.\<close>

definition startup_fields :: "settings \<Rightarrow> event_dict" where
  "startup_fields s = [(''database_url_host'', JStr (last (split_on CHR ''@'' (database_url s))))]"

section \<open>The contract of the library\<close>

text \<open>Two dictionaries that differ at most in what they hold under redacted keys.\<close>

definition same_public :: "event_dict \<Rightarrow> event_dict \<Rightarrow> bool" where
  "same_public d d' \<longleftrightarrow>
     list_all2 (\<lambda>(k, v) (k', v'). k = k' \<and> (str_lower k \<in> REDACT_KEYS \<or> v = v')) d d'"

definition method_level :: "string \<Rightarrow> int option" where
  "method_level =
     [''debug'' \<mapsto> 10, ''info'' \<mapsto> 20, ''warning'' \<mapsto> 30, ''error'' \<mapsto> 40, ''exception'' \<mapsto> 40, ''critical'' \<mapsto> 50]"

text \<open>
  A method logs if its level is not below the least one. Fields of a call are kept, under whatever names, by everything before
  the redaction except for the message, the level and the time, which are set; and no step looks at a value to decide what to
  do with another.
\<close>

locale structlog_contract =
  fixes S :: structlog
  assumes enabled_law: "method_level m = Some n \<Longrightarrow> sl_enabled S least m \<longleftrightarrow> least \<le> n"
    and public_laws:
      "same_public d d' \<Longrightarrow> same_public (sl_event_dict S ini m ev d) (sl_event_dict S ini m ev d')"
      "same_public d d' \<Longrightarrow> same_public (sl_merge_contextvars S vars d) (sl_merge_contextvars S vars d')"
      "same_public d d' \<Longrightarrow> same_public (sl_add_log_level S m d) (sl_add_log_level S m d')"
      "same_public d d' \<Longrightarrow> same_public (sl_time_stamper S d) (sl_time_stamper S d')"
    and kept_laws:
      "map_of d k = Some v \<Longrightarrow> k \<noteq> ''event'' \<Longrightarrow> map_of (sl_event_dict S ini m ev d) k = Some v"
      "map_of d k = Some v \<Longrightarrow> map_of (sl_merge_contextvars S vars d) k = Some v"
      "k \<noteq> ''level'' \<Longrightarrow> map_of (sl_add_log_level S m d) k = map_of d k"
      "k \<noteq> ''timestamp'' \<Longrightarrow> map_of (sl_time_stamper S d) k = map_of d k"
    and event_law: "map_of (sl_event_dict S ini m ev d) ''event'' = Some (JStr ev)"

lemma redact_same_public: "same_public d d' \<Longrightarrow> redact_processor d = redact_processor d'"
  unfolding same_public_def redact_processor_def
  by (induction rule: list_all2_induct) auto

lemma redact_idempotent: "redact_processor (redact_processor d) = redact_processor d"
  by (simp add: redact_processor_def comp_def) (simp add: case_prod_beta)

lemma redact_lookup:
  "map_of (redact_processor d) k =
     (if str_lower k \<in> REDACT_KEYS then map_option (\<lambda>_. JStr ''***REDACTED***'') (map_of d k) else map_of d k)"
  by (induction d) (auto simp: redact_processor_def)

lemma redact_SomeI:
  "map_of d k = Some v \<Longrightarrow>
   map_of (redact_processor d) k = Some (if str_lower k \<in> REDACT_KEYS then JStr ''***REDACTED***'' else v)"
  by (simp add: redact_lookup)

context structlog_contract
begin

lemma line_public: "same_public d d' \<Longrightarrow> log_call S cfg ini m ev d = log_call S cfg ini m ev d'"
  by (simp add: log_call_def processors_def redact_same_public [OF public_laws(4) [OF public_laws(3) [OF public_laws(2)
    [OF public_laws(1)]]]])

lemma line_filter: "method_level m = Some n \<Longrightarrow> log_call S cfg ini m ev d \<noteq> None \<longleftrightarrow> lc_min_level cfg \<le> n"
  by (simp add: log_call_def enabled_law)

lemma line_fields:
  assumes "log_call S cfg ini m ev d = Some line"
  shows "\<exists>dict. line = json_dumps (JObj dict) \<and> map_of dict ''event'' = Some (JStr ev) \<and>
    (\<forall>k v. map_of d k = Some v \<and> k \<notin> {''event'', ''level'', ''timestamp''} \<longrightarrow>
       map_of dict k = Some (if str_lower k \<in> REDACT_KEYS then JStr ''***REDACTED***'' else v))"
proof -
  let ?dict = "redact_processor (sl_time_stamper S (sl_add_log_level S m (sl_merge_contextvars S (lc_contextvars cfg)
    (sl_event_dict S ini m ev d))))"
  have "str_lower ''event'' \<notin> REDACT_KEYS" by code_simp
  then have "map_of ?dict ''event'' = Some (JStr ev)"
    by (simp add: redact_lookup kept_laws(2) [OF event_law] kept_laws(3,4))
  moreover have "map_of ?dict k = Some (if str_lower k \<in> REDACT_KEYS then JStr ''***REDACTED***'' else v)"
    if "map_of d k = Some v" "k \<notin> {''event'', ''level'', ''timestamp''}" for k v
    using that by (intro redact_SomeI) (simp add: kept_laws)
  moreover have "line = json_dumps (JObj ?dict)"
    using assms by (simp add: log_call_def processors_def split: if_splits)
  ultimately show ?thesis by blast
qed

end

section \<open>A reference implementation\<close>

text \<open>The library as its documentation describes it, at a given time.\<close>

definition rl_setdefault :: "string \<times> json \<Rightarrow> event_dict \<Rightarrow> event_dict" where
  "rl_setdefault p d = (if map_of d (fst p) = None then d @ [p] else d)"

definition rl_event_dict :: "event_dict \<Rightarrow> string \<Rightarrow> string \<Rightarrow> event_dict \<Rightarrow> event_dict" where
  "rl_event_dict ini m ev d =
     (if m = ''exception'' then rl_setdefault (''exc_info'', JBool True) else id)
       (foldr rl_setdefault (rev ini) (dict_put d ''event'' (JStr ev)))"

definition reference_structlog :: "string \<Rightarrow> structlog" where
  "reference_structlog now =
     \<lparr>sl_enabled = (\<lambda>least m. case method_level m of Some n \<Rightarrow> least \<le> n | None \<Rightarrow> False),
      sl_event_dict = rl_event_dict,
      sl_merge_contextvars = (\<lambda>vars d. foldr rl_setdefault (rev vars) d),
      sl_add_log_level = (\<lambda>m d. dict_put d ''level'' (JStr (if m = ''exception'' then ''error'' else m))),
      sl_time_stamper = (\<lambda>d. dict_put d ''timestamp'' (JStr now))\<rparr>"

lemma same_public_fst: "same_public d d' \<Longrightarrow> map fst d = map fst d'"
  unfolding same_public_def by (induction rule: list_all2_induct) auto

lemma same_public_domain: "same_public d d' \<Longrightarrow> map_of d k = None \<longleftrightarrow> map_of d' k = None"
  using same_public_fst [of d d'] by (metis map_of_eq_None_iff list.set_map)

lemma same_public_refl: "same_public d d"
  by (auto simp: same_public_def intro: list_all2_refl)

lemma same_public_dict_put: "same_public d d' \<Longrightarrow> same_public (dict_put d k v) (dict_put d' k v)"
  unfolding same_public_def by (induction rule: list_all2_induct) auto

lemma same_public_setdefault: "same_public d d' \<Longrightarrow> same_public (rl_setdefault p d) (rl_setdefault p d')"
  using same_public_domain [of d d' "fst p"]
  by (auto simp: rl_setdefault_def same_public_def intro!: list_all2_appendI)

lemma same_public_setdefaults:
  "same_public d d' \<Longrightarrow> same_public (foldr rl_setdefault ps d) (foldr rl_setdefault ps d')"
  by (induction ps) (auto simp: same_public_setdefault)

lemma map_of_dict_put: "map_of (dict_put d k v) k' = (if k' = k then Some v else map_of d k')"
  by (induction d k v rule: dict_put.induct) auto

lemma setdefault_keeps: "map_of d k = Some v \<Longrightarrow> map_of (rl_setdefault p d) k = Some v"
  by (simp add: rl_setdefault_def map_add_def split: option.split)

lemma setdefaults_keep: "map_of d k = Some v \<Longrightarrow> map_of (foldr rl_setdefault ps d) k = Some v"
  by (induction ps) (auto simp: setdefault_keeps)

lemmas same_public_intros = same_public_dict_put same_public_setdefault same_public_setdefaults

interpretation reference_log: structlog_contract "reference_structlog now" for now
  by unfold_locales
    (auto simp: reference_structlog_def rl_event_dict_def map_of_dict_put setdefault_keeps setdefaults_keep
      intro: same_public_intros)

section \<open>Properties\<close>

lemma configure_logging_Inr:
  assumes "configure_logging service level = Inr cfg"
  shows "level_names level = Some (lc_min_level cfg)" "lc_contextvars cfg = [(''service'', JStr service)]"
proof -
  from assms obtain n where n: "level_names level = Some n"
    by (auto simp: configure_logging_def split: option.splits)
  then have "level \<in> {''CRITICAL'', ''FATAL'', ''ERROR'', ''WARN'', ''WARNING'', ''INFO'', ''DEBUG'', ''NOTSET''}"
    by (auto simp: level_names_def split: if_splits)
  moreover have "list_all (\<lambda>x. str_upper x = x)
      [''CRITICAL'', ''FATAL'', ''ERROR'', ''WARN'', ''WARNING'', ''INFO'', ''DEBUG'', ''NOTSET'']"
    by code_simp
  ultimately have "str_upper level = level" by auto
  with n assms show "level_names level = Some (lc_min_level cfg)" "lc_contextvars cfg = [(''service'', JStr service)]"
    by (auto simp: configure_logging_def)
qed

text \<open>The upper-casing that follows is meant to accept any spelling, but a lower-case level ends the process before it.\<close>

lemma lower_case_level_raises:
  "level_names (str_upper ''info'') = Some 20" "\<exists>e. configure_logging service ''info'' = Inl (ValueError e)"
proof -
  show "level_names (str_upper ''info'') = Some 20" by code_simp
  have "level_names ''info'' = None" by (simp add: level_names_def)
  then show "\<exists>e. configure_logging service ''info'' = Inl (ValueError e)" by (simp add: configure_logging_def)
qed

text \<open>What the API logs of the database's URL at its start holds nothing of what precedes the last at sign, the user and the password.\<close>

lemma split_on_parts: "split_on c (a @ c # b) = split_on c a @ split_on c b"
  by (induction a) (auto split: list.split)

lemma last_split_on: "c \<notin> set b \<Longrightarrow> last (split_on c (a @ c # b)) = b"
  by (simp add: split_on_parts split_on_none)

lemma startup_hides_credentials:
  assumes "database_url s = credentials @ CHR ''@'' # host" "CHR ''@'' \<notin> set host"
  shows "startup_fields s = [(''database_url_host'', JStr host)]"
  by (simp add: startup_fields_def assms last_split_on)

text \<open>
  C40. Once logging is configured, a method prints a line exactly if its level is not below the configured one. The
  line does not depend on what is passed under a redacted key, in any capitalisation: two calls that agree elsewhere print the
  same; and it holds the message and every other field as it was passed. A process comes to log only with one of Python's
  level names, as it stands.
\<close>

theorem log_line_hides_secrets:
  assumes "structlog_contract S" "configure_logging service level = Inr cfg" "same_public d d'"
  shows "log_call S cfg ini m ev d = log_call S cfg ini m ev d' \<and>
    (\<forall>n. method_level m = Some n \<longrightarrow> (log_call S cfg ini m ev d \<noteq> None \<longleftrightarrow> the (level_names level) \<le> n)) \<and>
    (\<forall>line. log_call S cfg ini m ev d = Some line \<longrightarrow>
       (\<exists>dict. line = json_dumps (JObj dict) \<and> map_of dict ''event'' = Some (JStr ev) \<and>
         (\<forall>k v. map_of d k = Some v \<and> k \<notin> {''event'', ''level'', ''timestamp''} \<longrightarrow>
            map_of dict k = Some (if str_lower k \<in> REDACT_KEYS then JStr ''***REDACTED***'' else v))))"
proof (intro conjI allI impI)
  show "log_call S cfg ini m ev d = log_call S cfg ini m ev d'"
    by (rule structlog_contract.line_public [OF assms(1,3)])
  show "log_call S cfg ini m ev d \<noteq> None \<longleftrightarrow> the (level_names level) \<le> n" if "method_level m = Some n" for n
    using structlog_contract.line_filter [OF assms(1) that] configure_logging_Inr(1) [OF assms(2)] by simp
qed (rule structlog_contract.line_fields [OF assms(1)])

theorem log_line_hides_secrets_witness:
  "\<exists>cfg. configure_logging ''api'' ''INFO'' = Inr cfg \<and>
     log_call (reference_structlog ''t'') cfg [] ''info'' ''login'' [(''Api_Key'', JStr ''em_live_1'')] =
     log_call (reference_structlog ''t'') cfg [] ''info'' ''login'' [(''Api_Key'', JStr ''em_live_2'')] \<and>
     log_call (reference_structlog ''t'') cfg [] ''info'' ''login'' [(''Api_Key'', JStr ''em_live_1'')] \<noteq> None"
proof -
  let ?S = "reference_structlog ''t''"
  have "level_names ''INFO'' = Some 20" by code_simp
  then obtain cfg where cfg: "configure_logging ''api'' ''INFO'' = Inr cfg" by (simp add: configure_logging_def)
  have "str_lower ''Api_Key'' = ''api_key''" by code_simp
  then have public: "same_public [(''Api_Key'', JStr ''em_live_1'')] [(''Api_Key'', JStr ''em_live_2'')]"
    by (simp add: same_public_def REDACT_KEYS_def)
  note line = log_line_hides_secrets [OF reference_log.structlog_contract_axioms [of "''t''"] cfg public, of "[]" "''info''" "''login''"]
  have "method_level ''info'' = Some 20" by code_simp
  then have "log_call ?S cfg [] ''info'' ''login'' [(''Api_Key'', JStr ''em_live_1'')] \<noteq> None"
    using line [THEN conjunct2, THEN conjunct1] \<open>level_names ''INFO'' = Some 20\<close> by simp
  with cfg line [THEN conjunct1] show ?thesis by (intro exI [of _ cfg]) simp
qed

end
