(* ===== verification/Demo_Webhook.thy ===== *)
theory Demo_Webhook
  imports Json Classify
begin

text \<open>
  The demo receiver, \<open>apps/demo-webhook/demo_webhook/main.py\<close>: a state (the mode, the delay and what was
  received) set by \<open>/_control\<close> and read by \<open>/events\<close>. A handler returns its answer, the seconds it sleeps
  before answering, and the new state.
\<close>

section \<open>State and handlers\<close>

record received_event =
  rv_signature_header :: "string option"
  rv_body :: string
  rv_received_at :: real

record demo_state =
  dm_mode :: json
  dm_delay_seconds :: real
  dm_received :: "received_event list"

definition initial_demo :: demo_state where
  "initial_demo = \<lparr>dm_mode = JStr ''success'', dm_delay_seconds = 0, dm_received = []\<rparr>"

text \<open>\<open>float\<close> on a JSON value; \<open>parse_float\<close> reads a numeral's text, \<open>None\<close> where it raises ValueError.\<close>

definition py_float :: "(string \<Rightarrow> real option) \<Rightarrow> json \<Rightarrow> real result" where
  "py_float parse_float j =
     (case j of
        JInt n \<Rightarrow> Inr (of_int n)
      | JBool b \<Rightarrow> Inr (if b then 1 else 0)
      | JFloat t \<Rightarrow> (case parse_float t of Some x \<Rightarrow> Inr x | None \<Rightarrow> Inl (ValueError ''could not convert string to float''))
      | JStr t \<Rightarrow> (case parse_float t of Some x \<Rightarrow> Inr x | None \<Rightarrow> Inl (ValueError ''could not convert string to float''))
      | _ \<Rightarrow> Inl (TypeError ''float() argument must be a string or a real number''))"

text \<open>The mode is stored before the delay is converted: a failing conversion leaves the new mode.\<close>

definition set_mode :: "(string \<Rightarrow> real option) \<Rightarrow> (string \<times> json) list \<Rightarrow> demo_state \<Rightarrow>
    (json \<times> real) result \<times> demo_state" where
  "set_mode parse_float body st =
     (let st1 = st\<lparr>dm_mode := (case dict_get body ''mode'' of None \<Rightarrow> JStr ''success'' | Some m \<Rightarrow> m)\<rparr> in
      case (case dict_get body ''delay_seconds'' of None \<Rightarrow> Inr 0 | Some j \<Rightarrow> py_float parse_float j) of
        Inl e \<Rightarrow> (Inl e, st1)
      | Inr x \<Rightarrow> (Inr (dm_mode st1, x), st1\<lparr>dm_delay_seconds := x\<rparr>))"

definition get_mode :: "demo_state \<Rightarrow> json \<times> real \<times> nat" where
  "get_mode st = (dm_mode st, dm_delay_seconds st, length (dm_received st))"

definition received :: "demo_state \<Rightarrow> received_event list" where
  "received st = drop (length (dm_received st) - 50) (dm_received st)"

record demo_response =
  dr_status :: int
  dr_headers :: "(string \<times> string) list"
  dr_content :: string

definition demo_answer :: "int \<Rightarrow> string \<Rightarrow> demo_response" where
  "demo_answer code text = \<lparr>dr_status = code, dr_headers = [], dr_content = text\<rparr>"

definition receive_event :: "string option \<Rightarrow> string \<Rightarrow> real \<Rightarrow> demo_state \<Rightarrow> demo_response \<times> real \<times> demo_state" where
  "receive_event signature body now st =
     (let delay = max 0 (dm_delay_seconds st); mode = dm_mode st;
          slept = delay + (if mode = JStr ''timeout'' then 3600 else 0)
      in if mode = JStr ''disconnect'' then (demo_answer 499 '''', delay, st)
         else if mode = JStr ''500'' then (demo_answer 500 ''simulated server error'', slept, st)
         else if mode = JStr ''429''
           then ((demo_answer 429 ''simulated rate limit'')\<lparr>dr_headers := [(''Retry-After'', ''5'')]\<rparr>, slept, st)
         else if mode = JStr ''400'' then (demo_answer 400 ''simulated bad request'', slept, st)
         else (demo_answer 200 (json_dumps (JObj [(''status'', JStr ''received'')])), slept,
               st\<lparr>dm_received := dm_received st @
                 [\<lparr>rv_signature_header = signature, rv_body = body, rv_received_at = now\<rparr>]\<rparr>))"

section \<open>What a sender makes of the modes\<close>

text \<open>
  The classification of the answer by a sender that waits at most \<open>limit\<close> seconds.
\<close>

definition demo_outcome :: "real \<Rightarrow> string option \<Rightarrow> string \<Rightarrow> real \<Rightarrow> demo_state \<Rightarrow> outcome" where
  "demo_outcome limit signature body now st =
     (case receive_event signature body now st of
        (resp, slept, _) \<Rightarrow> cl_outcome (classify_response (Some (dr_status resp)) (slept > limit) False))"

lemma demo_accepts:
  "dm_received (snd (snd (receive_event signature body now st))) \<noteq> dm_received st \<longleftrightarrow>
   dr_status (fst (receive_event signature body now st)) = 200"
  by (simp add: receive_event_def Let_def demo_answer_def)

text \<open>
  The demo modes as a delivery sees them: a request the sender waited for long enough ends as the mode says
  (delivered, retried for 500 and 429, permanent for 400), a timeout is retried; the mode \<open>disconnect\<close>, meant as a
  dropped connection, ends as a permanent failure.
\<close>

lemma demo_modes:
  assumes "0 \<le> dm_delay_seconds st" "dm_delay_seconds st \<le> limit" "limit < 3600"
    "dm_mode st \<in> JStr ` {''success'', ''500'', ''429'', ''400'', ''timeout'', ''disconnect''}"
  shows "demo_outcome limit signature body now st =
    (if dm_mode st = JStr ''success'' then SUCCESS
     else if dm_mode st \<in> {JStr ''400'', JStr ''disconnect''} then PERMANENT_FAILURE else RETRY)"
  using assms
  by (auto simp: demo_outcome_def receive_event_def demo_answer_def Let_def classify_response_def
      RETRYABLE_4XX_def PERMANENT_4XX_def)

end
