(* ===== verification/Spec2Isabelle.thy ===== *)
theory Spec2Isabelle
  imports Completion Migration Heartbeat Scheduler_Process Log_Redaction Demo_Webhook
begin

text \<open>
  EventMesh: a multi-tenant platform that accepts events over HTTP and delivers them as signed webhooks.

  The program. The API (\<open>src/apps/api\<close>) authenticates a tenant's key and writes an event together with an
  outbox row in one transaction. The outbox publisher (\<open>src/apps/worker/eventmesh_worker/outbox_publisher.py\<close>) moves
  pending rows to a Redis stream. The worker (\<open>worker/main.py\<close>) reads the stream in a consumer group, runs the
  delivery engine (\<open>delivery_engine.py\<close>) on each message and acknowledges it when that returns; it reclaims
  messages that other consumers left. The engine chooses the subscribed endpoints, checks the URL against
  SSRF, signs, sends, classifies the answer and records a delivery row. The scheduler (\<open>src/apps/scheduler\<close>)
  puts due retries back on the stream and deletes expired rows. PostgreSQL and Redis are shared by all.

  The theories, each beside the code it models:

  \<^item> \<open>Prelude\<close>: exceptions, results, keyed tables, rounding. \<open>Py_String\<close>, \<open>Json\<close>, \<open>Json_Text\<close>, \<open>Sha256\<close>: what the
    code uses of Python strings, UUIDs, \<open>json\<close>, \<open>hashlib\<close> and \<open>hmac\<close>, all executable.
  \<^item> \<open>Enums\<close>, \<open>Retry\<close>, \<open>Classify\<close>, \<open>Circuit_Breaker\<close>, \<open>Ssrf\<close> (\<open>packages/common\<close>), \<open>Signature\<close> (\<open>packages/auth\<close>),
    \<open>Settings\<close> (\<open>packages/config\<close>, \<open>packages/metrics\<close>), \<open>Log_Redaction\<close> (\<open>packages/logging\<close>, with \<open>structlog\<close> behind the
    locale \<open>structlog_contract\<close>).
  \<^item> \<open>Database\<close> (\<open>packages/database/models.py\<close>): a table is a list of rows; an insert checks column widths, primary and
    unique keys and foreign keys in the order the database does and returns the new database or the error.
    \<open>db_ok\<close> says that all declared constraints hold. The locale \<open>table\<close> is what the services rely on.
  \<^item> \<open>Schema\<close>: what PostgreSQL does with table definitions and indexes. \<open>Migration\<close> (\<open>src/migrations\<close>): the
    statements of \<open>0001_initial.py\<close> and the tables that \<open>models.py\<close> declares, compared.
  \<^item> \<open>Broker\<close> (\<open>packages/messaging/broker.py\<close>): the methods of \<open>RedisStreamsBroker\<close> over a record of Redis operations. The
    locale \<open>message_broker\<close> is the contract of the abstract class, \<open>redis_broker\<close> extends it with the methods of the
    class and \<open>redis_log\<close> with streams whose entries never change; they are interpreted for the class over a
    reference semantics of Redis Streams, whose server may be down.
  \<^item> \<open>Delivery_Engine\<close>, \<open>Engine_Properties\<close>, \<open>Outbox_Publisher\<close>, \<open>Heartbeat\<close> (\<open>apps/worker\<close>), \<open>Scheduler\<close> with its
    passes and \<open>Scheduler_Process\<close> with its \<open>main\<close> (\<open>apps/scheduler\<close>).
  \<^item> \<open>Tasks\<close>: the handling of one message (\<open>_handle_message\<close> and the engine) as one function and as a task that stops
    after every read and commit of the database (\<open>task_point\<close>, \<open>task_step\<close>). \<open>Worker\<close>: any number of worker processes
    whose tasks interleave at these points (\<open>fleet\<close>, \<open>worker_step\<close>).
  \<^item> \<open>Auth\<close>, \<open>Secrets\<close>, \<open>Api_Events\<close>, \<open>Api_Endpoints\<close>, \<open>Api_Deliveries\<close>, \<open>Api_Main\<close> (\<open>apps/api\<close>): the dependencies, the
    routers with their schemas, and the application's middleware, exception handlers and authenticated routes.
  \<^item> \<open>Demo_Webhook\<close> (\<open>apps/demo-webhook\<close>).
  \<^item> \<open>System\<close>: every writer of the shared database and stream as one step relation. \<open>Lifecycle\<close>: the transitions of
    delivery, outbox, event and endpoint rows as the code has them, which every step follows; a run whose identifiers
    are fresh (\<open>fresh_run\<close>) never brings a row back; the locale \<open>row_condition\<close> carries a condition on rows through the
    transitions. \<open>Completion\<close>: when an event is COMPLETED, and when it never is. This theory: the properties that span
    components.

  How code becomes definitions. A call that may raise returns \<open>exn + 'a\<close>. A handler takes the committed database
  and returns its answer with the new one; if it raises before its commit the database is unchanged, because the
  session rolls back. The engine commits in the middle of a call, so its state is threaded through. Clocks, fresh
  identifiers, random numbers, the order in which the database returns unsorted rows (\<open>scan\<close>, any permutation) and
  rows locked by others are arguments. Third-party code is an argument too: the Redis client, the HTTP client, name
  resolution, the key store of the heartbeats, \<open>structlog\<close>, what Alembic runs, Fernet (with the hypothesis
  \<open>fernet_laws\<close>: decryption undoes encryption, tokens are ASCII), the conversions between datetimes and text
  (\<open>iso_codec\<close>: they are inverse, keep whether there is a time zone, and the text has no bar). A counter of the rate limiter
  expires; \<open>counter_store\<close> is what Redis documents of INCR and EXPIRE.

  What is shown. Single components: the circuit breaker refines the documented machine and sheds load as
  documented; the retry policies' delays; which URLs and addresses the SSRF check accepts; signatures
  verify exactly within the tolerance and only with the key. Database and engine: every operation keeps the
  constraints (\<open>db_ok\<close>); the migration can be undone, and agrees with the models but for the time zone of timestamps and
  one default; rows change only along their transitions and stay well typed; requests go only to validated URLs and are signed;
  what is recorded; which endpoints are chosen; when an event completes. Pipeline: what a batch of the publisher and a pass of each
  loop of the scheduler do, due retries back on the stream, at-least-once delivery through start-up, crashes and shutdown of
  any number of workers, the count of live workers whatever rounds failed, retries and replays reaching
  exactly their endpoint, and, for any interleaving of all components and tasks, that no published row loses its
  message. API: creation and idempotency, exact paging, tenant isolation, rate limits, secrets, requests turned away before
  their handler, error responses. Logging: levels, and lines that hide secrets. A task that runs alone is the handling of its
  message as one function (lemma \<open>task_runs_as_function\<close>).

  Some behaviour is not what the documentation intends, and is stated as it is: the engine numbers every attempt 1,
  and the persisted circuit state does not move (properties of \<open>Engine_Properties\<close>); the first success of a fan-out
  completes the event, and a retried attempt or one whose task died keeps it from being completed (properties of \<open>Completion\<close>);
  no cursor works on the migrated database (last property of this theory). Lemmas
  state more of the kind: \<open>publisher_task_dies\<close>, \<open>young_dlq_blocks_cleanup\<close>, \<open>delete_endpoint_eq\<close>,
  \<open>exponential_default_delays\<close>, \<open>ipv6_safe_block\<close>, \<open>demo_modes\<close>, \<open>lower_case_level_raises\<close>, \<open>huge_timestamp_raises\<close>,
  \<open>migration_matches_models\<close>. Since the publisher's task dies before its loop, \<open>run_forever\<close> is modelled up to the call that
  raises; the properties of batches speak of the method \<open>_publish_batch\<close>.

  Bounds. \<open>json_loads\<close> parses with a recursion bound of twice the text's length plus two, which the round trip shows
  to be enough for every printed value. A client that follows cursors makes at most one request per event and one
  more. All other loops are structural recursions.

  Limits of the model. A float is a real number. A character is a code point below 256. The interleaving inside the
  handling of a message is that of its reads and commits; a request to the API, a batch of the publisher and a pass of
  the scheduler are one step each, so that a worker that sets the status of an event between a batch's XADD and its commit is not
  seen, although the commit would overwrite that status with QUEUED. Between a flush and the commit of a task the database would hold locks on the rows
  written; the model lets others write them, and a row that is gone by the commit raises StaleDataError as the ORM does,
  so that it allows more interleavings than the database. A commit succeeds once its statements did. JSON columns return the value written, keys in order. Not modelled:
  \<open>session.py\<close> and the opening and closing of connections, which only call SQLAlchemy, \<open>httpx\<close> and \<open>redis\<close>; Alembic's
  own table of revisions and its offline mode; the checks PostgreSQL makes of text beyond its width (NUL characters); answers of
  FastAPI's own to requests that do not fit a schema (422), which it gives before the authentication; the Prometheus exposition; the registration of routes with FastAPI,
  whose requests are taken as dispatched to their handler; the dashboards and infrastructure files, which have
  no logic of their own.
\<close>

section \<open>From the API to the worker\<close>

text \<open>
  C3. Over any broker that keeps its contract: once the publisher has marked the outbox row of a newly created
  event as published, the stream holds, for the consumer group, a message that the worker reads as this event of
  this tenant and type, to be delivered to all subscribers.
\<close>

theorem created_event_reaches_worker:
  assumes "redis_broker R undelivered pending ready" "db_ok d" "is_scan scan" "ready stream g r"
    "create_event s env body hdr ctx (d, ms) = (Inr rs, (d1, ms1))" "get_event_row (ers_event_id rs) d = None"
    "wf_json (JObj (ecr_data body))"
    "publish_batch R stream n scan locked nows now (d1, r) = (k, (d2, r2))" "is_published (ce_outbox_id env) d2"
  shows "\<exists>m p. m \<in> set (undelivered stream g r2) \<and> message_payload m = Inr p \<and>
    parse_payload p = Inr (ers_event_id rs, ctx_tenant_id ctx, JStr (ecr_type body), None)"
proof -
  have new: "create_rows s env body ctx (truthy_str (hd_idempotency_key hdr)) d = Inr d1"
    "ers_event_id rs = ce_event_id env"
    using create_event_new [OF assms(2,5,6)] by simp_all
  define ev where "ev = new_event env body ctx"
  define ob where "ob = new_outbox (ce_outbox_id env) (ce_db_now env) ''event'' ev
     (event_payload (ce_isoformat env) (ce_now env) (ctx_tenant_id ctx) ev)"
  have "ob \<in> set (outbox_events d1)"
    using create_rows_result(1) [OF new(1)] by (simp add: ob_def ev_def)
  from published_has_message [OF assms(1) db_ok_create_rows [OF new(1) assms(2)] assms(3,4,8) this]
  obtain m where m: "m \<in> set (undelivered stream g r2)" "msg_fields m = outbox_fields ob"
    using assms(9) by (auto simp: ob_def)
  have "wf_json (JObj (ob_payload ob))"
    using assms(7) wf_event_payload(1) [of ev] by (simp add: ob_def ev_def)
  from message_of_outbox [OF m(2) this] m(1) new(2) show ?thesis
    by (auto simp: ob_def ev_def parse_event_payload_plain dict_get_def)
qed

theorem created_event_reaches_worker_witness:
  "\<exists>m p d1 ms1 k d2 r2.
     create_event default_settings sample_create_env sample_body sample_headers sample_ctx (sample_db, []) =
       (Inr \<lparr>ers_event_id = 11, ers_status = ''queued''\<rparr>, (d1, ms1)) \<and>
     publish_batch reference_redis ''s'' 50 (\<lambda>xs. xs) (\<lambda>_. False) (\<lambda>_. 7) 7 (d1, sample_redis) = (k, (d2, r2)) \<and>
     m \<in> set (rs_undelivered ''s'' ''g'' r2) \<and> message_payload m = Inr p \<and> parse_payload p = Inr (11, 1, JStr ''order'', None)"
proof -
  from sample_created obtain d1 ms1 where c: "create_event default_settings sample_create_env sample_body sample_headers
      sample_ctx (sample_db, []) = (Inr \<lparr>ers_event_id = 11, ers_status = ''queued''\<rparr>, (d1, ms1))" "db_ok d1" by blast
  have fresh: "get_event_row (ers_event_id \<lparr>ers_event_id = 11, ers_status = ''queued''\<rparr>) sample_db = None"
    by (simp add: get_event_row_def sample_db_def sample_event_def tab_get_Cons)
  from create_event_new [OF sample_db_ok c(1) fresh] have
    "create_rows default_settings sample_create_env sample_body sample_ctx (truthy_str (hd_idempotency_key sample_headers))
       sample_db = Inr d1" ..
  from create_rows_result(1) [OF this] obtain ob where ob: "outbox_events d1 = [sample_outbox, ob]" "ob_id ob = 31"
    "ob_status ob = outbox_status_value OB_PENDING"
    by (simp add: sample_db_def sample_create_env_def)
  then have "length (pending_outbox d1) \<le> 50" "ob \<in> set (pending_outbox d1)"
    by (simp_all add: pending_outbox_def)
  moreover have r: "rs_ready ''s'' ''g'' sample_redis" "rd_up sample_redis"
    by (simp_all add: rs_ready_def sample_redis_def)
  ultimately obtain k d2 r2 where p:
    "publish_batch reference_redis ''s'' 50 (\<lambda>xs. xs) (\<lambda>_. False) (\<lambda>_. 7) 7 (d1, sample_redis) = (k, (d2, r2))"
    "is_published 31 d2"
    using publish_sample [OF c(2)] ob(2) by metis
  have "wf_json (JObj (ecr_data sample_body))" "is_published (ce_outbox_id sample_create_env) d2"
    using p(2) by (simp_all add: sample_body_def sample_create_env_def)
  from created_event_reaches_worker [OF reference.redis_broker_axioms sample_db_ok is_scan_id r(1) c(1) fresh this(1) p(1) this(2)]
  obtain m p' where "m \<in> set (rs_undelivered ''s'' ''g'' r2)" "message_payload m = Inr p'"
    "parse_payload p' = Inr (11, 1, JStr ''order'', None)"
    by (auto simp: sample_ctx_def sample_body_def)
  with c(1) p(1) show ?thesis by blast
qed

text \<open>
  C1. Whatever the API, the publisher, the workers (crashes included) and the scheduler do, in any order, from a start
  without tasks, over any broker that keeps its contract and whose streams are logs: every outbox row that is marked published has a
  message with its identifier and payload that was put on the stream and waits there for the consumer group, or was
  given to a worker and is not acknowledged, or was processed, this very message, without an exception.
\<close>

theorem nothing_published_is_lost:
  assumes "redis_log R undelivered pending ready entries" "system_reach F s R w w'" "db_ok (wk_db w)"
    "ready (worker_stream_name s) (worker_consumer_group s) (wk_redis w)"
    "wk_waiting w = []" "wk_running w = []" "wk_done w = []"
    "\<forall>x \<in> set (outbox_events (wk_db w)). ob_status x \<noteq> outbox_status_value OB_PUBLISHED"
    "ob \<in> set (outbox_events (wk_db w'))" "ob_status ob = outbox_status_value OB_PUBLISHED"
  shows "\<exists>m. msg_fields m = [(''outbox_id'', str_uuid (ob_id ob)), (''payload'', json_dumps (JObj (ob_payload ob)))] \<and>
    m \<in> set (entries (worker_stream_name s) (wk_redis w')) \<and>
    (m \<in> set (undelivered (worker_stream_name s) (worker_consumer_group s) (wk_redis w')) \<or>
     m \<in> set (pending (worker_stream_name s) (worker_consumer_group s) (wk_redis w')) \<or>
     m \<in> set (wk_done w'))"
proof -
  have "published_kept undelivered pending s w" using assms(8) by (simp add: published_kept_def)
  moreover have "fleet_messages w \<subseteq> set (entries (worker_stream_name s) (wk_redis w))"
    using assms(5-7) by (simp add: fleet_messages_def)
  ultimately have kept: "published_kept undelivered pending s w'" and
    inv: "ready (worker_stream_name s) (worker_consumer_group s) (wk_redis w')"
    "fleet_messages w' \<subseteq> set (entries (worker_stream_name s) (wk_redis w'))"
    using redis_log.kept_reach [OF assms(1-4)] by simp_all
  from kept assms(9,10) obtain m where m: "msg_fields m = outbox_fields ob" "safe_message undelivered pending s w' m"
    unfolding published_kept_def by blast
  with redis_log.safe_in_log [OF assms(1) m(2) inv] show ?thesis
    unfolding safe_message_def outbox_fields_def by blast
qed

theorem nothing_published_is_lost_witness:
  "\<exists>w' ob m. system_reach sample_fernet default_settings reference_redis sample_worker w' \<and>
     ob \<in> set (outbox_events (wk_db w')) \<and> ob_status ob = outbox_status_value OB_PUBLISHED \<and>
     msg_fields m = [(''outbox_id'', str_uuid (ob_id ob)), (''payload'', json_dumps (JObj (ob_payload ob)))] \<and>
     (m \<in> set (rs_undelivered ''eventmesh:deliveries'' ''eventmesh-delivery-group'' (wk_redis w')) \<or>
      m \<in> set (rs_pending ''eventmesh:deliveries'' ''eventmesh-delivery-group'' (wk_redis w')))"
proof -
  from sample_published obtain w' ob where w: "system_reach sample_fernet default_settings reference_redis sample_worker w'"
    "ob \<in> set (outbox_events (wk_db w'))" "ob_status ob = outbox_status_value OB_PUBLISHED" "wk_done w' = []" by blast
  have start: "db_ok (wk_db sample_worker)"
    "rs_ready (worker_stream_name default_settings) (worker_consumer_group default_settings) (wk_redis sample_worker)"
    "wk_waiting sample_worker = []" "wk_running sample_worker = []" "wk_done sample_worker = []"
    using sample_db_ok
    by (simp_all add: wk_db_def sample_worker_def sample_state_def rs_ready_def sample_redis_def)
  have fresh: "\<forall>x \<in> set (outbox_events (wk_db sample_worker)). ob_status x \<noteq> outbox_status_value OB_PUBLISHED"
    by (simp add: wk_db_def sample_worker_def sample_state_def) (simp add: sample_db_def sample_outbox_def)
  have names: "worker_stream_name default_settings = ''eventmesh:deliveries''"
    "worker_consumer_group default_settings = ''eventmesh-delivery-group''"
    by (simp_all add: default_settings_def)
  from nothing_published_is_lost [OF reference_log.redis_log_axioms w(1) start fresh w(2,3), unfolded names] w(4)
  obtain m where "msg_fields m = [(''outbox_id'', str_uuid (ob_id ob)), (''payload'', json_dumps (JObj (ob_payload ob)))]"
    "m \<in> set (rs_undelivered ''eventmesh:deliveries'' ''eventmesh-delivery-group'' (wk_redis w')) \<or>
     m \<in> set (rs_pending ''eventmesh:deliveries'' ''eventmesh-delivery-group'' (wk_redis w'))"
    by (metis empty_iff list.set(1))
  with w(1-3) show ?thesis by blast
qed

section \<open>Retries and replays reach their endpoint\<close>

text \<open>
  C31. The message of a scheduled retry, and the message of a replayed dead-letter entry, are read by the worker
  as the original event for exactly the endpoint of the failed delivery, if that endpoint is active,
  and for none if it is disabled or gone; no other subscriber gets the event again.
\<close>

theorem retries_are_targeted:
  assumes "msg_fields m = retry_fields isof ev dl \<or>
      msg_fields m = outbox_fields (dlq_replay_row env ctx dl ev)" "wf_json (ev_payload ev)"
  shows "\<exists>p tid et target. message_payload m = Inr p \<and> parse_payload p = Inr (ev_id ev, tid, JStr et, target) \<and>
    resolve_endpoints scan tid (JStr et) target d =
      Inr (case get_endpoint (dl_endpoint_id dl) d of
             Some ep \<Rightarrow> if ep_status ep = endpoint_status_value EP_ACTIVE then [dl_endpoint_id dl] else []
           | None \<Rightarrow> [])"
  using assms(1)
proof
  assume "msg_fields m = retry_fields isof ev dl"
  from message_of_retry [OF this wf_event_payload(4) [OF assms(2)]] show ?thesis
    by (simp add: parse_retry_payload resolve_target)
next
  assume m: "msg_fields m = outbox_fields (dlq_replay_row env ctx dl ev)"
  have "wf_json (JObj (ob_payload (dlq_replay_row env ctx dl ev)))"
    using wf_event_payload(3) [OF assms(2)] by (simp add: dlq_replay_row_def)
  from message_of_outbox [OF m this] show ?thesis
    by (simp add: dlq_replay_row_def dlq_replay_payload_def parse_event_payload dict_get_def resolve_target)
qed

theorem retries_are_targeted_witness:
  "\<exists>p tid et target. message_payload \<lparr>message_id = ''1-0'', msg_fields = retry_fields str_int sample_event sample_dead\<rparr> = Inr p \<and>
     parse_payload p = Inr (10, tid, JStr et, target) \<and> resolve_endpoints rev tid (JStr et) target sample_db = Inr [20]"
  using retries_are_targeted [of "\<lparr>message_id = ''1-0'', msg_fields = retry_fields str_int sample_event sample_dead\<rparr>"
      str_int sample_event sample_dead _ _ rev sample_db]
  by (simp add: sample_event_def sample_dead_def get_endpoint_def sample_db_def sample_endpoint_def tab_get_Cons)

section \<open>Secrets and tenants\<close>

text \<open>
  C21. The secret shown once, when an endpoint is created, verifies the webhooks: as long as the endpoint keeps
  its stored secret, every request the engine sends to it, with the worker's decryption, carries a
  signature header that verifies under the shown secret exactly within the tolerance of the signing time, which is any
  finite float.
\<close>

theorem shown_secret_verifies:
  assumes "fernet_laws F" "create_endpoint F s nenv body ctx d = (Inr rs, d1)"
    "get_endpoint (nd_id rs) d1 = Some ep0" "get_endpoint (nd_id rs) (es_db st) = Some ep"
    "ep_secret_encrypted ep = ep_secret_encrypted ep0" "de_decrypt env = worker_decrypt_secret F s"
    "deliver_to_endpoint s env eid (nd_id rs) n st = (r, st')" "es_sent st' \<noteq> es_sent st"
  shows "\<exists>rq h. es_sent st' = es_sent st @ [rq] \<and> map_of (rq_headers rq) ''X-EventMesh-Signature'' = Some h \<and>
    (\<bar>de_time env\<bar> \<le> max_float \<longrightarrow> (\<forall>now tol. verify_signature_header now (nd_signing_secret rs) (rq_content rq) h tol =
       Inr (\<bar>now - of_int (trunc (de_time env))\<bar> \<le> of_int tol)))"
  using assms(7,8)
proof (rule deliver_to_endpoint_sent)
  fix ev ep' sec
  assume sent: "get_endpoint (nd_id rs) (es_db st) = Some ep'" "es_sent st' = es_sent st @ [delivery_request env sec ev ep' n]"
    "de_decrypt env (ep_secret_encrypted ep') = Inr sec"
  from sent(1,3) assms(4-6) created_secret [OF assms(1,2)] assms(3) have "sec = nd_signing_secret rs" by auto
  moreover obtain h where h: "map_of (rq_headers (delivery_request env sec ev ep' n)) ''X-EventMesh-Signature'' = Some h"
    by (simp add: delivery_request_def Let_def)
  ultimately show ?thesis using sent(2) request_signature_verifies [OF h] by auto
qed

theorem shown_secret_verifies_witness:
  "\<exists>rs d1 rq h. create_endpoint sample_fernet default_settings sample_endpoint_env sample_new_endpoint sample_ctx sample_db =
       (Inr rs, d1) \<and>
     es_sent (snd (deliver_to_endpoint default_settings
       (sample_env\<lparr>de_decrypt := worker_decrypt_secret sample_fernet default_settings\<rparr>) 10 (nd_id rs) 1
       (sample_state\<lparr>es_db := d1\<rparr>))) = [rq] \<and>
     map_of (rq_headers rq) ''X-EventMesh-Signature'' = Some h \<and>
     verify_signature_header 1000 (nd_signing_secret rs) (rq_content rq) h 300 = Inr True"
proof -
  let ?env = "sample_env\<lparr>de_decrypt := worker_decrypt_secret sample_fernet default_settings\<rparr>"
  from sample_endpoint_created obtain rs d1 where c:
    "create_endpoint sample_fernet default_settings sample_endpoint_env sample_new_endpoint sample_ctx sample_db = (Inr rs, d1)"
    by blast
  let ?st = "sample_state\<lparr>es_db := d1\<rparr>"
  from created_rows [OF c] obtain token where id: "nd_id rs = 21" and
    eps: "endpoints d1 = [sample_endpoint, new_endpoint sample_endpoint_env token sample_new_endpoint sample_ctx]" and
    evs: "events d1 = [sample_event]" and dls: "deliveries d1 = []"
    by (auto simp: sample_db_def sample_endpoint_env_def)
  define ep where "ep = new_endpoint sample_endpoint_env token sample_new_endpoint sample_ctx"
  have ev: "get_event_row 10 (es_db ?st) = Some sample_event" by (simp add: get_event_row_def evs sample_event_def tab_get_Cons)
  have ep: "get_endpoint (nd_id rs) d1 = Some ep"
    by (simp add: get_endpoint_def eps id ep_def tab_get_Cons) (simp add: sample_endpoint_def sample_endpoint_env_def)
  have closed: "ep_circuit_state ep = circuit_state_value CLOSED" by (simp add: ep_def)
  have ins: "\<exists>d2. insert_delivery (started_row ?env sample_event ep 1) (es_db ?st) = Inr d2"
    by (simp add: insert_delivery_def fits_defs new_delivery_def dls evs eps ep_def sample_event_def)
  have url: "validate_webhook_url (de_net ?env) (ep_url ep) (max_endpoint_url_length default_settings) = Inr ()"
    using sample_url_ok
    by (simp add: sample_env_def ep_def sample_new_endpoint_def endpoint_create_default_def default_settings_def)
  have sec: "de_decrypt ?env (ep_secret_encrypted ep) = Inr (nd_signing_secret rs)"
    using created_secret [OF sample_fernet_laws c] ep by simp
  obtain r st' where d: "deliver_to_endpoint default_settings ?env 10 (nd_id rs) 1 ?st = (r, st')"
    by (cases "deliver_to_endpoint default_settings ?env 10 (nd_id rs) 1 ?st")
  from ins obtain d2 where "insert_delivery (started_row ?env sample_event ep 1) (es_db ?st) = Inr d2" ..
  from closed_endpoint_is_sent [OF ev _ closed this url sec, of "nd_id rs"] ep d
  have "es_sent st' \<noteq> es_sent ?st" by simp
  moreover have "\<bar>de_time ?env\<bar> \<le> max_float" by (simp add: sample_env_def max_float_def)
  ultimately have here: "es_sent st' \<noteq> es_sent ?st" "\<bar>de_time ?env\<bar> \<le> max_float" .
  from shown_secret_verifies [OF sample_fernet_laws c ep _ refl _ d here(1)] here(2) ep obtain rq h where
    "es_sent st' = es_sent ?st @ [rq]" "map_of (rq_headers rq) ''X-EventMesh-Signature'' = Some h"
    "verify_signature_header 1000 (nd_signing_secret rs) (rq_content rq) h 300 =
       Inr (\<bar>1000 - real_of_int (trunc (de_time ?env))\<bar> \<le> 300)"
    by auto
  moreover have "trunc (de_time ?env) = 1000" by (simp add: sample_env_def trunc_def)
  ultimately show ?thesis using c d by (intro exI [of _ rs] exI [of _ d1] exI [of _ rq] exI [of _ h]) (simp add: sample_state_def)
qed

text \<open>
  C22. A tenant cannot tell another tenant's events, endpoints and deliveries from ones that do not exist, and
  cannot change them: every route that takes an identifier answers 404 and leaves the database as it was.
\<close>

theorem tenant_isolation:
  assumes "\<not> owns_event (ctx_tenant_id ctx) i d" "\<not> owns_endpoint (ctx_tenant_id ctx) j d"
    "\<not> owns_delivery (ctx_tenant_id ctx) k d"
  shows "get_event i ctx d = Inl (not_found ''event'') \<and>
    replay_event renv i ctx d = (Inl (not_found ''event''), d) \<and>
    api_get_endpoint scan j ctx d = Inl (not_found ''endpoint'') \<and>
    update_endpoint s nenv j body ctx d = (Inl (not_found ''endpoint''), d) \<and>
    delete_endpoint j ctx d = (Inl (not_found ''endpoint''), d) \<and>
    list_endpoint_deliveries dscan j ctx limit d = Inl (not_found ''endpoint'') \<and>
    get_delivery k ctx d = Inl (not_found ''delivery'') \<and>
    replay_dlq_entry renv k ctx d = (Inl (not_found ''DLQ entry''), d)"
  using foreign_event [OF assms(1)] foreign_endpoint [OF assms(2)] foreign_delivery [OF assms(3)]
  by (simp add: api_get_endpoint_def update_endpoint_def delete_endpoint_def list_endpoint_deliveries_def
      get_delivery_def replay_dlq_entry_def)

theorem tenant_isolation_witness:
  "get_event 10 (sample_ctx\<lparr>ctx_tenant_id := 9\<rparr>) sample_dlq_db = Inl (not_found ''event'') \<and>
   replay_dlq_entry sample_replay_env 50 (sample_ctx\<lparr>ctx_tenant_id := 9\<rparr>) sample_dlq_db = (Inl (not_found ''DLQ entry''), sample_dlq_db)"
proof -
  have "\<not> owns_event 9 10 sample_dlq_db" "\<not> owns_endpoint 9 20 sample_dlq_db" "\<not> owns_delivery 9 50 sample_dlq_db"
    by (simp_all add: owns_event_def owns_endpoint_def owns_delivery_def get_defs sample_dlq_db_def sample_dead_def
        sample_defs tab_get_Cons)
  with tenant_isolation [of "sample_ctx\<lparr>ctx_tenant_id := 9\<rparr>" 10 sample_dlq_db 20 50 sample_replay_env] show ?thesis by simp
qed

section \<open>Paging on the migrated database\<close>

text \<open>
  What the driver returns for a time stored in a column: with a time zone from \<open>timestamptz\<close>, without from \<open>timestamp\<close>.
\<close>

definition stamp_of_column :: "column_type \<Rightarrow> datetime \<Rightarrow> stamp" where
  "stamp_of_column c t = (if c = DateTime True then Aware t else Naive t)"

text \<open>The type of \<open>created_at\<close> of the events of a database.\<close>

definition created_at_type :: "schema \<Rightarrow> column_type option" where
  "created_at_type sc =
     (case find_table ''events'' sc of None \<Rightarrow> None | Some td \<Rightarrow> map_option col_type (find_column ''created_at'' td))"

text \<open>
  C30. Paging does not work on the database that the migration makes: after a successful upgrade of any database, the
  times of events come back with a time zone, and every listing with a cursor made from an event of an
  answer fails with a DataError, whatever the tenant, the filter, the page size and the rows are. With the columns the
  models declare, for which exact paging is shown, the times have no time zone.
\<close>

theorem paging_fails_after_migration:
  assumes "iso_codec isof fromiso" "do_run_migrations (run_ddl upgrade) sc = (Inr (), sc')"
  shows "\<exists>c. created_at_type sc' = Some c \<and>
      (\<forall>ctx limit e et d. \<exists>m. list_events fromiso ctx limit (Some (event_cursor isof (stamp_of_column c) e)) et d =
         Inl (DataError m)) \<and>
      map_option stamp_of_column (created_at_type metadata) = Some Naive"
proof -
  have run: "run_ddl upgrade sc = Inr sc'"
    using assms(2) by (simp add: do_run_migrations_def split: sum.splits)
  then have apart: "run_names upgrade \<inter> relation_names sc = {}" using upgrade_taken [of sc] by fastforce
  have sc': "sc' = schema_app sc migrated_schema" using upgrade_beside [OF apart] run by simp
  have "''events'' \<in> run_names upgrade" by code_simp
  then have "''events'' \<notin> tbl_name ` set (sc_tables sc)"
    using apart table_name_is_relation [of _ sc] by auto
  moreover have "created_at_type migrated_schema = Some (DateTime True)" by code_simp
  ultimately have aware: "created_at_type sc' = Some (DateTime True)"
    by (simp add: created_at_type_def sc' find_table_app)
  have "created_at_type metadata = Some (DateTime False)" by code_simp
  then have naive: "map_option stamp_of_column (created_at_type metadata) = Some Naive"
    by (simp add: stamp_of_column_def fun_eq_iff)
  have "stamp_of_column (DateTime True) = Aware" by (simp add: stamp_of_column_def fun_eq_iff)
  with aware_cursor_fails [OF assms(1)] have "\<exists>m. list_events fromiso ctx limit
      (Some (event_cursor isof (stamp_of_column (DateTime True)) e)) et d = Inl (DataError m)" for ctx limit e et d
    by simp
  with aware naive show ?thesis by blast
qed

theorem paging_fails_after_migration_witness:
  "\<exists>sc' c m. run_ddl upgrade alembic_schema = Inr sc' \<and> created_at_type sc' = Some c \<and>
     list_events text_stamp sample_ctx 1
       (Some (event_cursor stamp_text (stamp_of_column c) (event_detail_of sample_event))) None sample_db = Inl (DataError m)"
proof -
  have "run_names upgrade \<inter> relation_names alembic_schema = {}" by code_simp
  from upgrade_beside [OF this] have up: "run_ddl upgrade alembic_schema = Inr (schema_app alembic_schema migrated_schema)" .
  then have "do_run_migrations (run_ddl upgrade) alembic_schema = (Inr (), schema_app alembic_schema migrated_schema)"
    by (simp add: do_run_migrations_def)
  from paging_fails_after_migration [OF stamp_codec this] up show ?thesis by blast
qed

end
